(* ===== verification/Prelude.thy ===== *)
theory Prelude
  imports Main "HOL-Library.Word"
begin

unbundle bit_operations_syntax

text \<open>
  Shared vocabulary of the development: the machine integers of the Go sources, run-time
  panics as values of a sum type with their sequencing operator, Go's checked indexing,
  slicing, division and nil dereference, and Go maps as partial functions.
  The collections declared here (\<open>go_simps\<close> for evaluating checked operations,
  \<open>inv_intros\<close> for invariant preservation) are filled by the component theories.
\<close>

named_theorems go_simps
named_theorems inv_intros

type_synonym u8 = "8 word"
type_synonym u16 = "16 word"
type_synonym u32 = "32 word"
type_synonym u64 = "64 word"
type_synonym i64 = "64 word"

text \<open>A \<open>time.Duration\<close> in nanoseconds.\<close>

definition seconds :: "nat \<Rightarrow> i64" where
  "seconds n = word_of_nat n * 1000000000"

lemma word_of_nat_unat: "word_of_nat (unat w) = (w :: 'a::len word)"
  by simp

lemma unat_word_of_nat:
  "n < 2 ^ LENGTH('a) \<Longrightarrow> unat (word_of_nat n :: 'a::len word) = n"
  by (simp add: unat_of_nat)

lemma unat_8_less: "unat (w :: u8) < 256"
  by (rule order_less_le_trans [OF unsigned_less]) simp

lemma unat_16_less: "unat (w :: u16) < 65536"
  by (rule order_less_le_trans [OF unsigned_less]) simp

lemma unat_32_less: "unat (w :: u32) < 4294967296"
  by (rule order_less_le_trans [OF unsigned_less]) simp

lemma unat_64_less: "unat (w :: u64) < 18446744073709551616"
  by (rule order_less_le_trans [OF unsigned_less]) simp

lemmas unat_width_mod [simp] =
  unat_8_less [THEN mod_less] unat_16_less [THEN mod_less]
  unat_32_less [THEN mod_less] unat_64_less [THEN mod_less]

lemma ucast_widen_narrow [simp]:
  "ucast (ucast (x8 :: u8) :: u64) = x8"
  "ucast (ucast (x16 :: u16) :: u64) = x16"
  "ucast (ucast (x32 :: u32) :: u64) = x32"
  by (rule bit_word_eqI, simp add: bit_simps)+

lemma nat_mod_add_left_cancel:
  fixes a i j m :: nat
  assumes "(a + i) mod m = (a + j) mod m"
  shows "i mod m = j mod m"
proof -
  from assms obtain p q where "a + i + m * p = a + j + m * q"
    unfolding nat_mod_eq_iff by blast
  then have "i + m * p = j + m * q" by simp
  then show ?thesis unfolding nat_mod_eq_iff by blast
qed

subsection \<open>Panics\<close>

text \<open>
  A Go panic terminates the process unless it is recovered; the sources never recover.
  A computation that may panic returns \<open>Inl\<close> of the reason or \<open>Inr\<close> of its result.
\<close>

datatype panic =
    NilDereference
  | IndexOutOfRange
  | SliceOutOfRange
  | BadTypeAssertion
  | NilMapWrite
  | DivideByZero
  | ReflectMisuse

type_synonym 'a go = "panic + 'a"

definition and_then :: "'a go \<Rightarrow> ('a \<Rightarrow> 'b go) \<Rightarrow> 'b go" where
  "and_then m f = (case m of Inl p \<Rightarrow> Inl p | Inr x \<Rightarrow> f x)"

lemma and_then_simps [simp, go_simps]:
  "and_then (Inl p) f = Inl p"
  "and_then (Inr x) f = f x"
  by (simp_all add: and_then_def)

lemma and_then_Inr_iff:
  "and_then m f = Inr y \<longleftrightarrow> (\<exists>x. m = Inr x \<and> f x = Inr y)"
  by (cases m) simp_all

lemma and_then_Inl_iff:
  "and_then m f = Inl p \<longleftrightarrow> m = Inl p \<or> (\<exists>x. m = Inr x \<and> f x = Inl p)"
  by (cases m) simp_all

lemma and_then_InrE [elim]:
  assumes "and_then m f = Inr y"
  obtains x where "m = Inr x" and "f x = Inr y"
  using assms by (auto simp: and_then_Inr_iff)

lemma and_then_cong [fundef_cong]:
  assumes "m = m'" and "\<And>x. m' = Inr x \<Longrightarrow> f x = f' x"
  shows "and_then m f = and_then m' f'"
  using assms by (cases m') simp_all

lemma and_then_assoc [simp]:
  "and_then (and_then m f) g = and_then m (\<lambda>x. and_then (f x) g)"
  by (cases m) simp_all

subsection \<open>Checked operations\<close>

text \<open>Indexing \<open>xs[i]\<close>, storing \<open>xs[i] = v\<close>, the slice \<open>xs[:n]\<close> (capacity = length),
  unsigned \<open>%\<close>, and dereferencing a pointer that may be nil.\<close>

definition go_index :: "'a list \<Rightarrow> nat \<Rightarrow> 'a go" where
  "go_index xs i = (if i < length xs then Inr (xs ! i) else Inl IndexOutOfRange)"

definition go_store :: "'a list \<Rightarrow> nat \<Rightarrow> 'a \<Rightarrow> 'a list go" where
  "go_store xs i v = (if i < length xs then Inr (xs[i := v]) else Inl IndexOutOfRange)"

definition go_take :: "nat \<Rightarrow> 'a list \<Rightarrow> 'a list go" where
  "go_take n xs = (if n \<le> length xs then Inr (take n xs) else Inl SliceOutOfRange)"

definition go_mod :: "'a::len word \<Rightarrow> 'a word \<Rightarrow> 'a word go" where
  "go_mod a b = (if b = 0 then Inl DivideByZero else Inr (a mod b))"

definition go_deref :: "'a option \<Rightarrow> 'a go" where
  "go_deref p = (case p of None \<Rightarrow> Inl NilDereference | Some x \<Rightarrow> Inr x)"

text \<open>The type assertion \<open>v.(T)\<close> on an interface value that is nil or holds a \<open>T\<close>.\<close>

definition go_assert :: "'a option \<Rightarrow> 'a go" where
  "go_assert v = (case v of None \<Rightarrow> Inl BadTypeAssertion | Some x \<Rightarrow> Inr x)"

lemma go_index_in [simp, go_simps]: "i < length xs \<Longrightarrow> go_index xs i = Inr (xs ! i)"
  by (simp add: go_index_def)

lemma go_index_out [simp, go_simps]: "length xs \<le> i \<Longrightarrow> go_index xs i = Inl IndexOutOfRange"
  by (simp add: go_index_def)

lemma go_index_InrD: "go_index xs i = Inr x \<Longrightarrow> i < length xs \<and> x = xs ! i"
  by (simp add: go_index_def split: if_splits)

lemma go_store_in [simp, go_simps]: "i < length xs \<Longrightarrow> go_store xs i v = Inr (xs[i := v])"
  by (simp add: go_store_def)

lemma go_store_out [simp, go_simps]: "length xs \<le> i \<Longrightarrow> go_store xs i v = Inl IndexOutOfRange"
  by (simp add: go_store_def)

lemma go_store_InrD: "go_store xs i v = Inr ys \<Longrightarrow> i < length xs \<and> ys = xs[i := v]"
  by (simp add: go_store_def split: if_splits)

lemma go_take_in [simp, go_simps]: "n \<le> length xs \<Longrightarrow> go_take n xs = Inr (take n xs)"
  by (simp add: go_take_def)

lemma go_take_out [simp, go_simps]: "length xs < n \<Longrightarrow> go_take n xs = Inl SliceOutOfRange"
  by (simp add: go_take_def)

lemma go_mod_nonzero [simp, go_simps]: "b \<noteq> 0 \<Longrightarrow> go_mod a b = Inr (a mod b)"
  by (simp add: go_mod_def)

lemma go_mod_zero [simp, go_simps]: "go_mod a 0 = Inl DivideByZero"
  by (simp add: go_mod_def)

lemma go_deref_simps [simp, go_simps]:
  "go_deref None = Inl NilDereference"
  "go_deref (Some x) = Inr x"
  by (simp_all add: go_deref_def)

lemma go_deref_InrD: "go_deref p = Inr x \<Longrightarrow> p = Some x"
  by (cases p) simp_all

lemma go_assert_simps [simp, go_simps]:
  "go_assert None = Inl BadTypeAssertion"
  "go_assert (Some x) = Inr x"
  by (simp_all add: go_assert_def)

lemma go_assert_InrD: "go_assert p = Inr x \<Longrightarrow> p = Some x"
  by (cases p) simp_all

subsection \<open>Loops over slices that may panic\<close>

text \<open>\<open>go_fold f xs s\<close> runs \<open>f x\<close> on the state for each element in order and stops at the
  first panic; \<open>go_map\<close> collects the results.\<close>

fun go_fold :: "('a \<Rightarrow> 's \<Rightarrow> 's go) \<Rightarrow> 'a list \<Rightarrow> 's \<Rightarrow> 's go" where
  "go_fold f [] s = Inr s"
| "go_fold f (x # xs) s = and_then (f x s) (go_fold f xs)"

fun go_map :: "('a \<Rightarrow> 'b go) \<Rightarrow> 'a list \<Rightarrow> 'b list go" where
  "go_map f [] = Inr []"
| "go_map f (x # xs) = and_then (f x) (\<lambda>y. and_then (go_map f xs) (\<lambda>ys. Inr (y # ys)))"

lemma go_fold_append: "go_fold f (xs @ ys) s = and_then (go_fold f xs s) (go_fold f ys)"
  by (induction xs arbitrary: s) (auto simp: and_then_def split: sum.splits)

lemma go_fold_invariant:
  assumes "go_fold f xs s = Inr t" and "P s"
    and "\<And>x u v. x \<in> set xs \<Longrightarrow> P u \<Longrightarrow> f x u = Inr v \<Longrightarrow> P v"
  shows "P t"
  using assms
proof (induction xs arbitrary: s)
  case (Cons x xs)
  then obtain u where u: "f x s = Inr u" "go_fold f xs u = Inr t"
    by (auto simp: and_then_Inr_iff)
  have "P u" using Cons.prems(3) [OF _ Cons.prems(2) u(1)] by simp
  show ?case
    by (rule Cons.IH [OF u(2) \<open>P u\<close>]) (auto intro: Cons.prems(3))
qed simp

lemma go_fold_total:
  assumes "P s" and "\<And>x u. x \<in> set xs \<Longrightarrow> P u \<Longrightarrow> \<exists>v. f x u = Inr v \<and> P v"
  shows "\<exists>t. go_fold f xs s = Inr t \<and> P t"
  using assms
proof (induction xs arbitrary: s)
  case (Cons x xs)
  then obtain v where "f x s = Inr v" and "P v" by (metis list.set_intros(1))
  with Cons.IH [of v] Cons.prems(2) show ?case by auto
qed auto

lemma go_map_Inr:
  "go_map f xs = Inr ys \<longleftrightarrow> list_all2 (\<lambda>x y. f x = Inr y) xs ys"
  by (induction xs arbitrary: ys) (auto simp: and_then_Inr_iff list_all2_Cons1)

lemma go_map_pure [simp]: "go_map (\<lambda>x. Inr (g x)) xs = Inr (map g xs)"
  by (induction xs) simp_all

lemma go_map_append: "go_map f (xs @ ys) = and_then (go_map f xs) (\<lambda>as. and_then (go_map f ys) (\<lambda>bs. Inr (as @ bs)))"
  by (induction xs) (auto simp: and_then_def split: sum.splits)

lemma go_map_cong [fundef_cong]:
  assumes "xs = ys" and "\<And>x. x \<in> set ys \<Longrightarrow> f x = g x"
  shows "go_map f xs = go_map g ys"
  using assms by (induction ys arbitrary: xs) simp_all

text \<open>Loops \<open>for i := range xs\<close> that index another slice with \<open>i\<close>.\<close>

lemma go_map_index_take: "n \<le> length ys \<Longrightarrow> go_map (go_index ys) [0..<n] = Inr (take n ys)"
  by (induction n) (simp_all add: go_map_append take_Suc_conv_app_nth)

lemma go_map_index_short: "length ys < n \<Longrightarrow> go_map (go_index ys) [0..<n] = Inl IndexOutOfRange"
proof (induction n)
  case (Suc n)
  then show ?case by (cases "length ys = n") (simp_all add: go_map_append go_map_index_take)
qed simp

lemma go_fold_index:
  assumes "k + length xs \<le> length ys"
  shows "go_fold (\<lambda>(i, x) s. and_then (go_index ys i) (\<lambda>y. Inr (f x y s))) (enumerate k xs) s
    = Inr (fold (\<lambda>(x, y). f x y) (zip xs (drop k ys)) s)"
  using assms
proof (induction xs arbitrary: k s)
  case (Cons x xs)
  have "drop k ys = ys ! k # drop (Suc k) ys" using Cons.prems by (simp add: Cons_nth_drop_Suc)
  then show ?case using Cons by simp
qed simp

text \<open>\<open>go_thread f xs s\<close> passes a state through the elements and collects the results.\<close>

fun go_thread :: "('a \<Rightarrow> 's \<Rightarrow> ('b \<times> 's) go) \<Rightarrow> 'a list \<Rightarrow> 's \<Rightarrow> ('b list \<times> 's) go" where
  "go_thread f [] s = Inr ([], s)"
| "go_thread f (x # xs) s = and_then (f x s) (\<lambda>(y, t).
     and_then (go_thread f xs t) (\<lambda>(ys, u). Inr (y # ys, u)))"

lemma go_thread_cong [fundef_cong]:
  assumes "xs = ys" and "s = t" and "\<And>x u. x \<in> set ys \<Longrightarrow> f x u = g x u"
  shows "go_thread f xs s = go_thread g ys t"
proof -
  have "go_thread f ys u = go_thread g ys u" for u
    using assms(3)
  proof (induction ys arbitrary: u)
    case (Cons y ys)
    have "go_thread f ys = go_thread g ys" by (rule ext, rule Cons.IH) (use Cons.prems in auto)
    then show ?case using Cons.prems by simp
  qed simp
  then show ?thesis using assms(1,2) by simp
qed

lemma go_thread_total:
  assumes "\<And>x u. x \<in> set xs \<Longrightarrow> P u \<Longrightarrow> \<exists>y v. f x u = Inr (y, v) \<and> Q x y \<and> P v" and "P s"
  shows "\<exists>ys t. go_thread f xs s = Inr (ys, t) \<and> list_all2 Q xs ys \<and> P t"
  using assms
proof (induction xs arbitrary: s)
  case (Cons x xs)
  then obtain y v where f: "f x s = Inr (y, v)" "Q x y" "P v"
    by (metis list.set_intros(1))
  moreover obtain ys t where "go_thread f xs v = Inr (ys, t)" "list_all2 Q xs ys" "P t"
    using Cons.IH [OF _ f(3)] Cons.prems(1) by (metis list.set_intros(2))
  ultimately show ?case by auto
qed auto

subsection \<open>Go maps\<close>

text \<open>Go iterates over a map in an unspecified order: \<open>go_range ord m\<close> are the entries in the order
  \<open>ord\<close>, which is an argument of every model that iterates over a map.\<close>

definition go_range :: "'k list \<Rightarrow> ('k \<rightharpoonup> 'v) \<Rightarrow> ('k \<times> 'v) list" where
  "go_range ord m = List.map_filter (\<lambda>k. map_option (Pair k) (m k)) ord"

definition enumerates :: "'k list \<Rightarrow> ('k \<rightharpoonup> 'v) \<Rightarrow> bool" where
  "enumerates ord m \<longleftrightarrow> distinct ord \<and> set ord = dom m"

lemma go_range_simps [simp]:
  "go_range [] m = []"
  "go_range (k # ks) m = (case m k of None \<Rightarrow> go_range ks m | Some v \<Rightarrow> (k, v) # go_range ks m)"
  by (simp_all add: go_range_def List.map_filter_simps split: option.splits)

lemma set_go_range: "set (go_range ord m) = {(k, v). k \<in> set ord \<and> m k = Some v}"
  by (induction ord) (auto split: option.splits)

lemma set_go_range_enumerates: "enumerates ord m \<Longrightarrow> set (go_range ord m) = {(k, v). m k = Some v}"
  by (auto simp: enumerates_def set_go_range)

lemma map_fst_go_range: "enumerates ord m \<Longrightarrow> map fst (go_range ord m) = ord"
proof -
  have "set ks \<subseteq> dom m \<Longrightarrow> map fst (go_range ks m) = ks" for ks
    by (induction ks) (auto split: option.splits)
  then show "enumerates ord m \<Longrightarrow> ?thesis" by (simp add: enumerates_def)
qed

lemma distinct_go_range: "enumerates ord m \<Longrightarrow> distinct (go_range ord m)"
  by (metis distinct_map enumerates_def map_fst_go_range)

text \<open>\<open>copy(dst[:], src)\<close> into an array.\<close>

definition go_copy :: "'a list \<Rightarrow> 'a list \<Rightarrow> 'a list" where
  "go_copy dst src = take (length dst) src @ drop (length src) dst"

lemma length_go_copy [simp]: "length (go_copy dst src) = length dst"
  by (simp add: go_copy_def)

lemma go_copy_full [simp]: "length src = length dst \<Longrightarrow> go_copy dst src = src"
  by (simp add: go_copy_def)

end
