(* ===== verification/Encoder.thy ===== *)
theory Encoder
  imports Prelude
begin

text \<open>
  \<open>NaiveNetEncoder\<close> of \<open>src/src/common/encoder.go\<close>: the reflective encoder and decoder
  \<open>encodeTypes\<close> and \<open>decodeTypes\<close>. A \<open>reflect.Type\<close> is a \<open>gotype\<close>, a \<open>reflect.Value\<close> a
  \<open>goval\<close>; the accessors (\<open>Int\<close>, \<open>Elem\<close>, \<open>SetUint\<close>, ...) panic on a value of another kind, as
  \<open>reflect\<close> does. \<open>binary.Write\<close> and \<open>binary.Read\<close> are the big-endian codecs of the standard
  library; a short read consumes what is left and leaves the variable at zero.
  Shown here: round trip for every pointer-free type, totality of the decoder on arbitrary
  bytes, what a truncated packet decodes to, and the kinds that do not round-trip.
\<close>

subsection \<open>Types and values\<close>

text \<open>\<open>TOther\<close> stands for the kinds without a case in the switch (map, interface, func, ...).
  \<open>TStruct\<close> lists the (exported) fields in order. A float is its bit pattern.\<close>

datatype gotype =
    TBool | TInt | TInt8 | TInt16 | TInt32 | TInt64
  | TUint | TUint8 | TUint16 | TUint32 | TUint64 | TUintptr
  | TFloat32 | TFloat64
  | TArray nat gotype
  | TString
  | TSlice gotype
  | TStruct "gotype list"
  | TPtr gotype
  | TChan
  | TOther

text \<open>\<open>VInvalid\<close> is the zero \<open>reflect.Value\<close>, the result of \<open>Elem\<close> on a nil pointer.\<close>

datatype goval =
    VBool bool
  | VInt i64
  | VUint u64
  | VFloat32 u32
  | VFloat64 u64
  | VString "u8 list"
  | VArray "goval list"
  | VSlice "goval list"
  | VStruct "goval list"
  | VPtr "goval option"
  | VOther
  | VInvalid

fun reflect_Bool :: "goval \<Rightarrow> bool go" where
  "reflect_Bool (VBool b) = Inr b"
| "reflect_Bool _ = Inl ReflectMisuse"

fun reflect_Int :: "goval \<Rightarrow> i64 go" where
  "reflect_Int (VInt i) = Inr i"
| "reflect_Int _ = Inl ReflectMisuse"

fun reflect_Uint :: "goval \<Rightarrow> u64 go" where
  "reflect_Uint (VUint i) = Inr i"
| "reflect_Uint _ = Inl ReflectMisuse"

fun reflect_Float32 :: "goval \<Rightarrow> u32 go" where
  "reflect_Float32 (VFloat32 x) = Inr x"
| "reflect_Float32 _ = Inl ReflectMisuse"

fun reflect_Float64 :: "goval \<Rightarrow> u64 go" where
  "reflect_Float64 (VFloat64 x) = Inr x"
| "reflect_Float64 _ = Inl ReflectMisuse"

fun reflect_String :: "goval \<Rightarrow> u8 list go" where
  "reflect_String (VString s) = Inr s"
| "reflect_String _ = Inl ReflectMisuse"

fun reflect_Array :: "goval \<Rightarrow> goval list go" where
  "reflect_Array (VArray vs) = Inr vs"
| "reflect_Array _ = Inl ReflectMisuse"

fun reflect_Slice :: "goval \<Rightarrow> goval list go" where
  "reflect_Slice (VSlice vs) = Inr vs"
| "reflect_Slice _ = Inl ReflectMisuse"

text \<open>\<open>Field(i)\<close> for \<open>i < n\<close>: the loop does not touch the value when there is no field.\<close>

fun reflect_Fields :: "nat \<Rightarrow> goval \<Rightarrow> goval list go" where
  "reflect_Fields n (VStruct vs) = (if length vs = n then Inr vs else Inl ReflectMisuse)"
| "reflect_Fields n v = (if n = 0 then Inr [] else Inl ReflectMisuse)"

fun reflect_Elem :: "goval \<Rightarrow> goval go" where
  "reflect_Elem (VPtr (Some v)) = Inr v"
| "reflect_Elem (VPtr None) = Inr VInvalid"
| "reflect_Elem _ = Inl ReflectMisuse"

subsection \<open>Big-endian integers\<close>

text \<open>\<open>be_bytes n k\<close> are the low \<open>n\<close> bytes of \<open>k\<close>, most significant first.\<close>

fun be_bytes :: "nat \<Rightarrow> nat \<Rightarrow> u8 list" where
  "be_bytes 0 k = []"
| "be_bytes (Suc n) k = be_bytes n (k div 256) @ [word_of_nat (k mod 256)]"

definition be_nat :: "u8 list \<Rightarrow> nat" where
  "be_nat bs = foldl (\<lambda>a b. a * 256 + unat b) 0 bs"

text \<open>\<open>io.ReadFull\<close> of \<open>n\<close> bytes: on a short input everything left is consumed and nothing stored.\<close>

definition read_full :: "nat \<Rightarrow> u8 list \<Rightarrow> u8 list option \<times> u8 list" where
  "read_full n bs = (if n \<le> length bs then (Some (take n bs), drop n bs) else (None, []))"

definition read_uint :: "nat \<Rightarrow> u8 list \<Rightarrow> nat \<times> u8 list" where
  "read_uint n bs = (case read_full n bs of
     (Some xs, r) \<Rightarrow> (be_nat xs, r)
   | (None, r) \<Rightarrow> (0, r))"

text \<open>The byte loop of the string case.\<close>

fun read_bytes :: "nat \<Rightarrow> u8 list \<Rightarrow> u8 list \<times> u8 list" where
  "read_bytes 0 bs = ([], bs)"
| "read_bytes (Suc n) bs = (let (b, r) = read_uint 1 bs; (xs, r') = read_bytes n r
     in (word_of_nat b # xs, r'))"

subsection \<open>\<open>encodeTypes\<close>\<close>

lemma size_field [termination_simp]:
  "(t, v) \<in> set (zip ts vs) \<Longrightarrow> size (t :: gotype) < Suc (size_list size ts)"
  by (drule set_zip_leftD) (simp add: size_list_estimation less_Suc_eq_le size_list_estimation')

fun encodeTypes :: "gotype \<Rightarrow> goval \<Rightarrow> u8 list go" where
  "encodeTypes (TPtr t) v = and_then (reflect_Elem v) (encodeTypes t)"
| "encodeTypes TChan v = Inr []"
| "encodeTypes TBool v = and_then (reflect_Bool v) (\<lambda>b. Inr [if b then 1 else 0])"
| "encodeTypes TInt v = and_then (reflect_Int v) (\<lambda>i. Inr (be_bytes 8 (unat i)))"
| "encodeTypes TInt8 v = and_then (reflect_Int v) (\<lambda>i. Inr (be_bytes 1 (unat (ucast i :: u8))))"
| "encodeTypes TInt16 v = and_then (reflect_Int v) (\<lambda>i. Inr (be_bytes 2 (unat (ucast i :: u16))))"
| "encodeTypes TInt32 v = and_then (reflect_Int v) (\<lambda>i. Inr (be_bytes 4 (unat (ucast i :: u32))))"
| "encodeTypes TInt64 v = and_then (reflect_Int v) (\<lambda>i. Inr (be_bytes 8 (unat i)))"
| "encodeTypes TUint v = and_then (reflect_Uint v) (\<lambda>i. Inr (be_bytes 8 (unat i)))"
| "encodeTypes TUint8 v = and_then (reflect_Uint v) (\<lambda>i. Inr (be_bytes 1 (unat (ucast i :: u8))))"
| "encodeTypes TUint16 v = and_then (reflect_Uint v) (\<lambda>i. Inr (be_bytes 2 (unat (ucast i :: u16))))"
| "encodeTypes TUint32 v = and_then (reflect_Uint v) (\<lambda>i. Inr (be_bytes 4 (unat (ucast i :: u32))))"
| "encodeTypes TUint64 v = and_then (reflect_Uint v) (\<lambda>i. Inr (be_bytes 8 (unat i)))"
| "encodeTypes TUintptr v = and_then (reflect_Uint v) (\<lambda>i. Inr (be_bytes 8 (unat i)))"
| "encodeTypes TFloat32 v = and_then (reflect_Float32 v) (\<lambda>x. Inr (be_bytes 4 (unat x)))"
| "encodeTypes TFloat64 v = and_then (reflect_Float64 v) (\<lambda>x. Inr (be_bytes 8 (unat x)))"
| "encodeTypes (TArray n t) v = and_then (reflect_Array v) (\<lambda>vs.
     and_then (go_map (encodeTypes t) vs) (\<lambda>bss. Inr (concat bss)))"
| "encodeTypes TString v = and_then (reflect_String v) (\<lambda>s.
     Inr (be_bytes 4 (unat (word_of_nat (length s) :: u32)) @ s))"
| "encodeTypes (TSlice t) v = and_then (reflect_Slice v) (\<lambda>vs.
     and_then (go_map (encodeTypes t) vs) (\<lambda>bss.
       Inr (be_bytes 4 (unat (word_of_nat (length vs) :: u32)) @ concat bss)))"
| "encodeTypes (TStruct ts) v = and_then (reflect_Fields (length ts) v) (\<lambda>vs.
     and_then (go_map (\<lambda>(t, w). encodeTypes t w) (zip ts vs)) (\<lambda>bss. Inr (concat bss)))"
| "encodeTypes TOther v = Inr []"

subsection \<open>\<open>decodeTypes\<close>\<close>

fun zero_value :: "gotype \<Rightarrow> goval" where
  "zero_value TBool = VBool False"
| "zero_value TInt = VInt 0"
| "zero_value TInt8 = VInt 0"
| "zero_value TInt16 = VInt 0"
| "zero_value TInt32 = VInt 0"
| "zero_value TInt64 = VInt 0"
| "zero_value TUint = VUint 0"
| "zero_value TUint8 = VUint 0"
| "zero_value TUint16 = VUint 0"
| "zero_value TUint32 = VUint 0"
| "zero_value TUint64 = VUint 0"
| "zero_value TUintptr = VUint 0"
| "zero_value TFloat32 = VFloat32 0"
| "zero_value TFloat64 = VFloat64 0"
| "zero_value (TArray n t) = VArray (replicate n (zero_value t))"
| "zero_value TString = VString []"
| "zero_value (TSlice t) = VSlice []"
| "zero_value (TStruct ts) = VStruct (map zero_value ts)"
| "zero_value (TPtr t) = VPtr None"
| "zero_value TChan = VOther"
| "zero_value TOther = VOther"

text \<open>The setters: the current value decides whether the kind fits.\<close>

definition reflect_SetInt :: "goval \<Rightarrow> i64 \<Rightarrow> goval go" where
  "reflect_SetInt cur i = and_then (reflect_Int cur) (\<lambda>_. Inr (VInt i))"

definition reflect_SetUint :: "goval \<Rightarrow> u64 \<Rightarrow> goval go" where
  "reflect_SetUint cur i = and_then (reflect_Uint cur) (\<lambda>_. Inr (VUint i))"

text \<open>\<open>decodeTypes t cur bs\<close> reads from \<open>bs\<close> into a variable of type \<open>t\<close> holding \<open>cur\<close> and returns its
  new contents and the unread bytes. Slices are appended to what they hold.
  \<open>binary.Read\<close> into a \<open>*uint\<close> (the \<open>Uintptr\<close> case) fails before reading anything, because
  \<open>uint\<close> has no fixed size; the variable stays 0.\<close>

fun decodeTypes :: "gotype \<Rightarrow> goval \<Rightarrow> u8 list \<Rightarrow> (goval \<times> u8 list) go" where
  "decodeTypes (TPtr t) cur bs = and_then (reflect_Elem cur) (\<lambda>v.
     and_then (decodeTypes t v bs) (\<lambda>(v', r).
       Inr (if cur = VPtr None then cur else VPtr (Some v'), r)))"
| "decodeTypes TChan cur bs = Inr (cur, bs)"
| "decodeTypes TBool cur bs = (let (k, r) = read_uint 1 bs in
     and_then (reflect_Bool cur) (\<lambda>_. Inr (VBool (k \<noteq> 0), r)))"
| "decodeTypes TInt cur bs = (let (k, r) = read_uint 8 bs in
     and_then (reflect_SetInt cur (word_of_nat k)) (\<lambda>v. Inr (v, r)))"
| "decodeTypes TInt8 cur bs = (let (k, r) = read_uint 1 bs in
     and_then (reflect_SetInt cur (scast (word_of_nat k :: u8))) (\<lambda>v. Inr (v, r)))"
| "decodeTypes TInt16 cur bs = (let (k, r) = read_uint 2 bs in
     and_then (reflect_SetInt cur (scast (word_of_nat k :: u16))) (\<lambda>v. Inr (v, r)))"
| "decodeTypes TInt32 cur bs = (let (k, r) = read_uint 4 bs in
     and_then (reflect_SetInt cur (scast (word_of_nat k :: u32))) (\<lambda>v. Inr (v, r)))"
| "decodeTypes TInt64 cur bs = (let (k, r) = read_uint 8 bs in
     and_then (reflect_SetInt cur (word_of_nat k)) (\<lambda>v. Inr (v, r)))"
| "decodeTypes TUint cur bs = (let (k, r) = read_uint 8 bs in
     and_then (reflect_SetUint cur (word_of_nat k)) (\<lambda>v. Inr (v, r)))"
| "decodeTypes TUint8 cur bs = (let (k, r) = read_uint 1 bs in
     and_then (reflect_SetUint cur (word_of_nat k)) (\<lambda>v. Inr (v, r)))"
| "decodeTypes TUint16 cur bs = (let (k, r) = read_uint 2 bs in
     and_then (reflect_SetUint cur (word_of_nat k)) (\<lambda>v. Inr (v, r)))"
| "decodeTypes TUint32 cur bs = (let (k, r) = read_uint 4 bs in
     and_then (reflect_SetUint cur (word_of_nat k)) (\<lambda>v. Inr (v, r)))"
| "decodeTypes TUint64 cur bs = (let (k, r) = read_uint 8 bs in
     and_then (reflect_SetUint cur (word_of_nat k)) (\<lambda>v. Inr (v, r)))"
| "decodeTypes TUintptr cur bs = and_then (reflect_SetUint cur 0) (\<lambda>v. Inr (v, bs))"
| "decodeTypes TFloat32 cur bs = (let (k, r) = read_uint 4 bs in
     and_then (reflect_Float32 cur) (\<lambda>_. Inr (VFloat32 (word_of_nat k), r)))"
| "decodeTypes TFloat64 cur bs = (let (k, r) = read_uint 8 bs in
     and_then (reflect_Float64 cur) (\<lambda>_. Inr (VFloat64 (word_of_nat k), r)))"
| "decodeTypes (TArray n t) cur bs = and_then (reflect_Array cur) (\<lambda>vs.
     and_then (go_thread (decodeTypes t) vs bs) (\<lambda>(ws, r). Inr (VArray ws, r)))"
| "decodeTypes TString cur bs = (let (l, r) = read_uint 4 bs; (s, r') = read_bytes l r in
     and_then (reflect_String cur) (\<lambda>_. Inr (VString s, r')))"
| "decodeTypes (TSlice t) cur bs = (let (l, r) = read_uint 4 bs in
     if l = 0 then Inr (cur, r)
     else and_then (go_thread (decodeTypes t) (replicate l (zero_value t)) r) (\<lambda>(ws, r').
       and_then (reflect_Slice cur) (\<lambda>vs. Inr (VSlice (vs @ ws), r'))))"
| "decodeTypes (TStruct ts) cur bs = and_then (reflect_Fields (length ts) cur) (\<lambda>vs.
     and_then (go_thread (\<lambda>(t, v). decodeTypes t v) (zip ts vs) bs) (\<lambda>(ws, r).
       Inr (if ts = [] then cur else VStruct ws, r)))"
| "decodeTypes TOther cur bs = Inr (cur, bs)"

text \<open>The entry points. \<open>Encode\<close> is called with a value or a pointer to it; \<open>Decode\<close> with a pointer
  to a variable, here given by its type and current contents.\<close>

definition Encode :: "gotype \<Rightarrow> goval \<Rightarrow> u8 list go" where
  "Encode t v = encodeTypes t v"

definition Decode :: "gotype \<Rightarrow> u8 list \<Rightarrow> goval \<Rightarrow> goval go" where
  "Decode t data cur = and_then (decodeTypes (TPtr t) (VPtr (Some cur)) data) (\<lambda>(p, r).
     and_then (reflect_Elem p) (\<lambda>v. Inr v))"

subsection \<open>Values of a type, and the types that round-trip\<close>

fun has_type :: "gotype \<Rightarrow> goval \<Rightarrow> bool" where
  "has_type TBool v \<longleftrightarrow> (case v of VBool b \<Rightarrow> True | _ \<Rightarrow> False)"
| "has_type TInt v \<longleftrightarrow> (case v of VInt i \<Rightarrow> True | _ \<Rightarrow> False)"
| "has_type TInt8 v \<longleftrightarrow> (case v of VInt i \<Rightarrow> scast (ucast i :: u8) = i | _ \<Rightarrow> False)"
| "has_type TInt16 v \<longleftrightarrow> (case v of VInt i \<Rightarrow> scast (ucast i :: u16) = i | _ \<Rightarrow> False)"
| "has_type TInt32 v \<longleftrightarrow> (case v of VInt i \<Rightarrow> scast (ucast i :: u32) = i | _ \<Rightarrow> False)"
| "has_type TInt64 v \<longleftrightarrow> (case v of VInt i \<Rightarrow> True | _ \<Rightarrow> False)"
| "has_type TUint v \<longleftrightarrow> (case v of VUint i \<Rightarrow> True | _ \<Rightarrow> False)"
| "has_type TUint8 v \<longleftrightarrow> (case v of VUint i \<Rightarrow> ucast (ucast i :: u8) = i | _ \<Rightarrow> False)"
| "has_type TUint16 v \<longleftrightarrow> (case v of VUint i \<Rightarrow> ucast (ucast i :: u16) = i | _ \<Rightarrow> False)"
| "has_type TUint32 v \<longleftrightarrow> (case v of VUint i \<Rightarrow> ucast (ucast i :: u32) = i | _ \<Rightarrow> False)"
| "has_type TUint64 v \<longleftrightarrow> (case v of VUint i \<Rightarrow> True | _ \<Rightarrow> False)"
| "has_type TUintptr v \<longleftrightarrow> (case v of VUint i \<Rightarrow> True | _ \<Rightarrow> False)"
| "has_type TFloat32 v \<longleftrightarrow> (case v of VFloat32 x \<Rightarrow> True | _ \<Rightarrow> False)"
| "has_type TFloat64 v \<longleftrightarrow> (case v of VFloat64 x \<Rightarrow> True | _ \<Rightarrow> False)"
| "has_type (TArray n t) v
     \<longleftrightarrow> (case v of VArray vs \<Rightarrow> length vs = n \<and> list_all (has_type t) vs | _ \<Rightarrow> False)"
| "has_type TString v \<longleftrightarrow> (case v of VString s \<Rightarrow> length s < 2 ^ 32 | _ \<Rightarrow> False)"
| "has_type (TSlice t) v
     \<longleftrightarrow> (case v of VSlice vs \<Rightarrow> length vs < 2 ^ 32 \<and> list_all (has_type t) vs | _ \<Rightarrow> False)"
| "has_type (TStruct ts) v
     \<longleftrightarrow> (case v of VStruct vs \<Rightarrow> length vs = length ts
            \<and> list_all (\<lambda>(t, w). has_type t w) (zip ts vs) | _ \<Rightarrow> False)"
| "has_type (TPtr t) v
     \<longleftrightarrow> (case v of VPtr None \<Rightarrow> True | VPtr (Some w) \<Rightarrow> has_type t w | _ \<Rightarrow> False)"
| "has_type TChan v \<longleftrightarrow> v = VOther"
| "has_type TOther v \<longleftrightarrow> v = VOther"

text \<open>No pointer and no \<open>uintptr\<close> inside.\<close>

fun plain_type :: "gotype \<Rightarrow> bool" where
  "plain_type (TArray n t) = plain_type t"
| "plain_type (TSlice t) = plain_type t"
| "plain_type (TStruct ts) = list_all plain_type ts"
| "plain_type (TPtr t) = False"
| "plain_type TUintptr = False"
| "plain_type t = True"

subsection \<open>Lemmas on the integer codecs\<close>

lemma be_nat_Nil [simp]: "be_nat [] = 0"
  by (simp add: be_nat_def)

lemma be_nat_snoc [simp]: "be_nat (bs @ [b]) = be_nat bs * 256 + unat b"
  by (simp add: be_nat_def)

lemma length_be_bytes [simp]: "length (be_bytes n k) = n"
  by (induction n arbitrary: k) simp_all

lemma be_bytes_0 [simp]: "be_bytes n 0 = replicate n 0"
  by (induction n) (simp_all add: replicate_append_same)

lemma be_nat_be_bytes [simp]: "be_nat (be_bytes n k) = k mod 256 ^ n"
proof (induction n arbitrary: k)
  case (Suc n)
  have "unat (word_of_nat (k mod 256) :: u8) = k mod 256"
    by (intro unat_word_of_nat) simp
  then show ?case using Suc by (simp add: mod_mult2_eq mult.commute)
qed simp

lemma read_uint_be [simp]: "read_uint n (be_bytes n k @ r) = (k mod 256 ^ n, r)"
  by (simp add: read_uint_def read_full_def)

lemma read_uint_1 [simp]: "read_uint (Suc 0) (b # r) = (unat b, r)"
  by (simp add: read_uint_def read_full_def be_nat_def)

lemma read_uint_short: "length bs < n \<Longrightarrow> read_uint n bs = (0, [])"
  by (simp add: read_uint_def read_full_def)

lemma be_nat_less: "be_nat bs < 256 ^ length bs"
proof (induction bs rule: rev_induct)
  case (snoc b bs)
  have "unat b < 256" by (rule order_less_le_trans [OF unsigned_less]) simp
  moreover have "(be_nat bs + 1) * 256 \<le> 256 ^ length bs * 256"
    using snoc by (intro mult_le_mono1) simp
  ultimately show ?case by simp
qed simp

lemma read_uint_less: "fst (read_uint n bs) < 256 ^ n"
  using be_nat_less [of "take n bs"]
  by (cases "n \<le> length bs") (simp_all add: read_uint_def read_full_def min_absorb2)

lemma read_bytes_append [simp]: "read_bytes (length s) (s @ r) = (s, r)"
proof (induction s)
  case (Cons b s)
  have "read_uint 1 ((b # s) @ r) = (unat b, s @ r)"
    by (simp add: read_uint_def read_full_def be_nat_def)
  then show ?case using Cons by simp
qed simp

lemma length_read_bytes: "length (fst (read_bytes n bs)) = n"
  by (induction n arbitrary: bs) (auto simp: Let_def split: prod.splits, metis fst_conv)

lemma go_map_map: "go_map f (map g xs) = go_map (\<lambda>x. f (g x)) xs"
  by (induction xs) simp_all

lemma thread_roundtrip:
  assumes "length xs = length vs"
    and "\<And>x v. (x, v) \<in> set (zip xs vs) \<Longrightarrow> \<exists>b. e (x, v) = Inr b \<and> (\<forall>r. d x (b @ r) = Inr (v, r))"
  shows "\<exists>bss. go_map e (zip xs vs) = Inr bss \<and> (\<forall>r. go_thread d xs (concat bss @ r) = Inr (vs, r))"
  using assms
proof (induction xs vs rule: list_induct2)
  case (Cons x xs v vs)
  then obtain b where "e (x, v) = Inr b" "\<forall>r. d x (b @ r) = Inr (v, r)"
    by (metis list.set_intros(1) zip_Cons_Cons)
  moreover obtain bss where "go_map e (zip xs vs) = Inr bss"
    "\<forall>r. go_thread d xs (concat bss @ r) = Inr (vs, r)"
    using Cons by auto
  ultimately show ?case by simp
qed simp

subsection \<open>Round trip\<close>

definition roundtrips :: "gotype \<Rightarrow> goval \<Rightarrow> bool" where
  "roundtrips t v \<longleftrightarrow> (\<exists>bs. encodeTypes t v = Inr bs
     \<and> (\<forall>r. decodeTypes t (zero_value t) (bs @ r) = Inr (v, r)))"

lemma roundtripsI:
  "encodeTypes t v = Inr bs \<Longrightarrow> (\<And>r. decodeTypes t (zero_value t) (bs @ r) = Inr (v, r))
    \<Longrightarrow> roundtrips t v"
  by (auto simp: roundtrips_def)

lemma roundtrips_array:
  assumes "list_all (roundtrips t) vs"
  shows "\<exists>bss. go_map (encodeTypes t) vs = Inr bss
    \<and> (\<forall>r. go_thread (decodeTypes t) (replicate (length vs) (zero_value t)) (concat bss @ r) = Inr (vs, r))"
proof -
  let ?zs = "replicate (length vs) (zero_value t)"
  have "vs = map snd (zip ?zs vs)" by simp
  then have e: "go_map (\<lambda>(z, v). encodeTypes t v) (zip ?zs vs) = go_map (encodeTypes t) vs"
    by (metis (no_types, lifting) go_map_map go_map_cong case_prod_unfold)
  have "\<exists>b. (case (z, v) of (z, v) \<Rightarrow> encodeTypes t v) = Inr b
      \<and> (\<forall>r. decodeTypes t z (b @ r) = Inr (v, r))" if "(z, v) \<in> set (zip ?zs vs)" for z v
  proof -
    have "z = zero_value t" "v \<in> set vs"
      using that by (auto dest: set_zip_leftD set_zip_rightD)
    then show ?thesis using assms by (auto simp: list_all_iff roundtrips_def)
  qed
  from thread_roundtrip [of ?zs vs "\<lambda>(z, v). encodeTypes t v", OF _ this] show ?thesis
    using e by simp
qed

lemma roundtrips_struct:
  assumes "length ts = length vs" and "list_all (\<lambda>(t, v). roundtrips t v) (zip ts vs)"
  shows "\<exists>bss. go_map (\<lambda>(t, v). encodeTypes t v) (zip ts vs) = Inr bss
    \<and> (\<forall>r. go_thread (\<lambda>(t, z). decodeTypes t z) (zip ts (map zero_value ts)) (concat bss @ r)
          = Inr (vs, r))"
  using assms
proof (induction ts vs rule: list_induct2)
  case (Cons t ts v vs)
  then obtain bs where b: "encodeTypes t v = Inr bs"
    "\<And>r. decodeTypes t (zero_value t) (bs @ r) = Inr (v, r)"
    by (auto simp: roundtrips_def)
  from Cons obtain bss where "go_map (\<lambda>(t, v). encodeTypes t v) (zip ts vs) = Inr bss"
    "\<forall>r. go_thread (\<lambda>(t, z). decodeTypes t z) (zip ts (map zero_value ts)) (concat bss @ r)
      = Inr (vs, r)"
    by auto
  with b show ?case by simp
qed simp

lemma word_of_unat_ucast:
  fixes i :: u64
  shows "ucast (ucast i :: u8) = i \<Longrightarrow> word_of_nat (unat (ucast i :: u8)) = i"
    and "ucast (ucast i :: u16) = i \<Longrightarrow> word_of_nat (unat (ucast i :: u16)) = i"
    and "ucast (ucast i :: u32) = i \<Longrightarrow> word_of_nat (unat (ucast i :: u32)) = i"
  by simp_all

lemma encode_roundtrips: "plain_type t \<Longrightarrow> has_type t v \<Longrightarrow> roundtrips t v"
proof (induction t arbitrary: v)
  case (TArray n t)
  then obtain vs where v: "v = VArray vs" "length vs = n" "list_all (has_type t) vs"
    by (auto split: goval.splits)
  then have "list_all (roundtrips t) vs" using TArray by (auto simp: list_all_iff)
  from roundtrips_array [OF this] show ?case using v by (auto simp: roundtrips_def)
next
  case TString
  then obtain s where v: "v = VString s" "length s < 2 ^ 32" by (auto split: goval.splits)
  then have "unat (word_of_nat (length s) :: u32) = length s" by (simp add: unat_word_of_nat)
  then show ?case using v by (intro roundtripsI [where bs = "be_bytes 4 (length s) @ s"]) simp_all
next
  case (TSlice t)
  then obtain vs where v: "v = VSlice vs" "length vs < 2 ^ 32" "list_all (has_type t) vs"
    by (auto split: goval.splits)
  then have l: "unat (word_of_nat (length vs) :: u32) = length vs" by (simp add: unat_word_of_nat)
  have "list_all (roundtrips t) vs" using TSlice v by (auto simp: list_all_iff)
  from roundtrips_array [OF this] show ?case
    using v l by (auto simp: roundtrips_def Let_def)
next
  case (TStruct ts)
  then obtain vs where v: "v = VStruct vs" "length ts = length vs"
      "list_all (\<lambda>(t, v). has_type t v) (zip ts vs)"
    by (auto split: goval.splits)
  have "roundtrips t w" if "(t, w) \<in> set (zip ts vs)" for t w
    using that v(3) TStruct.prems(1) set_zip_leftD [OF that]
    by (intro TStruct.IH) (auto simp: list_all_iff)
  then have "list_all (\<lambda>(t, v). roundtrips t v) (zip ts vs)" by (auto simp: list_all_iff)
  from roundtrips_struct [OF v(2) this] show ?case using v by (auto simp: roundtrips_def)
qed (auto simp: roundtrips_def reflect_SetInt_def reflect_SetUint_def word_of_unat_ucast
      split: goval.splits)

lemma Decode_Encode:
  assumes "plain_type t" and "has_type t v"
  shows "\<exists>bs. Encode t v = Inr bs \<and> Encode (TPtr t) (VPtr (Some v)) = Inr bs
    \<and> (\<forall>r. Decode t (bs @ r) (zero_value t) = Inr v)"
  using encode_roundtrips [OF assms] by (auto simp: roundtrips_def Encode_def Decode_def)

subsection \<open>The decoder on arbitrary input\<close>

lemma zero_value_has_type: "plain_type t \<Longrightarrow> has_type t (zero_value t)"
proof (induction t)
  case (TStruct ts)
  then show ?case by (auto simp: list_all_iff in_set_zip)
qed (simp_all add: list_all_iff)

lemma narrow_unsigned [simp]:
  "k < 256 \<Longrightarrow> ucast (ucast (word_of_nat k :: u64) :: u8) = (word_of_nat k :: u64)"
  "k < 65536 \<Longrightarrow> ucast (ucast (word_of_nat k :: u64) :: u16) = (word_of_nat k :: u64)"
  "k < 4294967296 \<Longrightarrow> ucast (ucast (word_of_nat k :: u64) :: u32) = (word_of_nat k :: u64)"
  by (simp_all add: word_unat_eq_iff unat_word_of_nat unsigned_ucast_eq take_bit_eq_mod unat_mod)

lemma narrow_signed [simp]:
  "scast (ucast (scast (w8 :: u8) :: i64) :: u8) = (scast w8 :: i64)"
  "scast (ucast (scast (w16 :: u16) :: i64) :: u16) = (scast w16 :: i64)"
  "scast (ucast (scast (w32 :: u32) :: i64) :: u32) = (scast w32 :: i64)"
proof -
  have "(ucast (scast w8 :: i64) :: u8) = w8" "(ucast (scast w16 :: i64) :: u16) = w16"
    "(ucast (scast w32 :: i64) :: u32) = w32"
    by (rule bit_word_eqI, simp add: bit_simps)+
  then show "scast (ucast (scast w8 :: i64) :: u8) = (scast w8 :: i64)"
    "scast (ucast (scast w16 :: i64) :: u16) = (scast w16 :: i64)"
    "scast (ucast (scast w32 :: i64) :: u32) = (scast w32 :: i64)"
    by simp_all
qed

lemma decode_is_total:
  "plain_type t \<Longrightarrow> \<exists>v r. decodeTypes t (zero_value t) bs = Inr (v, r) \<and> has_type t v"
proof (induction t arbitrary: bs)
  case (TArray n t)
  have "\<exists>ys u. go_thread (decodeTypes t) (replicate n (zero_value t)) bs = Inr (ys, u)
      \<and> list_all2 (\<lambda>x y. has_type t y) (replicate n (zero_value t)) ys \<and> True"
    by (rule go_thread_total) (use TArray in auto)
  then show ?case by (auto simp: list_all2_conv_all_nth list_all_length)
next
  case (TSlice t)
  obtain l r where l: "read_uint 4 bs = (l, r)" by fastforce
  then have "l < 2 ^ 32" using read_uint_less [of 4 bs] by simp
  moreover have "\<exists>ys u. go_thread (decodeTypes t) (replicate l (zero_value t)) r = Inr (ys, u)
      \<and> list_all2 (\<lambda>x y. has_type t y) (replicate l (zero_value t)) ys \<and> True"
    by (rule go_thread_total) (use TSlice in auto)
  ultimately show ?case using l by (auto simp: list_all2_conv_all_nth list_all_length)
next
  case TString
  obtain l r where l: "read_uint 4 bs = (l, r)" by fastforce
  then have "l < 2 ^ 32" using read_uint_less [of 4 bs] by simp
  then show ?case using l length_read_bytes [of l r] by (auto split: prod.splits)
next
  case (TStruct ts)
  let ?ps = "zip ts (map zero_value ts)"
  have "\<exists>ys u. go_thread (\<lambda>(t, z). decodeTypes t z) ?ps bs = Inr (ys, u)
      \<and> list_all2 (\<lambda>(t, z) y. has_type t y) ?ps ys \<and> True"
  proof (rule go_thread_total)
    fix p u assume "p \<in> set ?ps"
    then obtain t where p: "p = (t, zero_value t)" "t \<in> set ts"
      by (metis in_set_zip nth_map nth_mem prod.collapse)
    then show "\<exists>y v. (case p of (t, z) \<Rightarrow> decodeTypes t z) u = Inr (y, v)
        \<and> (case p of (t, z) \<Rightarrow> \<lambda>y. has_type t y) y \<and> True"
      using TStruct p by (auto simp: list_all_iff)
  qed simp
  then show ?case
    by (cases "ts = []") (auto simp: list_all2_conv_all_nth list_all_length)
next
  case TInt8 then show ?case
    by (auto simp: reflect_SetInt_def split: prod.splits)
next
  case TInt16 then show ?case
    by (auto simp: reflect_SetInt_def split: prod.splits)
next
  case TInt32 then show ?case
    by (auto simp: reflect_SetInt_def split: prod.splits)
next
  case TUint8 then show ?case
    using read_uint_less [of 1 bs] by (auto simp: reflect_SetUint_def split: prod.splits)
next
  case TUint16 then show ?case
    using read_uint_less [of 2 bs] by (auto simp: reflect_SetUint_def split: prod.splits)
next
  case TUint32 then show ?case
    using read_uint_less [of 4 bs] by (auto simp: reflect_SetUint_def split: prod.splits)
qed (auto simp: reflect_SetInt_def reflect_SetUint_def split: prod.splits)

subsection \<open>Input that ends early or holds zeros\<close>

lemma be_nat_zeros [simp]: "be_nat (replicate k 0) = 0"
  by (induction k rule: nat_induct) (simp_all flip: replicate_append_same)

lemma read_uint_zeros [simp]: "read_uint n (replicate k 0) = (0, replicate (k - n) 0)"
  by (simp add: read_uint_def read_full_def)

lemma decode_zeros:
  "plain_type t \<Longrightarrow> \<exists>j. decodeTypes t (zero_value t) (replicate k 0) = Inr (zero_value t, replicate j 0)"
proof (induction t arbitrary: k)
  case (TArray n t)
  have "\<exists>ys u. go_thread (decodeTypes t) (replicate n (zero_value t)) (replicate k 0) = Inr (ys, u)
      \<and> list_all2 (\<lambda>x y. y = zero_value t) (replicate n (zero_value t)) ys \<and> (\<exists>j. u = replicate j 0)"
    by (rule go_thread_total) (use TArray in auto)
  then obtain ys j where ys:
    "go_thread (decodeTypes t) (replicate n (zero_value t)) (replicate k 0) = Inr (ys, replicate j 0)"
    "length ys = n" "\<forall>i<n. ys ! i = zero_value t"
    by (auto simp: list_all2_conv_all_nth)
  then have "ys = replicate n (zero_value t)" by (simp add: list_eq_iff_nth_eq)
  then show ?case using ys by auto
next
  case (TStruct ts)
  let ?ps = "zip ts (map zero_value ts)"
  have "\<exists>ys u. go_thread (\<lambda>(t, z). decodeTypes t z) ?ps (replicate k 0) = Inr (ys, u)
      \<and> list_all2 (\<lambda>(t, z) y. y = z) ?ps ys \<and> (\<exists>j. u = replicate j 0)"
  proof (rule go_thread_total)
    fix p u assume "p \<in> set ?ps" and u: "\<exists>j. u = replicate j (0::u8)"
    then obtain t where p: "p = (t, zero_value t)" "t \<in> set ts"
      by (metis in_set_zip nth_map nth_mem prod.collapse)
    then show "\<exists>y v. (case p of (t, z) \<Rightarrow> decodeTypes t z) u = Inr (y, v)
        \<and> (case p of (t, z) \<Rightarrow> \<lambda>y. y = z) y \<and> (\<exists>j. v = replicate j 0)"
      using TStruct u by (fastforce simp: list_all_iff)
  qed auto
  then obtain ys j where ys:
    "go_thread (\<lambda>(t, z). decodeTypes t z) ?ps (replicate k 0) = Inr (ys, replicate j 0)"
    "length ys = length ts" "\<forall>i<length ts. ys ! i = zero_value (ts ! i)"
    by (auto simp: list_all2_conv_all_nth)
  then have "ys = map zero_value ts" by (simp add: list_eq_iff_nth_eq)
  then show ?case using ys by auto
qed (auto simp: reflect_SetInt_def reflect_SetUint_def)

lemma go_thread_append:
  "go_thread f (xs @ ys) s = and_then (go_thread f xs s) (\<lambda>(as, t).
     and_then (go_thread f ys t) (\<lambda>(bs, u). Inr (as @ bs, u)))"
  by (induction xs arbitrary: s) (auto simp: and_then_def split: sum.splits prod.splits)

text \<open>A struct whose last fields are zero decodes to the same value when they are cut off.\<close>

lemma decode_struct_zero_suffix:
  assumes "list_all plain_type (ts @ us)" and "has_type (TStruct ts) (VStruct vs)"
    and "encodeTypes (TStruct ts) (VStruct vs) = Inr bs" and "ts \<noteq> []"
  shows "\<exists>j. decodeTypes (TStruct (ts @ us)) (zero_value (TStruct (ts @ us))) (bs @ replicate k 0)
    = Inr (VStruct (vs @ map zero_value us), replicate j 0)"
proof -
  let ?f = "\<lambda>(t, z). decodeTypes t z"
  have "roundtrips (TStruct ts) (VStruct vs)" using assms(1,2) by (intro encode_roundtrips) simp_all
  then have first: "go_thread ?f (zip ts (map zero_value ts)) (bs @ replicate k 0)
      = Inr (vs, replicate k 0)"
    using assms(3,4) by (auto simp: roundtrips_def and_then_Inr_iff)
  obtain j where "decodeTypes (TStruct us) (zero_value (TStruct us)) (replicate k 0)
      = Inr (zero_value (TStruct us), replicate j 0)"
    using decode_zeros [of "TStruct us" k] assms(1) by auto
  then have "go_thread ?f (zip us (map zero_value us)) (replicate k 0)
      = Inr (map zero_value us, replicate j 0)"
    by (cases "us = []") (auto simp: and_then_Inr_iff)
  with first show ?thesis using assms(4) by (simp add: go_thread_append)
qed

subsection \<open>Encoded length\<close>

fun vlen :: "gotype \<Rightarrow> goval \<Rightarrow> nat" where
  "vlen (TArray n t) v = (case v of VArray vs \<Rightarrow> sum_list (map (vlen t) vs) | _ \<Rightarrow> 0)"
| "vlen TString v = (case v of VString s \<Rightarrow> 4 + length s | _ \<Rightarrow> 0)"
| "vlen (TSlice t) v = (case v of VSlice vs \<Rightarrow> 4 + sum_list (map (vlen t) vs) | _ \<Rightarrow> 0)"
| "vlen (TStruct ts) v
     = (case v of VStruct vs \<Rightarrow> sum_list (map (\<lambda>(t, w). vlen t w) (zip ts vs)) | _ \<Rightarrow> 0)"
| "vlen (TPtr t) v = (case v of VPtr (Some w) \<Rightarrow> vlen t w | _ \<Rightarrow> 0)"
| "vlen TChan v = 0"
| "vlen TOther v = 0"
| "vlen TBool v = 1"
| "vlen TInt8 v = 1"
| "vlen TUint8 v = 1"
| "vlen TInt16 v = 2"
| "vlen TUint16 v = 2"
| "vlen TInt32 v = 4"
| "vlen TUint32 v = 4"
| "vlen TFloat32 v = 4"
| "vlen TInt v = 8"
| "vlen TInt64 v = 8"
| "vlen TUint v = 8"
| "vlen TUint64 v = 8"
| "vlen TUintptr v = 8"
| "vlen TFloat64 v = 8"

lemma go_map_lengths:
  "go_map f xs = Inr bss \<Longrightarrow> (\<And>x b. x \<in> set xs \<Longrightarrow> f x = Inr b \<Longrightarrow> length b = g x)
    \<Longrightarrow> length (concat bss) = sum_list (map g xs)"
  by (induction xs arbitrary: bss) (auto simp: and_then_Inr_iff)

lemma encode_length: "plain_type t \<Longrightarrow> has_type t v \<Longrightarrow> encodeTypes t v = Inr bs \<Longrightarrow> length bs = vlen t v"
proof (induction t arbitrary: v bs)
  case (TArray n t)
  then show ?case
    by (auto split: goval.splits simp: and_then_Inr_iff list_all_iff intro!: go_map_lengths)
next
  case (TSlice t)
  then show ?case
    by (auto split: goval.splits simp: and_then_Inr_iff list_all_iff intro!: go_map_lengths)
next
  case (TStruct ts)
  then obtain vs bss where v: "v = VStruct vs" "bs = concat bss"
      "go_map (\<lambda>(t, w). encodeTypes t w) (zip ts vs) = Inr bss"
      "\<forall>p \<in> set (zip ts vs). case p of (t, w) \<Rightarrow> has_type t w"
    by (auto split: goval.splits simp: and_then_Inr_iff list_all_iff)
  have "length b = vlen t w" if "(t, w) \<in> set (zip ts vs)" "encodeTypes t w = Inr b" for t w b
    using that v(4) TStruct.prems(1) set_zip_leftD [OF that(1)]
    by (intro TStruct.IH) (auto simp: list_all_iff)
  then show ?case using v by (auto intro!: go_map_lengths)
qed (auto split: goval.splits)

subsection \<open>Properties\<close>







text \<open>A \<open>uintptr\<close> does not round-trip: it is written as 8 bytes, but the decoder reads nothing into
  its \<open>uint\<close> variable, so it yields 0 and leaves the 8 bytes to the next field.\<close>
theorem uintptr_not_decoded:
  shows "Encode TUintptr (VUint x) = Inr (be_bytes 8 (unat x))
    \<and> decodeTypes TUintptr (VUint y) (be_bytes 8 (unat x) @ r) = Inr (VUint 0, be_bytes 8 (unat x) @ r)"
  by (simp add: Encode_def reflect_SetUint_def)

end
