(* ===== verification/Common_Defs.thy ===== *)
theory Common_Defs
  imports Encoder
begin

text \<open>
  The shared definitions of \<open>src/src/common\<close>: listener ids (\<open>common.go\<close>), 20-byte ids and hashes,
  \<open>BytesToBigInt\<close> with the \<open>math/big\<close> operations the sources apply to it, and the task descriptions
  of \<open>cproc.go\<close>. A channel that a call receives as an argument is a number.
\<close>

subsection \<open>Listener ids and identifiers\<close>

type_synonym listener_id = u16

definition SPROC_WAIT :: listener_id where "SPROC_WAIT = 0"
definition SPROC_SENDER :: listener_id where "SPROC_SENDER = 1"
definition SPROC_RECEIVER :: listener_id where "SPROC_RECEIVER = 2"
definition PPROC_WAIT :: listener_id where "PPROC_WAIT = 3"
definition PPROC_RECEIVER :: listener_id where "PPROC_RECEIVER = 4"
definition TPROC_WAIT :: listener_id where "TPROC_WAIT = 5"
definition TPROC_RECEIVER :: listener_id where "TPROC_RECEIVER = 6"
definition CPROC_WAIT :: listener_id where "CPROC_WAIT = 7"
definition CPROC_RES :: listener_id where "CPROC_RES = 8"
definition CPROC_META :: listener_id where "CPROC_META = 9"

lemmas listener_ids = SPROC_WAIT_def SPROC_SENDER_def SPROC_RECEIVER_def PPROC_WAIT_def
  PPROC_RECEIVER_def TPROC_WAIT_def TPROC_RECEIVER_def CPROC_WAIT_def CPROC_RES_def CPROC_META_def

text \<open>\<open>NodeID\<close>, \<open>TaskID\<close>, \<open>HashVal\<close> and \<open>ContractAddress\<close> are \<open>[20]byte\<close>; Go strings are byte strings.\<close>

type_synonym node_id = "u8 list"
type_synonym task_id = "u8 list"
type_synonym hash_val = "u8 list"
type_synonym contract_address = "u8 list"
type_synonym go_string = "u8 list"
type_synonym chan = nat

definition bytes20 :: "u8 list \<Rightarrow> bool" where
  "bytes20 b \<longleftrightarrow> length b = 20"

lemma bytes20_replicate [simp]: "bytes20 (replicate 20 x)"
  by (simp add: bytes20_def)

subsection \<open>Big integers\<close>

definition BytesToBigInt :: "u8 list \<Rightarrow> int" where
  "BytesToBigInt data = int (be_nat data)"

text \<open>\<open>big.Int.Bytes\<close>: the absolute value, big-endian, without leading zeros.\<close>

fun nat_bytes :: "nat \<Rightarrow> u8 list" where
  "nat_bytes k = (if k = 0 then [] else nat_bytes (k div 256) @ [word_of_nat (k mod 256)])"

declare nat_bytes.simps [simp del]

definition big_Bytes :: "int \<Rightarrow> u8 list" where
  "big_Bytes x = nat_bytes (nat \<bar>x\<bar>)"

lemma nat_bytes_be: "256 ^ n \<le> k \<Longrightarrow> k < 256 ^ Suc n \<Longrightarrow> nat_bytes k = be_bytes (Suc n) k"
proof (induction n arbitrary: k)
  case 0
  then show ?case by (simp add: nat_bytes.simps [of k] nat_bytes.simps [of 0])
next
  case (Suc n)
  have "256 ^ n \<le> k div 256" using Suc.prems(1) by (simp add: less_eq_div_iff_mult_less_eq mult.commute)
  moreover have "k div 256 < 256 ^ Suc n" using Suc.prems(2) by (simp add: less_mult_imp_div_less mult.commute)
  ultimately have "nat_bytes (k div 256) = be_bytes (Suc n) (k div 256)" by (rule Suc.IH)
  moreover have "k \<noteq> 0" using Suc.prems(1) by (cases "k = 0") simp_all
  ultimately show ?case by (simp add: nat_bytes.simps [of k])
qed

lemma length_nat_bytes: "length (nat_bytes k) \<le> n \<longleftrightarrow> k < 256 ^ n"
proof (induction n arbitrary: k)
  case 0
  then show ?case by (simp add: nat_bytes.simps [of k])
next
  case (Suc n)
  have "k div 256 < 256 ^ n \<longleftrightarrow> k < 256 ^ Suc n"
    by (simp add: div_less_iff_less_mult mult.commute)
  then show ?case using Suc [of "k div 256"] by (simp add: nat_bytes.simps [of k])
qed

lemma be_bytes_be_nat: "be_bytes (length bs) (be_nat bs) = bs"
proof (induction bs rule: rev_induct)
  case (snoc b bs)
  have "unat b div 256 = 0" using unat_8_less [of b] by simp
  then show ?case using snoc by simp
qed simp

lemma be_nat_inj: "length xs = length ys \<Longrightarrow> be_nat xs = be_nat ys \<Longrightarrow> xs = ys"
  by (metis be_bytes_be_nat)

subsection \<open>The task descriptions of \<open>cproc.go\<close>\<close>

record master_req_msg =
  mr_MasterID :: node_id
  mr_ContractAddr :: contract_address
  mr_Code :: "u8 list"

definition NewMasterReqMsg :: "node_id \<Rightarrow> contract_address \<Rightarrow> u8 list \<Rightarrow> master_req_msg" where
  "NewMasterReqMsg i addr code = \<lparr>mr_MasterID = i, mr_ContractAddr = addr, mr_Code = code\<rparr>"

record worker_res_msg =
  wr_WorkerID :: node_id
  wr_MasterID :: node_id
  wr_TaskID :: task_id

record task_file_meta_info =
  tf_KeyGroup :: "go_string list list"
  tf_Sizes :: "u32 list"
  tf_Hashes :: "hash_val list"
  tf_Trackers :: "node_id list"

definition NewTaskFileMetaInfo ::
    "go_string list list \<Rightarrow> u32 list \<Rightarrow> hash_val list \<Rightarrow> node_id list \<Rightarrow> task_file_meta_info" where
  "NewTaskFileMetaInfo keyGroup sizes hashes trackers =
     \<lparr>tf_KeyGroup = keyGroup, tf_Sizes = sizes, tf_Hashes = hashes, tf_Trackers = trackers\<rparr>"

record task_execute_info =
  te_InputKeys :: "go_string list list"
  te_OutputKeys :: "go_string list"

definition NewTaskExecuteInfo :: "go_string list list \<Rightarrow> go_string list \<Rightarrow> task_execute_info" where
  "NewTaskExecuteInfo inputKeys outputKeys = \<lparr>te_InputKeys = inputKeys, te_OutputKeys = outputKeys\<rparr>"

record task_meta_info =
  tm_MasterID :: node_id
  tm_TaskID :: task_id
  tm_ConfoundKey :: "u8 list"
  tm_Sign :: "u8 list"
  tm_FileInfo :: task_file_meta_info
  tm_ExecuteInfo :: task_execute_info

text \<open>The constructor dereferences both pointers.\<close>

definition NewTaskMetaInfo :: "node_id \<Rightarrow> task_id \<Rightarrow> u8 list \<Rightarrow> u8 list
    \<Rightarrow> task_file_meta_info option \<Rightarrow> task_execute_info option \<Rightarrow> task_meta_info go" where
  "NewTaskMetaInfo masterID taskID confoundKey sign fileInfo executeInfo =
     and_then (go_deref fileInfo) (\<lambda>f.
     and_then (go_deref executeInfo) (\<lambda>e.
       Inr \<lparr>tm_MasterID = masterID, tm_TaskID = taskID, tm_ConfoundKey = confoundKey, tm_Sign = sign,
            tm_FileInfo = f, tm_ExecuteInfo = e\<rparr>))"

end
