(* ===== verification/Messages.thy ===== *)
theory Messages
  imports Common_Defs
begin

text \<open>
  The structs that travel over the network, each with its layout as the reflective encoder sees
  it. A \<open>codec\<close> pairs a Go type with the conversion between records and reflected values; codecs
  are built field by field, and a lawful one gives the round trip of \<open>Encode\<close> and \<open>Decode\<close> on
  the record (\<open>message_codec\<close>). The size constants of \<open>net.go\<close>, \<open>p2p.go\<close> and \<open>multipack.go\<close>
  are compared with the encoded lengths.
\<close>

subsection \<open>Codecs\<close>

record 'a codec =
  c_type :: gotype
  c_to :: "'a \<Rightarrow> goval"
  c_of :: "goval \<Rightarrow> 'a"
  c_wf :: "'a \<Rightarrow> bool"

definition lawful :: "'a codec \<Rightarrow> bool" where
  "lawful c \<longleftrightarrow> plain_type (c_type c)
     \<and> (\<forall>x. c_wf c x \<longrightarrow> has_type (c_type c) (c_to c x) \<and> c_of c (c_to c x) = x)
     \<and> (\<forall>v. has_type (c_type c) v \<longrightarrow> c_wf c (c_of c v))"

lemma lawfulD:
  assumes "lawful c"
  shows "plain_type (c_type c)"
    and "c_wf c x \<Longrightarrow> has_type (c_type c) (c_to c x)"
    and "c_wf c x \<Longrightarrow> c_of c (c_to c x) = x"
    and "has_type (c_type c) v \<Longrightarrow> c_wf c (c_of c v)"
  using assms by (simp_all add: lawful_def)

named_theorems lawful_intros

definition encode_with :: "'a codec \<Rightarrow> 'a \<Rightarrow> u8 list go" where
  "encode_with c x = Encode (c_type c) (c_to c x)"

definition decode_with :: "'a codec \<Rightarrow> u8 list \<Rightarrow> 'a go" where
  "decode_with c bs = and_then (Decode (c_type c) bs (zero_value (c_type c))) (\<lambda>v. Inr (c_of c v))"

text \<open>The view of the sessions: encode a message, decode bytes into a zero message.\<close>

locale message_codec =
  fixes c :: "'a codec"
  assumes lawful: "lawful c"
begin

lemma roundtrip:
  assumes "c_wf c x"
  shows "\<exists>bs. encode_with c x = Inr bs \<and> length bs = vlen (c_type c) (c_to c x)
    \<and> (\<forall>r. decode_with c (bs @ r) = Inr x)"
proof -
  obtain bs where "Encode (c_type c) (c_to c x) = Inr bs"
    "\<forall>r. Decode (c_type c) (bs @ r) (zero_value (c_type c)) = Inr (c_to c x)"
    using Decode_Encode [OF lawfulD(1) [OF lawful] lawfulD(2) [OF lawful assms]] by blast
  then show ?thesis
    using encode_length [OF lawfulD(1) [OF lawful] lawfulD(2) [OF lawful assms]]
      lawfulD(3) [OF lawful assms]
    by (auto simp: encode_with_def decode_with_def Encode_def)
qed

lemma decode_total: "\<exists>x. decode_with c bs = Inr x \<and> c_wf c x"
proof -
  obtain v where "Decode (c_type c) bs (zero_value (c_type c)) = Inr v" "has_type (c_type c) v"
    using Encoder.decode_is_total [OF lawfulD(1) [OF lawful], of bs] by (auto simp: Decode_def)
  then show ?thesis using lawfulD(4) [OF lawful] by (auto simp: decode_with_def)
qed

lemma encode_total: "c_wf c x \<Longrightarrow> \<exists>bs. encode_with c x = Inr bs \<and> decode_with c bs = Inr x"
  using roundtrip [of x] by (metis append_Nil2)

end

subsection \<open>Codecs of the field types\<close>

fun of_VUint :: "goval \<Rightarrow> u64" where
  "of_VUint (VUint i) = i"
| "of_VUint _ = 0"

fun of_VInt :: "goval \<Rightarrow> i64" where
  "of_VInt (VInt i) = i"
| "of_VInt _ = 0"

fun of_VString :: "goval \<Rightarrow> u8 list" where
  "of_VString (VString s) = s"
| "of_VString _ = []"

fun elems :: "goval \<Rightarrow> goval list" where
  "elems (VArray vs) = vs"
| "elems (VSlice vs) = vs"
| "elems (VStruct vs) = vs"
| "elems _ = []"

definition uint8_c :: "u8 codec" where
  "uint8_c = \<lparr>c_type = TUint8, c_to = (\<lambda>x. VUint (ucast x)), c_of = (\<lambda>v. ucast (of_VUint v)),
     c_wf = (\<lambda>_. True)\<rparr>"

definition uint16_c :: "u16 codec" where
  "uint16_c = \<lparr>c_type = TUint16, c_to = (\<lambda>x. VUint (ucast x)), c_of = (\<lambda>v. ucast (of_VUint v)),
     c_wf = (\<lambda>_. True)\<rparr>"

definition uint32_c :: "u32 codec" where
  "uint32_c = \<lparr>c_type = TUint32, c_to = (\<lambda>x. VUint (ucast x)), c_of = (\<lambda>v. ucast (of_VUint v)),
     c_wf = (\<lambda>_. True)\<rparr>"

definition int_c :: "i64 codec" where
  "int_c = \<lparr>c_type = TInt, c_to = VInt, c_of = of_VInt, c_wf = (\<lambda>_. True)\<rparr>"

definition int64_c :: "i64 codec" where
  "int64_c = \<lparr>c_type = TInt64, c_to = VInt, c_of = of_VInt, c_wf = (\<lambda>_. True)\<rparr>"

definition string_c :: "go_string codec" where
  "string_c = \<lparr>c_type = TString, c_to = VString, c_of = of_VString, c_wf = (\<lambda>s. length s < 2 ^ 32)\<rparr>"

definition slice_c :: "'a codec \<Rightarrow> 'a list codec" where
  "slice_c c = \<lparr>c_type = TSlice (c_type c), c_to = (\<lambda>xs. VSlice (map (c_to c) xs)),
     c_of = (\<lambda>v. map (c_of c) (elems v)), c_wf = (\<lambda>xs. length xs < 2 ^ 32 \<and> list_all (c_wf c) xs)\<rparr>"

definition array_c :: "nat \<Rightarrow> 'a codec \<Rightarrow> 'a list codec" where
  "array_c n c = \<lparr>c_type = TArray n (c_type c), c_to = (\<lambda>xs. VArray (map (c_to c) xs)),
     c_of = (\<lambda>v. map (c_of c) (elems v)), c_wf = (\<lambda>xs. length xs = n \<and> list_all (c_wf c) xs)\<rparr>"

text \<open>The fields of a struct as nested pairs, and a struct as a record isomorphic to them.\<close>

record 'a fields =
  f_types :: "gotype list"
  f_to :: "'a \<Rightarrow> goval list"
  f_of :: "goval list \<Rightarrow> 'a"
  f_wf :: "'a \<Rightarrow> bool"

definition no_field :: "unit fields" where
  "no_field = \<lparr>f_types = [], f_to = (\<lambda>_. []), f_of = (\<lambda>_. ()), f_wf = (\<lambda>_. True)\<rparr>"

definition and_field :: "'a codec \<Rightarrow> 'b fields \<Rightarrow> ('a \<times> 'b) fields" where
  "and_field c fs = \<lparr>f_types = c_type c # f_types fs, f_to = (\<lambda>(x, y). c_to c x # f_to fs y),
     f_of = (\<lambda>vs. (c_of c (hd vs), f_of fs (tl vs))), f_wf = (\<lambda>(x, y). c_wf c x \<and> f_wf fs y)\<rparr>"

definition struct_c :: "('r \<Rightarrow> 'a) \<Rightarrow> ('a \<Rightarrow> 'r) \<Rightarrow> 'a fields \<Rightarrow> 'r codec" where
  "struct_c out into fs = \<lparr>c_type = TStruct (f_types fs), c_to = (\<lambda>r. VStruct (f_to fs (out r))),
     c_of = (\<lambda>v. into (f_of fs (elems v))), c_wf = (\<lambda>r. f_wf fs (out r))\<rparr>"

definition lawful_fields :: "'a fields \<Rightarrow> bool" where
  "lawful_fields fs \<longleftrightarrow> list_all plain_type (f_types fs)
     \<and> (\<forall>x. f_wf fs x \<longrightarrow> has_type (TStruct (f_types fs)) (VStruct (f_to fs x)) \<and> f_of fs (f_to fs x) = x)
     \<and> (\<forall>vs. has_type (TStruct (f_types fs)) (VStruct vs) \<longrightarrow> f_wf fs (f_of fs vs))"

lemma lawful_basic [lawful_intros]:
  "lawful uint8_c" "lawful uint16_c" "lawful uint32_c" "lawful int_c" "lawful int64_c" "lawful string_c"
  by (auto simp: lawful_def uint8_c_def uint16_c_def uint32_c_def int_c_def int64_c_def string_c_def
      split: goval.splits)

lemma lawful_slice [lawful_intros]: "lawful c \<Longrightarrow> lawful (slice_c c)"
  by (auto simp: lawful_def slice_c_def list_all_iff map_idI split: goval.splits)

lemma lawful_array [lawful_intros]: "lawful c \<Longrightarrow> lawful (array_c n c)"
  by (auto simp: lawful_def array_c_def list_all_iff map_idI split: goval.splits)

lemma lawful_no_field [lawful_intros]: "lawful_fields no_field"
  by (simp add: lawful_fields_def no_field_def)

lemma lawful_and_field [lawful_intros]:
  "lawful c \<Longrightarrow> lawful_fields fs \<Longrightarrow> lawful_fields (and_field c fs)"
  by (auto simp: lawful_def lawful_fields_def and_field_def length_Suc_conv)

lemma lawful_struct [lawful_intros]:
  "lawful_fields fs \<Longrightarrow> (\<And>r. into (out r) = r) \<Longrightarrow> (\<And>a. out (into a) = a) \<Longrightarrow> lawful (struct_c out into fs)"
  by (auto simp: lawful_def lawful_fields_def struct_c_def split: goval.splits)

definition bytes_c :: "u8 list codec" where
  "bytes_c = slice_c uint8_c"

definition id20_c :: "u8 list codec" where
  "id20_c = array_c 20 uint8_c"

lemma lawful_bytes [lawful_intros]: "lawful bytes_c" "lawful id20_c"
  by (simp_all add: bytes_c_def id20_c_def lawful_intros)

lemma bytes_c_wf [simp]: "c_wf bytes_c b \<longleftrightarrow> length b < 2 ^ 32"
  by (simp add: bytes_c_def slice_c_def uint8_c_def list_all_iff)

lemma id20_c_wf [simp]: "c_wf id20_c b \<longleftrightarrow> bytes20 b"
  by (simp add: id20_c_def array_c_def uint8_c_def list_all_iff bytes20_def)

lemma uint_c_wf [simp]:
  "c_wf uint8_c x8" "c_wf uint16_c x16" "c_wf uint32_c x32" "c_wf int_c i" "c_wf int64_c i"
  "c_wf string_c s \<longleftrightarrow> length s < 2 ^ 32"
  by (simp_all add: uint8_c_def uint16_c_def uint32_c_def int_c_def int64_c_def string_c_def)

lemma slice_c_wf [simp]: "c_wf (slice_c c) xs \<longleftrightarrow> length xs < 2 ^ 32 \<and> list_all (c_wf c) xs"
  by (simp add: slice_c_def)

subsection \<open>The messages\<close>

text \<open>The message kinds of \<open>net.go\<close> and \<open>p2p.go\<close> are bytes; a received one may be any byte.\<close>

definition MSG_CONN :: u8 where "MSG_CONN = 0"
definition MSG_SINGLE :: u8 where "MSG_SINGLE = 1"
definition MSG_MULTI :: u8 where "MSG_MULTI = 2"
definition PM_PING :: u8 where "PM_PING = 0"
definition PM_NET :: u8 where "PM_NET = 1"
definition MAX_TTL :: u32 where "MAX_TTL = 65"

record net_msg =
  nm_SrcId :: node_id
  nm_DstId :: node_id
  nm_Type :: u8
  nm_Data :: "u8 list"
  nm_TTL :: u32

definition net_msg_c :: "net_msg codec" where
  "net_msg_c = struct_c
     (\<lambda>m. (nm_SrcId m, nm_DstId m, nm_Type m, nm_Data m, nm_TTL m, ()))
     (\<lambda>(a, b, c, d, e, _). \<lparr>nm_SrcId = a, nm_DstId = b, nm_Type = c, nm_Data = d, nm_TTL = e\<rparr>)
     (and_field id20_c (and_field id20_c (and_field uint8_c (and_field bytes_c (and_field uint32_c no_field)))))"

lemma net_msg_lawful [lawful_intros]: "lawful net_msg_c"
  by (simp add: net_msg_c_def lawful_intros split: prod.splits)

lemma net_msg_wf [simp]: "c_wf net_msg_c m \<longleftrightarrow> c_wf id20_c (nm_SrcId m) \<and> c_wf id20_c (nm_DstId m) \<and> c_wf bytes_c (nm_Data m)"
  by (simp add: net_msg_c_def struct_c_def and_field_def no_field_def)

interpretation net_msg: message_codec net_msg_c
  by unfold_locales (rule net_msg_lawful)

record p2p_msg =
  pm_SrcId :: node_id
  pm_DstId :: node_id
  pm_Type :: u8
  pm_Data :: "u8 list"
  pm_Digest :: "u8 list"
  pm_Sign :: "u8 list"

definition p2p_msg_c :: "p2p_msg codec" where
  "p2p_msg_c = struct_c
     (\<lambda>m. (pm_SrcId m, pm_DstId m, pm_Type m, pm_Data m, pm_Digest m, pm_Sign m, ()))
     (\<lambda>(a, b, c, d, e, f, _). \<lparr>pm_SrcId = a, pm_DstId = b, pm_Type = c, pm_Data = d, pm_Digest = e, pm_Sign = f\<rparr>)
     (and_field id20_c (and_field id20_c (and_field uint8_c (and_field bytes_c (and_field bytes_c (and_field bytes_c no_field))))))"

lemma p2p_msg_lawful [lawful_intros]: "lawful p2p_msg_c"
  by (simp add: p2p_msg_c_def lawful_intros split: prod.splits)

lemma p2p_msg_wf [simp]: "c_wf p2p_msg_c m \<longleftrightarrow> c_wf id20_c (pm_SrcId m) \<and> c_wf id20_c (pm_DstId m) \<and> c_wf bytes_c (pm_Data m) \<and> c_wf bytes_c (pm_Digest m) \<and> c_wf bytes_c (pm_Sign m)"
  by (simp add: p2p_msg_c_def struct_c_def and_field_def no_field_def)

interpretation p2p_msg: message_codec p2p_msg_c
  by unfold_locales (rule p2p_msg_lawful)

record p2p_conn_msg =
  cm_SrcIP :: "u8 list"
  cm_SrcPort :: i64

definition p2p_conn_msg_c :: "p2p_conn_msg codec" where
  "p2p_conn_msg_c = struct_c
     (\<lambda>m. (cm_SrcIP m, cm_SrcPort m, ()))
     (\<lambda>(a, b, _). \<lparr>cm_SrcIP = a, cm_SrcPort = b\<rparr>)
     (and_field bytes_c (and_field int_c no_field))"

lemma p2p_conn_msg_lawful [lawful_intros]: "lawful p2p_conn_msg_c"
  by (simp add: p2p_conn_msg_c_def lawful_intros split: prod.splits)

lemma p2p_conn_msg_wf [simp]: "c_wf p2p_conn_msg_c m \<longleftrightarrow> c_wf bytes_c (cm_SrcIP m)"
  by (simp add: p2p_conn_msg_c_def struct_c_def and_field_def no_field_def)

interpretation p2p_conn_msg: message_codec p2p_conn_msg_c
  by unfold_locales (rule p2p_conn_msg_lawful)

record multipack_state =
  ms_StateMap :: u8
  ms_MapStSeq :: u32
  ms_ExpectSeq :: u32
  ms_MaxExpectCnt :: u32

definition multipack_state_c :: "multipack_state codec" where
  "multipack_state_c = struct_c
     (\<lambda>m. (ms_StateMap m, ms_MapStSeq m, ms_ExpectSeq m, ms_MaxExpectCnt m, ()))
     (\<lambda>(a, b, c, d, _). \<lparr>ms_StateMap = a, ms_MapStSeq = b, ms_ExpectSeq = c, ms_MaxExpectCnt = d\<rparr>)
     (and_field uint8_c (and_field uint32_c (and_field uint32_c (and_field uint32_c no_field))))"

lemma multipack_state_lawful [lawful_intros]: "lawful multipack_state_c"
  by (simp add: multipack_state_c_def lawful_intros split: prod.splits)

lemma multipack_state_wf [simp]: "c_wf multipack_state_c m \<longleftrightarrow> True"
  by (simp add: multipack_state_c_def struct_c_def and_field_def no_field_def)

interpretation multipack_state: message_codec multipack_state_c
  by unfold_locales (rule multipack_state_lawful)

record pack_info =
  pi_PackID :: u32
  pi_PackSeq :: u32
  pi_SubPackCnt :: u32
  pi_Seq :: u32
  pi_SendTime :: i64

definition pack_info_c :: "pack_info codec" where
  "pack_info_c = struct_c
     (\<lambda>m. (pi_PackID m, pi_PackSeq m, pi_SubPackCnt m, pi_Seq m, pi_SendTime m, ()))
     (\<lambda>(a, b, c, d, e, _). \<lparr>pi_PackID = a, pi_PackSeq = b, pi_SubPackCnt = c, pi_Seq = d, pi_SendTime = e\<rparr>)
     (and_field uint32_c (and_field uint32_c (and_field uint32_c (and_field uint32_c (and_field int64_c no_field)))))"

lemma pack_info_lawful [lawful_intros]: "lawful pack_info_c"
  by (simp add: pack_info_c_def lawful_intros split: prod.splits)

lemma pack_info_wf [simp]: "c_wf pack_info_c m \<longleftrightarrow> True"
  by (simp add: pack_info_c_def struct_c_def and_field_def no_field_def)

interpretation pack_info: message_codec pack_info_c
  by unfold_locales (rule pack_info_lawful)

record multipack_msg =
  mp_State :: multipack_state
  mp_Info :: pack_info
  mp_Data :: "u8 list"

definition multipack_msg_c :: "multipack_msg codec" where
  "multipack_msg_c = struct_c
     (\<lambda>m. (mp_State m, mp_Info m, mp_Data m, ()))
     (\<lambda>(a, b, c, _). \<lparr>mp_State = a, mp_Info = b, mp_Data = c\<rparr>)
     (and_field multipack_state_c (and_field pack_info_c (and_field bytes_c no_field)))"

lemma multipack_msg_lawful [lawful_intros]: "lawful multipack_msg_c"
  by (simp add: multipack_msg_c_def lawful_intros split: prod.splits)

lemma multipack_msg_wf [simp]: "c_wf multipack_msg_c m \<longleftrightarrow> c_wf multipack_state_c (mp_State m) \<and> c_wf pack_info_c (mp_Info m) \<and> c_wf bytes_c (mp_Data m)"
  by (simp add: multipack_msg_c_def struct_c_def and_field_def no_field_def)

interpretation multipack_msg: message_codec multipack_msg_c
  by unfold_locales (rule multipack_msg_lawful)

record appli_net_msg =
  an_SrcHandlerID :: u16
  an_DstHandlerID :: u16
  an_DstListenerID :: listener_id
  an_Data :: "u8 list"

definition appli_net_msg_c :: "appli_net_msg codec" where
  "appli_net_msg_c = struct_c
     (\<lambda>m. (an_SrcHandlerID m, an_DstHandlerID m, an_DstListenerID m, an_Data m, ()))
     (\<lambda>(a, b, c, d, _). \<lparr>an_SrcHandlerID = a, an_DstHandlerID = b, an_DstListenerID = c, an_Data = d\<rparr>)
     (and_field uint16_c (and_field uint16_c (and_field uint16_c (and_field bytes_c no_field))))"

lemma appli_net_msg_lawful [lawful_intros]: "lawful appli_net_msg_c"
  by (simp add: appli_net_msg_c_def lawful_intros split: prod.splits)

lemma appli_net_msg_wf [simp]: "c_wf appli_net_msg_c m \<longleftrightarrow> c_wf bytes_c (an_Data m)"
  by (simp add: appli_net_msg_c_def struct_c_def and_field_def no_field_def)

interpretation appli_net_msg: message_codec appli_net_msg_c
  by unfold_locales (rule appli_net_msg_lawful)

text \<open>\<open>DataOrigin\<close> is an empty struct.\<close>

definition data_origin_c :: "unit codec" where
  "data_origin_c = struct_c (\<lambda>_. ()) (\<lambda>_. ()) no_field"

lemma data_origin_lawful [lawful_intros]: "lawful data_origin_c"
  by (simp add: data_origin_c_def lawful_intros)

lemma data_origin_wf [simp]: "c_wf data_origin_c x"
  by (simp add: data_origin_c_def struct_c_def no_field_def)

record share_request_msg =
  sr_Origin :: unit
  sr_ID :: u32
  sr_Hash :: hash_val
  sr_Size :: u32

definition share_request_msg_c :: "share_request_msg codec" where
  "share_request_msg_c = struct_c
     (\<lambda>m. (sr_Origin m, sr_ID m, sr_Hash m, sr_Size m, ()))
     (\<lambda>(a, b, c, d, _). \<lparr>sr_Origin = a, sr_ID = b, sr_Hash = c, sr_Size = d\<rparr>)
     (and_field data_origin_c (and_field uint32_c (and_field id20_c (and_field uint32_c no_field))))"

lemma share_request_msg_lawful [lawful_intros]: "lawful share_request_msg_c"
  by (simp add: share_request_msg_c_def lawful_intros split: prod.splits)

lemma share_request_msg_wf [simp]: "c_wf share_request_msg_c m \<longleftrightarrow> c_wf id20_c (sr_Hash m)"
  by (simp add: share_request_msg_c_def struct_c_def and_field_def no_field_def)

interpretation share_request_msg: message_codec share_request_msg_c
  by unfold_locales (rule share_request_msg_lawful)

record share_accept_msg =
  sa_ID :: u32
  sa_Hash :: hash_val

definition share_accept_msg_c :: "share_accept_msg codec" where
  "share_accept_msg_c = struct_c
     (\<lambda>m. (sa_ID m, sa_Hash m, ()))
     (\<lambda>(a, b, _). \<lparr>sa_ID = a, sa_Hash = b\<rparr>)
     (and_field uint32_c (and_field id20_c no_field))"

lemma share_accept_msg_lawful [lawful_intros]: "lawful share_accept_msg_c"
  by (simp add: share_accept_msg_c_def lawful_intros split: prod.splits)

lemma share_accept_msg_wf [simp]: "c_wf share_accept_msg_c m \<longleftrightarrow> c_wf id20_c (sa_Hash m)"
  by (simp add: share_accept_msg_c_def struct_c_def and_field_def no_field_def)

interpretation share_accept_msg: message_codec share_accept_msg_c
  by unfold_locales (rule share_accept_msg_lawful)

record data_pack =
  dp_Keys :: "go_string list"
  dp_Data :: "u8 list list"

definition data_pack_c :: "data_pack codec" where
  "data_pack_c = struct_c
     (\<lambda>m. (dp_Keys m, dp_Data m, ()))
     (\<lambda>(a, b, _). \<lparr>dp_Keys = a, dp_Data = b\<rparr>)
     (and_field (slice_c string_c) (and_field (slice_c bytes_c) no_field))"

lemma data_pack_lawful [lawful_intros]: "lawful data_pack_c"
  by (simp add: data_pack_c_def lawful_intros split: prod.splits)

lemma data_pack_wf [simp]: "c_wf data_pack_c m \<longleftrightarrow> c_wf (slice_c string_c) (dp_Keys m) \<and> c_wf (slice_c bytes_c) (dp_Data m)"
  by (simp add: data_pack_c_def struct_c_def and_field_def no_field_def)

interpretation data_pack: message_codec data_pack_c
  by unfold_locales (rule data_pack_lawful)

record purchase_request_msg =
  pr_ID :: u32
  pr_Keys :: "go_string list"

definition purchase_request_msg_c :: "purchase_request_msg codec" where
  "purchase_request_msg_c = struct_c
     (\<lambda>m. (pr_ID m, pr_Keys m, ()))
     (\<lambda>(a, b, _). \<lparr>pr_ID = a, pr_Keys = b\<rparr>)
     (and_field uint32_c (and_field (slice_c string_c) no_field))"

lemma purchase_request_msg_lawful [lawful_intros]: "lawful purchase_request_msg_c"
  by (simp add: purchase_request_msg_c_def lawful_intros split: prod.splits)

lemma purchase_request_msg_wf [simp]: "c_wf purchase_request_msg_c m \<longleftrightarrow> c_wf (slice_c string_c) (pr_Keys m)"
  by (simp add: purchase_request_msg_c_def struct_c_def and_field_def no_field_def)

interpretation purchase_request_msg: message_codec purchase_request_msg_c
  by unfold_locales (rule purchase_request_msg_lawful)

record tracker_request_msg =
  tq_KeyGroup :: "go_string list list"

definition tracker_request_msg_c :: "tracker_request_msg codec" where
  "tracker_request_msg_c = struct_c
     (\<lambda>m. (tq_KeyGroup m, ()))
     (\<lambda>(a, _). \<lparr>tq_KeyGroup = a\<rparr>)
     (and_field (slice_c (slice_c string_c)) no_field)"

lemma tracker_request_msg_lawful [lawful_intros]: "lawful tracker_request_msg_c"
  by (simp add: tracker_request_msg_c_def lawful_intros split: prod.splits)

lemma tracker_request_msg_wf [simp]: "c_wf tracker_request_msg_c m \<longleftrightarrow> c_wf (slice_c (slice_c string_c)) (tq_KeyGroup m)"
  by (simp add: tracker_request_msg_c_def struct_c_def and_field_def no_field_def)

interpretation tracker_request_msg: message_codec tracker_request_msg_c
  by unfold_locales (rule tracker_request_msg_lawful)

record tracker_result_msg =
  tr_PeerGroup :: "node_id list list"

definition tracker_result_msg_c :: "tracker_result_msg codec" where
  "tracker_result_msg_c = struct_c
     (\<lambda>m. (tr_PeerGroup m, ()))
     (\<lambda>(a, _). \<lparr>tr_PeerGroup = a\<rparr>)
     (and_field (slice_c (slice_c id20_c)) no_field)"

lemma tracker_result_msg_lawful [lawful_intros]: "lawful tracker_result_msg_c"
  by (simp add: tracker_result_msg_c_def lawful_intros split: prod.splits)

lemma tracker_result_msg_wf [simp]: "c_wf tracker_result_msg_c m \<longleftrightarrow> c_wf (slice_c (slice_c id20_c)) (tr_PeerGroup m)"
  by (simp add: tracker_result_msg_c_def struct_c_def and_field_def no_field_def)

interpretation tracker_result_msg: message_codec tracker_result_msg_c
  by unfold_locales (rule tracker_result_msg_lawful)

definition master_req_msg_c :: "master_req_msg codec" where
  "master_req_msg_c = struct_c
     (\<lambda>m. (mr_MasterID m, mr_ContractAddr m, mr_Code m, ()))
     (\<lambda>(a, b, c, _). \<lparr>mr_MasterID = a, mr_ContractAddr = b, mr_Code = c\<rparr>)
     (and_field id20_c (and_field id20_c (and_field bytes_c no_field)))"

lemma master_req_msg_lawful [lawful_intros]: "lawful master_req_msg_c"
  by (simp add: master_req_msg_c_def lawful_intros split: prod.splits)

lemma master_req_msg_wf [simp]: "c_wf master_req_msg_c m \<longleftrightarrow> c_wf id20_c (mr_MasterID m) \<and> c_wf id20_c (mr_ContractAddr m) \<and> c_wf bytes_c (mr_Code m)"
  by (simp add: master_req_msg_c_def struct_c_def and_field_def no_field_def)

interpretation master_req_msg: message_codec master_req_msg_c
  by unfold_locales (rule master_req_msg_lawful)

definition worker_res_msg_c :: "worker_res_msg codec" where
  "worker_res_msg_c = struct_c
     (\<lambda>m. (wr_WorkerID m, wr_MasterID m, wr_TaskID m, ()))
     (\<lambda>(a, b, c, _). \<lparr>wr_WorkerID = a, wr_MasterID = b, wr_TaskID = c\<rparr>)
     (and_field id20_c (and_field id20_c (and_field id20_c no_field)))"

lemma worker_res_msg_lawful [lawful_intros]: "lawful worker_res_msg_c"
  by (simp add: worker_res_msg_c_def lawful_intros split: prod.splits)

lemma worker_res_msg_wf [simp]: "c_wf worker_res_msg_c m \<longleftrightarrow> c_wf id20_c (wr_WorkerID m) \<and> c_wf id20_c (wr_MasterID m) \<and> c_wf id20_c (wr_TaskID m)"
  by (simp add: worker_res_msg_c_def struct_c_def and_field_def no_field_def)

interpretation worker_res_msg: message_codec worker_res_msg_c
  by unfold_locales (rule worker_res_msg_lawful)

definition task_file_meta_info_c :: "task_file_meta_info codec" where
  "task_file_meta_info_c = struct_c
     (\<lambda>m. (tf_KeyGroup m, tf_Sizes m, tf_Hashes m, tf_Trackers m, ()))
     (\<lambda>(a, b, c, d, _). \<lparr>tf_KeyGroup = a, tf_Sizes = b, tf_Hashes = c, tf_Trackers = d\<rparr>)
     (and_field (slice_c (slice_c string_c)) (and_field (slice_c uint32_c) (and_field (slice_c id20_c) (and_field (slice_c id20_c) no_field))))"

lemma task_file_meta_info_lawful [lawful_intros]: "lawful task_file_meta_info_c"
  by (simp add: task_file_meta_info_c_def lawful_intros split: prod.splits)

lemma task_file_meta_info_wf [simp]: "c_wf task_file_meta_info_c m \<longleftrightarrow> c_wf (slice_c (slice_c string_c)) (tf_KeyGroup m) \<and> c_wf (slice_c uint32_c) (tf_Sizes m) \<and> c_wf (slice_c id20_c) (tf_Hashes m) \<and> c_wf (slice_c id20_c) (tf_Trackers m)"
  by (simp add: task_file_meta_info_c_def struct_c_def and_field_def no_field_def)

interpretation task_file_meta_info: message_codec task_file_meta_info_c
  by unfold_locales (rule task_file_meta_info_lawful)

definition task_execute_info_c :: "task_execute_info codec" where
  "task_execute_info_c = struct_c
     (\<lambda>m. (te_InputKeys m, te_OutputKeys m, ()))
     (\<lambda>(a, b, _). \<lparr>te_InputKeys = a, te_OutputKeys = b\<rparr>)
     (and_field (slice_c (slice_c string_c)) (and_field (slice_c string_c) no_field))"

lemma task_execute_info_lawful [lawful_intros]: "lawful task_execute_info_c"
  by (simp add: task_execute_info_c_def lawful_intros split: prod.splits)

lemma task_execute_info_wf [simp]: "c_wf task_execute_info_c m \<longleftrightarrow> c_wf (slice_c (slice_c string_c)) (te_InputKeys m) \<and> c_wf (slice_c string_c) (te_OutputKeys m)"
  by (simp add: task_execute_info_c_def struct_c_def and_field_def no_field_def)

interpretation task_execute_info: message_codec task_execute_info_c
  by unfold_locales (rule task_execute_info_lawful)

definition task_meta_info_c :: "task_meta_info codec" where
  "task_meta_info_c = struct_c
     (\<lambda>m. (tm_MasterID m, tm_TaskID m, tm_ConfoundKey m, tm_Sign m, tm_FileInfo m, tm_ExecuteInfo m, ()))
     (\<lambda>(a, b, c, d, e, f, _). \<lparr>tm_MasterID = a, tm_TaskID = b, tm_ConfoundKey = c, tm_Sign = d, tm_FileInfo = e, tm_ExecuteInfo = f\<rparr>)
     (and_field id20_c (and_field id20_c (and_field id20_c (and_field bytes_c (and_field task_file_meta_info_c (and_field task_execute_info_c no_field))))))"

lemma task_meta_info_lawful [lawful_intros]: "lawful task_meta_info_c"
  by (simp add: task_meta_info_c_def lawful_intros split: prod.splits)

lemma task_meta_info_wf [simp]: "c_wf task_meta_info_c m \<longleftrightarrow> c_wf id20_c (tm_MasterID m) \<and> c_wf id20_c (tm_TaskID m) \<and> c_wf id20_c (tm_ConfoundKey m) \<and> c_wf bytes_c (tm_Sign m) \<and> c_wf task_file_meta_info_c (tm_FileInfo m) \<and> c_wf task_execute_info_c (tm_ExecuteInfo m)"
  by (simp add: task_meta_info_c_def struct_c_def and_field_def no_field_def)

interpretation task_meta_info: message_codec task_meta_info_c
  by unfold_locales (rule task_meta_info_lawful)


subsection \<open>Sizes\<close>

definition P2P_PACK_SZIE :: nat where "P2P_PACK_SZIE = 1024"
definition NETMSG_PACK_SIZE :: nat where "NETMSG_PACK_SIZE = P2P_PACK_SZIE - 40 - 1 - 4 * 3"
definition NETMSG_DATA_SIZE :: nat where "NETMSG_DATA_SIZE = NETMSG_PACK_SIZE - 40 - 1 - 4 - 4"
definition MP_STATE_SIZE :: nat where "MP_STATE_SIZE = 1 + 4 * 3"
definition MP_INFO_SIZE :: nat where "MP_INFO_SIZE = 4 * 4"
definition MULTIPACK_DATA_SIZE :: nat where
  "MULTIPACK_DATA_SIZE = NETMSG_DATA_SIZE - MP_STATE_SIZE - MP_INFO_SIZE - 4"

lemmas size_constants = P2P_PACK_SZIE_def NETMSG_PACK_SIZE_def NETMSG_DATA_SIZE_def
  MP_STATE_SIZE_def MP_INFO_SIZE_def MULTIPACK_DATA_SIZE_def

lemma vlen_basic [simp]:
  "vlen (c_type uint8_c) (c_to uint8_c a) = 1"
  "vlen (c_type uint16_c) (c_to uint16_c b) = 2"
  "vlen (c_type uint32_c) (c_to uint32_c c) = 4"
  "vlen (c_type int_c) (c_to int_c i) = 8"
  "vlen (c_type int64_c) (c_to int64_c i) = 8"
  "vlen (c_type string_c) (c_to string_c s) = 4 + length s"
  by (simp_all add: uint8_c_def uint16_c_def uint32_c_def int_c_def int64_c_def string_c_def)

lemma sum_list_const: "(\<And>x. x \<in> set xs \<Longrightarrow> f x = (k::nat)) \<Longrightarrow> sum_list (map f xs) = k * length xs"
  by (induction xs) simp_all

lemma vlen_bytes [simp]: "vlen (c_type bytes_c) (c_to bytes_c b) = 4 + length b"
  using sum_list_const [of b "vlen (c_type uint8_c) \<circ> c_to uint8_c" 1]
  by (simp add: bytes_c_def slice_c_def)

lemma vlen_id20 [simp]: "vlen (c_type id20_c) (c_to id20_c b) = length b"
  using sum_list_const [of b "vlen (c_type uint8_c) \<circ> c_to uint8_c" 1]
  by (simp add: id20_c_def array_c_def)

lemma vlen_net_msg:
  "bytes20 (nm_SrcId m) \<Longrightarrow> bytes20 (nm_DstId m) \<Longrightarrow>
    vlen (c_type net_msg_c) (c_to net_msg_c m) = 49 + length (nm_Data m)"
  by (simp add: net_msg_c_def struct_c_def and_field_def no_field_def bytes20_def)

lemma vlen_p2p_msg:
  "bytes20 (pm_SrcId m) \<Longrightarrow> bytes20 (pm_DstId m) \<Longrightarrow>
    vlen (c_type p2p_msg_c) (c_to p2p_msg_c m)
      = 53 + length (pm_Data m) + length (pm_Digest m) + length (pm_Sign m)"
  by (simp add: p2p_msg_c_def struct_c_def and_field_def no_field_def bytes20_def)

lemma vlen_multipack_state [simp]: "vlen (c_type multipack_state_c) (c_to multipack_state_c m) = 13"
  by (simp add: multipack_state_c_def struct_c_def and_field_def no_field_def)

lemma vlen_pack_info [simp]: "vlen (c_type pack_info_c) (c_to pack_info_c m) = 24"
  by (simp add: pack_info_c_def struct_c_def and_field_def no_field_def)

lemma vlen_multipack_msg: "vlen (c_type multipack_msg_c) (c_to multipack_msg_c m) = 41 + length (mp_Data m)"
  by (simp add: multipack_msg_c_def struct_c_def and_field_def no_field_def)

lemma encode_with_length:
  "lawful c \<Longrightarrow> c_wf c x \<Longrightarrow> encode_with c x = Inr bs \<Longrightarrow> length bs = vlen (c_type c) (c_to c x)"
  by (rule encode_length [OF lawfulD(1) lawfulD(2)]) (simp_all add: encode_with_def Encode_def)

subsection \<open>Truncated datagrams\<close>

lemma p2p_msg_split:
  "c_type p2p_msg_c = TStruct ([c_type id20_c, c_type id20_c, c_type uint8_c, c_type bytes_c]
     @ [c_type bytes_c, c_type bytes_c])"
  "c_to p2p_msg_c m = VStruct ([c_to id20_c (pm_SrcId m), c_to id20_c (pm_DstId m),
     c_to uint8_c (pm_Type m), c_to bytes_c (pm_Data m)]
     @ [c_to bytes_c (pm_Digest m), c_to bytes_c (pm_Sign m)])"
  by (simp_all add: p2p_msg_c_def struct_c_def and_field_def no_field_def)

lemma encode_empty_bytes: "encodeTypes (c_type bytes_c) (c_to bytes_c []) = Inr (replicate 4 0)"
  by (simp add: bytes_c_def slice_c_def)

lemma p2p_msg_cut:
  assumes wf: "c_wf p2p_msg_c m" and e: "pm_Digest m = []" "pm_Sign m = []"
    and enc: "encode_with p2p_msg_c m = Inr bs" and k: "k \<le> 8"
  shows "decode_with p2p_msg_c (take (length bs - k) bs) = Inr m"
proof -
  let ?ts = "[c_type id20_c, c_type id20_c, c_type uint8_c, c_type bytes_c]"
  let ?us = "[c_type bytes_c, c_type bytes_c]"
  let ?vs = "[c_to id20_c (pm_SrcId m), c_to id20_c (pm_DstId m), c_to uint8_c (pm_Type m),
    c_to bytes_c (pm_Data m)]"
  have ht: "has_type (TStruct ?ts) (VStruct ?vs)"
    using wf lawfulD(2) [OF lawful_bytes(1)] lawfulD(2) [OF lawful_bytes(2)]
      lawfulD(2) [OF lawful_basic(1)] by simp
  have pl: "list_all plain_type (?ts @ ?us)"
    using lawfulD(1) [OF lawful_bytes(1)] lawfulD(1) [OF lawful_bytes(2)]
      lawfulD(1) [OF lawful_basic(1)] by simp
  obtain ps where ps: "encodeTypes (TStruct ?ts) (VStruct ?vs) = Inr ps"
    using encode_roundtrips [of "TStruct ?ts" "VStruct ?vs"] ht pl by (auto simp: roundtrips_def)
  have bs: "bs = ps @ replicate 8 0"
    using enc ps e by (auto simp: encode_with_def Encode_def p2p_msg_split and_then_Inr_iff
        encode_empty_bytes simp flip: replicate_add)
  have cut: "take (length bs - k) bs = ps @ replicate (8 - k) 0"
    using k by (simp add: bs)
  obtain j where "decodeTypes (TStruct (?ts @ ?us)) (zero_value (TStruct (?ts @ ?us)))
      (take (length bs - k) bs) = Inr (VStruct (?vs @ map zero_value ?us), replicate j 0)"
    using decode_struct_zero_suffix [OF pl ht ps, of "8 - k"] cut by auto
  moreover have "zero_value (c_type bytes_c) = c_to bytes_c []"
    by (simp add: bytes_c_def slice_c_def)
  ultimately have "decodeTypes (c_type p2p_msg_c) (zero_value (c_type p2p_msg_c))
      (take (length bs - k) bs) = Inr (c_to p2p_msg_c m, replicate j 0)"
    using e by (simp only: p2p_msg_split) simp
  then show ?thesis
    using lawfulD(3) [OF p2p_msg_lawful wf] by (simp add: decode_with_def Decode_def)
qed

subsection \<open>Properties\<close>

text \<open>The packet \<open>NaiveP2PHandler.send\<close> builds around the encoding of a network message.\<close>

definition p2p_packet :: "node_id \<Rightarrow> node_id \<Rightarrow> u8 \<Rightarrow> u8 list \<Rightarrow> p2p_msg" where
  "p2p_packet src dst tp data = \<lparr>pm_SrcId = src, pm_DstId = dst, pm_Type = tp, pm_Data = data,
     pm_Digest = [], pm_Sign = []\<rparr>"

lemma p2p_packet_wf: "bytes20 s \<Longrightarrow> bytes20 d \<Longrightarrow> length b < 2 ^ 32 \<Longrightarrow> c_wf p2p_msg_c (p2p_packet s d t b)"
  by (simp add: p2p_packet_def)

lemma fragment_chain:
  assumes "bytes20 (nm_SrcId nm)" "bytes20 (nm_DstId nm)" "bytes20 s" "bytes20 d"
    and "encode_with multipack_msg_c mm = Inr mb" and "nm_Data nm = mb"
    and "encode_with net_msg_c nm = Inr nb" and "encode_with p2p_msg_c (p2p_packet s d t nb) = Inr pb"
    and "length (mp_Data mm) < 2 ^ 30"
  shows "length pb = 143 + length (mp_Data mm)"
    and "decode_with multipack_msg_c mb = Inr mm" and "decode_with net_msg_c nb = Inr nm"
    and "c_wf p2p_msg_c (p2p_packet s d t nb)"
proof -
  have wm: "c_wf multipack_msg_c mm" using assms(9) by simp
  have mb: "length mb = 41 + length (mp_Data mm)"
    using encode_with_length [OF multipack_msg_lawful wm assms(5)] by (simp add: vlen_multipack_msg)
  have wn: "c_wf net_msg_c nm" using assms(1,2,6,9) mb by simp
  have nb: "length nb = 49 + length mb"
    using encode_with_length [OF net_msg_lawful wn assms(7)] assms(1,2,6) by (simp add: vlen_net_msg)
  show wp: "c_wf p2p_msg_c (p2p_packet s d t nb)"
    using assms(3,4,9) mb nb by (intro p2p_packet_wf) simp_all
  show "length pb = 143 + length (mp_Data mm)"
    using encode_with_length [OF p2p_msg_lawful wp assms(8)] assms(3,4) mb nb
    by (simp add: vlen_p2p_msg p2p_packet_def)
  show "decode_with multipack_msg_c mb = Inr mm"
    using multipack_msg.encode_total [OF wm] assms(5) by auto
  show "decode_with net_msg_c nb = Inr nm"
    using net_msg.encode_total [OF wn] assms(7) by auto
qed

text \<open>C39: A sub-packet of at most \<open>MULTIPACK_DATA_SIZE\<close> bytes survives the whole stack although the
  constants forget the 8 bytes of \<open>SendTime\<close>: with a full one the datagram is 8 bytes longer than
  the receive buffer of \<open>P2P_PACK_SZIE\<close> bytes, the buffer cuts the two empty length fields at the
  end, and decoding what is left gives the same packet, network message and sub-packet.\<close>
theorem full_fragment_survives_buffer:
  assumes "bytes20 (nm_SrcId nm)" and "bytes20 (nm_DstId nm)" and "bytes20 s" and "bytes20 d"
    and "encode_with multipack_msg_c mm = Inr mb" and "nm_Data nm = mb"
    and "encode_with net_msg_c nm = Inr nb" and "encode_with p2p_msg_c (p2p_packet s d t nb) = Inr pb"
    and "length (mp_Data mm) \<le> MULTIPACK_DATA_SIZE"
  shows "decode_with p2p_msg_c (take P2P_PACK_SZIE pb) = Inr (p2p_packet s d t nb)
    \<and> decode_with net_msg_c nb = Inr nm \<and> decode_with multipack_msg_c mb = Inr mm
    \<and> (length (mp_Data mm) = MULTIPACK_DATA_SIZE \<longrightarrow> length pb = P2P_PACK_SZIE + 8)"
proof -
  have "length (mp_Data mm) < 2 ^ 30" using assms(9) by (simp add: size_constants)
  note c = fragment_chain [OF assms(1-8) this]
  have "take P2P_PACK_SZIE pb = take (length pb - (length pb - P2P_PACK_SZIE)) pb"
    by (cases "P2P_PACK_SZIE \<le> length pb") simp_all
  moreover have "decode_with p2p_msg_c (take (length pb - (length pb - P2P_PACK_SZIE)) pb)
      = Inr (p2p_packet s d t nb)"
    using c(1) assms(8,9)
    by (intro p2p_msg_cut [OF c(4)]) (simp_all add: p2p_packet_def size_constants)
  ultimately show ?thesis using c by (simp add: size_constants)
qed

definition demo_fragment :: multipack_msg where
  "demo_fragment = \<lparr>mp_State = \<lparr>ms_StateMap = 0, ms_MapStSeq = 0, ms_ExpectSeq = 0, ms_MaxExpectCnt = 4\<rparr>,
     mp_Info = \<lparr>pi_PackID = 1, pi_PackSeq = 0, pi_SubPackCnt = 1, pi_Seq = 0, pi_SendTime = 0\<rparr>,
     mp_Data = replicate 889 7\<rparr>"

lemma full_fragment_survives_buffer_witness:
  "\<exists>mb nb pb. encode_with multipack_msg_c demo_fragment = Inr mb
    \<and> encode_with p2p_msg_c (p2p_packet (replicate 20 1) (replicate 20 2) PM_NET nb) = Inr pb
    \<and> length pb = 1032
    \<and> decode_with p2p_msg_c (take 1024 pb)
      = Inr (p2p_packet (replicate 20 1) (replicate 20 2) PM_NET nb)
    \<and> decode_with multipack_msg_c mb = Inr demo_fragment"
proof -
  let ?s = "replicate 20 1 :: u8 list" and ?d = "replicate 20 2 :: u8 list"
  have wm: "c_wf multipack_msg_c demo_fragment" by (simp add: demo_fragment_def)
  obtain mb where mb: "encode_with multipack_msg_c demo_fragment = Inr mb" "length mb = 930"
    using multipack_msg.roundtrip [OF wm] by (auto simp: vlen_multipack_msg demo_fragment_def)
  let ?nm = "\<lparr>nm_SrcId = ?s, nm_DstId = ?d, nm_Type = MSG_MULTI, nm_Data = mb, nm_TTL = MAX_TTL\<rparr>"
  have "c_wf net_msg_c ?nm" using mb(2) by simp
  from net_msg.roundtrip [OF this] obtain nb where nb: "encode_with net_msg_c ?nm = Inr nb"
    "length nb = 979"
    using mb(2) by (auto simp: vlen_net_msg)
  then have "c_wf p2p_msg_c (p2p_packet ?s ?d PM_NET nb)" by (simp add: p2p_packet_def)
  from p2p_msg.encode_total [OF this] obtain pb where
    pb: "encode_with p2p_msg_c (p2p_packet ?s ?d PM_NET nb) = Inr pb" by blast
  have "length (mp_Data demo_fragment) \<le> MULTIPACK_DATA_SIZE"
    by (simp add: demo_fragment_def size_constants)
  with full_fragment_survives_buffer [of ?nm ?s ?d demo_fragment mb nb PM_NET pb] mb nb pb
  show ?thesis by (auto simp: size_constants demo_fragment_def)
qed

text \<open>The receiver's test \<open>len(data) == MP_STATE_SIZE\<close> is unambiguous: an encoded state has exactly that
  length, an encoded sub-packet never has.\<close>
theorem state_only_unambiguous:
  "\<exists>bs. encode_with multipack_state_c st = Inr bs \<and> length bs = MP_STATE_SIZE
    \<and> decode_with multipack_state_c bs = Inr st
    \<and> (\<forall>mm cs. c_wf multipack_msg_c mm \<and> encode_with multipack_msg_c mm = Inr cs
         \<longrightarrow> length cs \<noteq> MP_STATE_SIZE)"
proof -
  have "c_wf multipack_state_c st" by simp
  from multipack_state.roundtrip [OF this] obtain bs where
    "encode_with multipack_state_c st = Inr bs" "length bs = 13"
    "\<forall>r. decode_with multipack_state_c (bs @ r) = Inr st"
    by auto
  moreover from this(3) have "decode_with multipack_state_c bs = Inr st" by (metis append_Nil2)
  moreover have "length cs \<noteq> 13"
    if "c_wf multipack_msg_c mm" "encode_with multipack_msg_c mm = Inr cs" for mm cs
    using encode_with_length [OF multipack_msg_lawful that] by (simp add: vlen_multipack_msg)
  ultimately show ?thesis by (auto simp: MP_STATE_SIZE_def)
qed

lemma state_only_unambiguous_witness:
  "\<exists>bs. encode_with multipack_state_c (mp_State demo_fragment) = Inr bs \<and> length bs = 13"
  using state_only_unambiguous [of "mp_State demo_fragment"] by (auto simp: MP_STATE_SIZE_def)

text \<open>\<open>MP_INFO_SIZE\<close> is 8 bytes short of an encoded \<open>PackInfo\<close>: it does not count \<open>SendTime\<close>.\<close>
theorem pack_info_size_short:
  "\<exists>bs. encode_with pack_info_c i = Inr bs \<and> length bs = MP_INFO_SIZE + 8"
  using pack_info.roundtrip [of i] by (auto simp: MP_INFO_SIZE_def)

end
