(* ===== verification/P2P_Handler.thy ===== *)
theory P2P_Handler
  imports Messages
begin

text \<open>
  The handler of one UDP association in \<open>src/src/net/p2p.go\<close> (\<open>NaiveP2PHandler\<close>) and its pool: the
  states from waiting over pinging to connected and disconnected, the four timers, the loop \<open>run\<close> in
  its static and its dynamic form, and the goroutine of \<open>recv\<close> that reads one datagram for the loop.
  A datagram or a value on a channel is an event, a datagram written to the socket or a value put on
  a channel is an effect. What the reflection server answers to \<open>getSelfPubIp\<close> is an argument.
\<close>

subsection \<open>State\<close>

datatype p2p_state = ST_WAIT | ST_PING | ST_CONN | ST_DISCONN

record udp_addr =
  ua_IP :: "u8 list"
  ua_Port :: i64

record p2p_peer =
  pe_PeerId :: node_id
  pe_PeerIp :: "udp_addr option"

record net_result =
  nr_SrcId :: node_id
  nr_Data :: "u8 list"
  nr_SrcAddr :: udp_addr

record peer_state_change =
  sc_PeerId :: node_id
  sc_State :: p2p_state

text \<open>The loop, and the goroutine of \<open>recv\<close> with the channel it answers on.\<close>

datatype run_state = RunIdle | RunStatic | RunDynamic | RunDone
datatype recv_state = RecvReading | RecvValue "net_result option" | RecvEnded

text \<open>Goroutines that wait to put a value on \<open>stateChan\<close> or \<open>recvChan\<close>; \<open>TellState None\<close> reads the state
  when it runs.\<close>

datatype hd_task = TellState "p2p_state option" | GiveResult net_result

record p2p_handler =
  ph_srcId :: node_id
  ph_dstId :: node_id
  ph_dstAddr :: "udp_addr option"
  ph_pubIp :: "u8 list"
  ph_pubPort :: i64
  ph_state :: p2p_state
  ph_recvChan :: "chan option"
  ph_stateChan :: "chan option"
  ph_pingTicker :: "i64 option"
  ph_waitTicker :: "i64 option"
  ph_waitTicker2 :: "i64 option"
  ph_disconnTimer :: "i64 option"
  ph_run :: run_state
  ph_recv :: recv_state
  ph_tasks :: "hd_task list"

datatype hd_effect =
    UdpWrite "udp_addr option" "u8 list"
  | PutState chan peer_state_change
  | PutResult chan net_result

datatype hd_event =
    HdSend "u8 list" "p2p_peer option"
  | HdConnect
  | HdPacket "u8 list" udp_addr
  | HdMsg
  | HdWaitTick
  | HdWaitTick2
  | HdPingTick
  | HdDisconn
  | HdCtrl
  | HdTask nat

definition NewNaiveP2PHandler :: "node_id \<Rightarrow> u8 list \<Rightarrow> i64 \<Rightarrow> p2p_handler" where
  "NewNaiveP2PHandler srcId pubIp pubPort =
     \<lparr>ph_srcId = srcId, ph_dstId = replicate 20 0, ph_dstAddr = None, ph_pubIp = pubIp, ph_pubPort = pubPort,
      ph_state = ST_WAIT, ph_recvChan = None, ph_stateChan = None, ph_pingTicker = None, ph_waitTicker = None,
      ph_waitTicker2 = None, ph_disconnTimer = None, ph_run = RunIdle, ph_recv = RecvEnded, ph_tasks = []\<rparr>"

subsection \<open>Methods\<close>

definition hd_SetChannel :: "chan \<Rightarrow> chan \<Rightarrow> p2p_handler \<Rightarrow> p2p_handler" where
  "hd_SetChannel recvChan stateChan h = h\<lparr>ph_recvChan := Some recvChan, ph_stateChan := Some stateChan\<rparr>"

definition hd_Init :: "udp_addr option \<Rightarrow> node_id \<Rightarrow> p2p_handler \<Rightarrow> p2p_handler" where
  "hd_Init dstAddr dstId h = h\<lparr>ph_dstAddr := dstAddr, ph_dstId := dstId\<rparr>"

definition hd_Start :: "bool \<Rightarrow> p2p_handler \<Rightarrow> p2p_handler" where
  "hd_Start isStatic h =
     (if isStatic then
        h\<lparr>ph_disconnTimer := None, ph_waitTicker := None, ph_waitTicker2 := None, ph_pingTicker := None,
          ph_state := ST_CONN, ph_run := RunStatic, ph_recv := RecvReading\<rparr>
      else
        h\<lparr>ph_disconnTimer := Some (seconds 100), ph_waitTicker := Some (seconds 10), ph_waitTicker2 := None,
          ph_pingTicker := None, ph_state := ST_WAIT, ph_run := RunDynamic, ph_recv := RecvReading\<rparr>)"

definition hd_ReadyToSend :: "p2p_handler \<Rightarrow> bool" where
  "hd_ReadyToSend h \<longleftrightarrow> ph_state h \<noteq> ST_DISCONN \<and> ph_dstAddr h \<noteq> None"

definition hd_GenConnMsg :: "p2p_handler \<Rightarrow> p2p_conn_msg" where
  "hd_GenConnMsg h = \<lparr>cm_SrcIP = ph_pubIp h, cm_SrcPort = ph_pubPort h\<rparr>"

text \<open>\<open>send\<close>: the packet goes to the peer that is named, or else to the handler's destination.\<close>

definition hd_send :: "u8 list \<Rightarrow> u8 \<Rightarrow> p2p_peer option \<Rightarrow> p2p_handler \<Rightarrow> hd_effect go" where
  "hd_send data tp peer h = (case peer of
       Some p \<Rightarrow> and_then (encode_with p2p_msg_c (p2p_packet (ph_srcId h) (pe_PeerId p) tp data)) (\<lambda>pdata.
         Inr (UdpWrite (pe_PeerIp p) pdata))
     | None \<Rightarrow> and_then (encode_with p2p_msg_c (p2p_packet (ph_srcId h) (ph_dstId h) tp data)) (\<lambda>pdata.
         Inr (UdpWrite (ph_dstAddr h) pdata)))"

definition hd_ping :: "p2p_handler \<Rightarrow> hd_effect go" where
  "hd_ping h = hd_send [] PM_PING None h"

definition add_hd_task :: "hd_task \<Rightarrow> p2p_handler \<Rightarrow> p2p_handler" where
  "add_hd_task t h = h\<lparr>ph_tasks := ph_tasks h @ [t]\<rparr>"

text \<open>One datagram for the goroutine of \<open>recv\<close>; the buffer has \<open>P2P_PACK_SZIE\<close> bytes.\<close>

definition hd_recv :: "u8 list \<Rightarrow> udp_addr \<Rightarrow> p2p_handler \<Rightarrow> p2p_handler go" where
  "hd_recv packet addr h =
     and_then (decode_with p2p_msg_c (take P2P_PACK_SZIE packet)) (\<lambda>msg.
       if pm_DstId msg \<noteq> ph_srcId h then Inr h
       else if ph_state h = ST_DISCONN then Inr (h\<lparr>ph_recv := RecvEnded\<rparr>)
       else
         (let h1 = h\<lparr>ph_disconnTimer := Some (seconds 100)\<rparr> in
          if pm_Type msg = PM_PING then
            Inr ((if ph_state h = ST_PING
                  then add_hd_task (TellState None) (h1\<lparr>ph_waitTicker2 := None, ph_state := ST_CONN\<rparr>)
                  else h1)\<lparr>ph_recv := RecvValue None\<rparr>)
          else Inr (h1\<lparr>ph_recv := RecvValue (Some \<lparr>nr_SrcId = pm_SrcId msg, nr_Data = pm_Data msg,
                                                  nr_SrcAddr = addr\<rparr>)\<rparr>)))"

text \<open>A value of the goroutine reaches the loop, which starts the next one.\<close>

definition hd_msg :: "p2p_handler \<Rightarrow> p2p_handler" where
  "hd_msg h = (case ph_recv h of
       RecvValue (Some r) \<Rightarrow> add_hd_task (GiveResult r) (h\<lparr>ph_recv := RecvReading\<rparr>)
     | RecvValue None \<Rightarrow> h\<lparr>ph_recv := RecvReading\<rparr>
     | _ \<Rightarrow> h)"

fun hd_give :: "hd_task \<Rightarrow> p2p_handler \<Rightarrow> hd_effect list" where
  "hd_give (TellState st) h = (case ph_stateChan h of None \<Rightarrow> []
     | Some c \<Rightarrow> [PutState c \<lparr>sc_PeerId = ph_dstId h, sc_State = (case st of None \<Rightarrow> ph_state h | Some s \<Rightarrow> s)\<rparr>])"
| "hd_give (GiveResult r) h = (case ph_recvChan h of None \<Rightarrow> [] | Some c \<Rightarrow> [PutResult c r])"

definition hd_task :: "nat \<Rightarrow> p2p_handler \<Rightarrow> hd_effect list \<times> p2p_handler" where
  "hd_task n h = (if n < length (ph_tasks h)
     then (hd_give (ph_tasks h ! n) h, h\<lparr>ph_tasks := take n (ph_tasks h) @ drop (Suc n) (ph_tasks h)\<rparr>)
     else ([], h))"

subsection \<open>\<open>run\<close>\<close>

fun hd_static :: "hd_event \<Rightarrow> p2p_handler \<Rightarrow> (hd_effect list \<times> p2p_handler) go" where
  "hd_static HdMsg h = Inr ([], hd_msg h)"
| "hd_static (HdSend data peer) h = and_then (hd_send data PM_NET peer h) (\<lambda>eff. Inr ([eff], h))"
| "hd_static HdCtrl h = Inr ([], h\<lparr>ph_run := RunDone\<rparr>)"
| "hd_static _ h = Inr ([], h)"

fun hd_dynamic :: "hd_event \<Rightarrow> p2p_handler \<Rightarrow> (hd_effect list \<times> p2p_handler) go" where
  "hd_dynamic (HdSend data peer) h =
     and_then (hd_send data PM_NET None h) (\<lambda>eff. Inr ([eff], h\<lparr>ph_pingTicker := Some (seconds 10)\<rparr>))"
| "hd_dynamic HdConnect h = Inr ([],
     if ph_state h = ST_WAIT then
       h\<lparr>ph_waitTicker := None, ph_waitTicker2 := Some (seconds 20), ph_pingTicker := Some (seconds 10),
         ph_disconnTimer := Some (seconds 100), ph_state := ST_PING\<rparr>
     else h)"
| "hd_dynamic HdMsg h = Inr ([], hd_msg h)"
| "hd_dynamic HdWaitTick h = Inr ([], add_hd_task (TellState (Some ST_WAIT)) h)"
| "hd_dynamic HdWaitTick2 h = Inr ([], add_hd_task (TellState (Some ST_PING)) h)"
| "hd_dynamic HdPingTick h = and_then (hd_ping h) (\<lambda>eff. Inr ([eff], h))"
| "hd_dynamic HdDisconn h = Inr ([], add_hd_task (TellState None)
     (h\<lparr>ph_state := ST_DISCONN, ph_waitTicker := None, ph_waitTicker2 := None, ph_pingTicker := None,
        ph_disconnTimer := None\<rparr>))"
| "hd_dynamic HdCtrl h = Inr ([], h\<lparr>ph_pingTicker := None, ph_waitTicker := None, ph_waitTicker2 := None,
     ph_disconnTimer := None, ph_run := RunDone\<rparr>)"
| "hd_dynamic _ h = Inr ([], h)"

fun hd_step :: "hd_event \<Rightarrow> p2p_handler \<Rightarrow> (hd_effect list \<times> p2p_handler) go" where
  "hd_step (HdPacket packet addr) h =
     (if ph_recv h = RecvReading then and_then (hd_recv packet addr h) (\<lambda>h'. Inr ([], h')) else Inr ([], h))"
| "hd_step (HdTask n) h = Inr (hd_task n h)"
| "hd_step ev h = (case ph_run h of
     RunStatic \<Rightarrow> hd_static ev h | RunDynamic \<Rightarrow> hd_dynamic ev h | _ \<Rightarrow> Inr ([], h))"

subsection \<open>The pool\<close>

text \<open>Handlers are pointers; a new one is made by \<open>fresh\<close>. \<open>Set\<close> says whether it disposed of the handler.\<close>

record handler_pool =
  hp_id :: node_id
  hp_pooledCnt :: i64
  hp_maxPooledCnt :: i64
  hp_pool :: "nat list"

definition NewNaiveP2PHandlerPool :: "node_id \<Rightarrow> i64 \<Rightarrow> i64 \<Rightarrow> nat list \<Rightarrow> handler_pool" where
  "NewNaiveP2PHandlerPool i pooledCnt maxPooledCnt fresh =
     \<lparr>hp_id = i, hp_pooledCnt = pooledCnt, hp_maxPooledCnt = maxPooledCnt,
      hp_pool = fold (#) (take (nat (sint pooledCnt)) fresh) []\<rparr>"

definition pool_Get :: "handler_pool \<Rightarrow> nat option \<times> handler_pool" where
  "pool_Get p = (case hp_pool p of [] \<Rightarrow> (None, p) | h # hs \<Rightarrow> (Some h, p\<lparr>hp_pool := hs\<rparr>))"

definition pool_Set :: "nat \<Rightarrow> handler_pool \<Rightarrow> bool \<times> handler_pool" where
  "pool_Set h p = (if int (length (hp_pool p)) = sint (hp_maxPooledCnt p) then (True, p)
     else (False, p\<lparr>hp_pool := h # hp_pool p\<rparr>))"

subsection \<open>States and timers\<close>

fun p2p_rank :: "p2p_state \<Rightarrow> nat" where
  "p2p_rank ST_WAIT = 0" | "p2p_rank ST_PING = 1" | "p2p_rank ST_CONN = 2" | "p2p_rank ST_DISCONN = 3"

lemma p2p_rank_inject [simp]: "p2p_rank s = p2p_rank t \<longleftrightarrow> s = t"
  by (cases s; cases t) simp_all

text \<open>The states in the order in which a handler goes through them.\<close>

instantiation p2p_state :: linorder
begin

definition less_eq_p2p_state :: "p2p_state \<Rightarrow> p2p_state \<Rightarrow> bool" where
  "less_eq_p2p_state s t \<longleftrightarrow> p2p_rank s \<le> p2p_rank t"

definition less_p2p_state :: "p2p_state \<Rightarrow> p2p_state \<Rightarrow> bool" where
  "less_p2p_state s t \<longleftrightarrow> p2p_rank s < p2p_rank t"

instance
  by intro_classes (auto simp: less_eq_p2p_state_def less_p2p_state_def)

end

definition hd_inv :: "p2p_handler \<Rightarrow> bool" where
  "hd_inv h \<longleftrightarrow> (ph_run h = RunDynamic \<longrightarrow>
       (ph_waitTicker h \<noteq> None \<longleftrightarrow> ph_state h = ST_WAIT)
     \<and> (ph_waitTicker2 h \<noteq> None \<longleftrightarrow> ph_state h = ST_PING)
     \<and> (ph_state h = ST_PING \<or> ph_state h = ST_CONN \<longrightarrow> ph_pingTicker h \<noteq> None)
     \<and> (ph_disconnTimer h \<noteq> None \<longleftrightarrow> ph_state h \<noteq> ST_DISCONN))"

text \<open>The step of the \<open>recv\<close> goroutine, by cases.\<close>

lemma hd_recv_cases:
  assumes "hd_recv packet addr h = Inr h'"
  obtains (other) "h' = h" | (ended) "ph_state h = ST_DISCONN" "h' = h\<lparr>ph_recv := RecvEnded\<rparr>"
  | (connected) msg where "ph_state h = ST_PING" "decode_with p2p_msg_c (take P2P_PACK_SZIE packet) = Inr msg"
      "pm_DstId msg = ph_srcId h" "pm_Type msg = PM_PING"
      "h' = h\<lparr>ph_disconnTimer := Some (seconds 100), ph_waitTicker2 := None, ph_state := ST_CONN,
         ph_tasks := ph_tasks h @ [TellState None], ph_recv := RecvValue None\<rparr>"
  | (alive) v where "ph_state h \<noteq> ST_DISCONN" "h' = h\<lparr>ph_disconnTimer := Some (seconds 100), ph_recv := RecvValue v\<rparr>"
proof -
  obtain msg where d: "decode_with p2p_msg_c (take P2P_PACK_SZIE packet) = Inr msg"
    using p2p_msg.decode_total by blast
  show thesis
  proof (cases "pm_DstId msg = ph_srcId h \<and> ph_state h \<noteq> ST_DISCONN")
    case addressed: True
    show thesis
    proof (cases "pm_Type msg = PM_PING \<and> ph_state h = ST_PING")
      case True
      then have "h' = h\<lparr>ph_disconnTimer := Some (seconds 100), ph_waitTicker2 := None, ph_state := ST_CONN,
         ph_tasks := ph_tasks h @ [TellState None], ph_recv := RecvValue None\<rparr>"
        using assms d addressed by (simp add: hd_recv_def add_hd_task_def Let_def)
      then show thesis using connected [of msg] d addressed True by blast
    next
      case False
      have "\<exists>v. h' = h\<lparr>ph_disconnTimer := Some (seconds 100), ph_recv := RecvValue v\<rparr>"
      proof (cases "pm_Type msg = PM_PING")
        case ping: True
        have "h' = h\<lparr>ph_disconnTimer := Some (seconds 100), ph_recv := RecvValue None\<rparr>"
          using assms d addressed ping False by (simp add: hd_recv_def Let_def)
        then show ?thesis by blast
      next
        case False
        have "h' = h\<lparr>ph_disconnTimer := Some (seconds 100), ph_recv := RecvValue (Some
            \<lparr>nr_SrcId = pm_SrcId msg, nr_Data = pm_Data msg, nr_SrcAddr = addr\<rparr>)\<rparr>"
          using assms d addressed False by (simp add: hd_recv_def Let_def)
        then show ?thesis by blast
      qed
      then show thesis using addressed alive by blast
    qed
  next
    case False
    then have "h' = h \<or> ph_state h = ST_DISCONN \<and> h' = h\<lparr>ph_recv := RecvEnded\<rparr>"
      using assms d by (simp add: hd_recv_def split: if_splits)
    then show thesis using other ended by blast
  qed
qed

lemma hd_msg_sel [simp]:
  "ph_state (hd_msg h) = ph_state h" "ph_run (hd_msg h) = ph_run h" "ph_waitTicker (hd_msg h) = ph_waitTicker h"
  "ph_waitTicker2 (hd_msg h) = ph_waitTicker2 h" "ph_pingTicker (hd_msg h) = ph_pingTicker h"
  "ph_disconnTimer (hd_msg h) = ph_disconnTimer h"
  by (auto simp: hd_msg_def add_hd_task_def split: recv_state.split option.split)

lemma hd_task_sel [simp]:
  "ph_state (snd (hd_task n h)) = ph_state h" "ph_run (snd (hd_task n h)) = ph_run h"
  "ph_waitTicker (snd (hd_task n h)) = ph_waitTicker h" "ph_waitTicker2 (snd (hd_task n h)) = ph_waitTicker2 h"
  "ph_pingTicker (snd (hd_task n h)) = ph_pingTicker h" "ph_disconnTimer (snd (hd_task n h)) = ph_disconnTimer h"
  by (simp_all add: hd_task_def)

lemma hd_step_inv:
  assumes "hd_step ev h = Inr (effs, h')" and "hd_inv h"
  shows "hd_inv h'"
proof (cases ev)
  case (HdPacket packet addr)
  then have "h' = h \<or> hd_recv packet addr h = Inr h'" using assms(1) by (auto simp: and_then_Inr_iff split: if_splits)
  then show ?thesis
  proof
    assume "hd_recv packet addr h = Inr h'"
    then show ?thesis using assms(2) by (cases rule: hd_recv_cases) (auto simp: hd_inv_def)
  qed (use assms(2) in simp)
next
  case (HdTask n)
  then have "h' = snd (hd_task n h)" using assms(1) by simp
  then show ?thesis using assms(2) by (simp add: hd_inv_def)
next
  case (HdSend data peer)
  then have "h' = h \<or> ph_run h = RunDynamic \<and> h' = h\<lparr>ph_pingTicker := Some (seconds 10)\<rparr>"
    using assms(1) by (cases "ph_run h") (auto simp: and_then_Inr_iff)
  then show ?thesis using assms(2) by (elim disjE conjE) (simp_all add: hd_inv_def)
next
  case HdConnect
  then show ?thesis using assms by (cases "ph_run h") (auto simp: hd_inv_def split: if_splits)
next
  case HdPingTick
  then have "h' = h" using assms(1) by (cases "ph_run h") (auto simp: and_then_Inr_iff)
  then show ?thesis using assms(2) by simp
next
  case HdMsg
  then have "h' = h \<or> h' = hd_msg h" using assms(1) by (cases "ph_run h") auto
  then show ?thesis using assms(2) by (auto simp: hd_inv_def)
next
  case HdWaitTick
  then have "h' = h \<or> h' = add_hd_task (TellState (Some ST_WAIT)) h" using assms(1) by (cases "ph_run h") auto
  then show ?thesis using assms(2) by (auto simp: hd_inv_def add_hd_task_def)
next
  case HdWaitTick2
  then have "h' = h \<or> h' = add_hd_task (TellState (Some ST_PING)) h" using assms(1) by (cases "ph_run h") auto
  then show ?thesis using assms(2) by (auto simp: hd_inv_def add_hd_task_def)
next
  case HdDisconn
  then have "h' = h \<or> h' = add_hd_task (TellState None) (h\<lparr>ph_state := ST_DISCONN, ph_waitTicker := None,
      ph_waitTicker2 := None, ph_pingTicker := None, ph_disconnTimer := None\<rparr>)"
    using assms(1) by (cases "ph_run h") (auto simp: add_hd_task_def)
  then show ?thesis using assms(2) by (elim disjE) (simp_all add: hd_inv_def add_hd_task_def)
next
  case HdCtrl
  then have "h' = h \<or> ph_run h' = RunDone" using assms(1) by (cases "ph_run h") auto
  then show ?thesis using assms(2) by (elim disjE) (simp_all add: hd_inv_def)
qed

lemma hd_step_state:
  assumes "hd_step ev h = Inr (effs, h')" and "ph_state h' \<noteq> ph_state h"
  shows "(ev = HdConnect \<and> ph_run h = RunDynamic \<and> ph_state h = ST_WAIT \<and> ph_state h' = ST_PING)
    \<or> (ev = HdDisconn \<and> ph_run h = RunDynamic \<and> ph_state h' = ST_DISCONN)
    \<or> (\<exists>packet addr msg. ev = HdPacket packet addr \<and> decode_with p2p_msg_c (take P2P_PACK_SZIE packet) = Inr msg
         \<and> pm_DstId msg = ph_srcId h \<and> pm_Type msg = PM_PING \<and> ph_state h = ST_PING \<and> ph_state h' = ST_CONN
         \<and> ph_tasks h' = ph_tasks h @ [TellState None])"
proof (cases ev)
  case (HdPacket packet addr)
  then have "hd_recv packet addr h = Inr h'" using assms by (auto simp: and_then_Inr_iff split: if_splits)
  then show ?thesis using assms(2) HdPacket by (cases rule: hd_recv_cases) auto
next
  case (HdTask n)
  then have "h' = snd (hd_task n h)" using assms(1) by simp
  then show ?thesis using assms(2) by simp
next
  case (HdSend data peer)
  then have "ph_state h' = ph_state h" using assms(1) by (cases "ph_run h") (auto simp: and_then_Inr_iff)
  then show ?thesis using assms(2) by simp
next
  case HdConnect
  then show ?thesis using assms by (cases "ph_run h") (auto split: if_splits)
next
  case HdPingTick
  then have "h' = h" using assms(1) by (cases "ph_run h") (auto simp: and_then_Inr_iff)
  then show ?thesis using assms(2) by simp
next
  case HdMsg
  then have "ph_state h' = ph_state h" using assms(1) by (cases "ph_run h") auto
  then show ?thesis using assms(2) by simp
next
  case HdWaitTick
  then have "ph_state h' = ph_state h" using assms(1) by (cases "ph_run h") (auto simp: add_hd_task_def)
  then show ?thesis using assms(2) by simp
next
  case HdWaitTick2
  then have "ph_state h' = ph_state h" using assms(1) by (cases "ph_run h") (auto simp: add_hd_task_def)
  then show ?thesis using assms(2) by simp
next
  case HdDisconn
  then show ?thesis using assms by (cases "ph_run h") (auto simp: add_hd_task_def)
next
  case HdCtrl
  then have "ph_state h' = ph_state h" using assms(1) by (cases "ph_run h") auto
  then show ?thesis using assms(2) by simp
qed

inductive hd_reach :: "p2p_handler \<Rightarrow> p2p_handler \<Rightarrow> bool" for h0 where
  hd_start: "hd_reach h0 h0"
| hd_next: "hd_reach h0 h \<Longrightarrow> hd_step ev h = Inr (effs, h') \<Longrightarrow> hd_reach h0 h'"

lemma hd_reach_inv: "hd_reach h0 h \<Longrightarrow> hd_inv h0 \<Longrightarrow> hd_inv h"
  by (induction rule: hd_reach.induct) (auto intro: hd_step_inv)

lemma hd_reach_forward: "hd_reach h0 h \<Longrightarrow> ph_state h0 \<le> ph_state h"
proof (induction rule: hd_reach.induct)
  case (hd_next h ev effs h')
  have "ph_state h \<le> ph_state h'"
    using hd_step_state [OF hd_next.hyps(2)]
    by (cases "ph_state h' = ph_state h"; cases "ph_state h") (auto simp: less_eq_p2p_state_def)
  then show ?case using hd_next.IH by (rule order_trans [rotated])
qed simp



subsection \<open>Two handlers\<close>

lemma p2p_packet_sel [simp]:
  "pm_SrcId (p2p_packet s d t b) = s" "pm_DstId (p2p_packet s d t b) = d" "pm_Type (p2p_packet s d t b) = t"
  "pm_Data (p2p_packet s d t b) = b" "pm_Digest (p2p_packet s d t b) = []" "pm_Sign (p2p_packet s d t b) = []"
  by (simp_all add: p2p_packet_def)

text \<open>Up to 8 bytes more than \<open>NETMSG_PACK_SIZE\<close> get through the buffer of the receiver.\<close>

lemma packet_received:
  assumes "bytes20 s" and "bytes20 d" and "length data \<le> NETMSG_PACK_SIZE + 8"
  obtains bs where "encode_with p2p_msg_c (p2p_packet s d t data) = Inr bs"
    "decode_with p2p_msg_c (take P2P_PACK_SZIE bs) = Inr (p2p_packet s d t data)"
proof -
  have len: "length data \<le> 979" using assms(3) by (simp add: NETMSG_PACK_SIZE_def P2P_PACK_SZIE_def)
  then have wf: "c_wf p2p_msg_c (p2p_packet s d t data)" using assms(1,2) by simp
  then obtain bs where bs: "encode_with p2p_msg_c (p2p_packet s d t data) = Inr bs"
    using p2p_msg.encode_total by blast
  have "length bs = 53 + length data"
    using encode_with_length [OF p2p_msg_lawful wf bs] assms(1,2) by (simp add: vlen_p2p_msg)
  then have "length bs - P2P_PACK_SZIE \<le> 8" using len by (simp add: P2P_PACK_SZIE_def)
  from p2p_msg_cut [OF wf _ _ bs this]
  have "decode_with p2p_msg_c (take (length bs - (length bs - P2P_PACK_SZIE)) bs) = Inr (p2p_packet s d t data)" by simp
  moreover have "take (length bs - (length bs - P2P_PACK_SZIE)) bs = take P2P_PACK_SZIE bs"
    by (cases "P2P_PACK_SZIE \<le> length bs") simp_all
  ultimately show thesis using that bs by simp
qed

text \<open>The ping of a handler connects its counterpart: what it writes at a tick of its ping ticker
  makes the handler at the other end, when that one pings too, go to \<open>ST_CONN\<close>, stop its second wait
  ticker and report the connection on its state channel.\<close>
theorem ping_connects_counterpart:
  assumes "bytes20 (ph_srcId A)" and "bytes20 (ph_srcId B)" and "ph_dstId A = ph_srcId B" and "ph_run A = RunDynamic"
    and "ph_state B = ST_PING" and "ph_recv B = RecvReading" and "ph_stateChan B = Some c"
  shows "\<exists>packet B1 B2. hd_step HdPingTick A = Inr ([UdpWrite (ph_dstAddr A) packet], A)
    \<and> hd_step (HdPacket packet addr) B = Inr ([], B1) \<and> ph_state B1 = ST_CONN \<and> ph_waitTicker2 B1 = None
    \<and> hd_step (HdTask (length (ph_tasks B))) B1
        = Inr ([PutState c \<lparr>sc_PeerId = ph_dstId B, sc_State = ST_CONN\<rparr>], B2)
    \<and> ph_tasks B2 = ph_tasks B"
proof -
  obtain bs where bs: "encode_with p2p_msg_c (p2p_packet (ph_srcId A) (ph_srcId B) PM_PING []) = Inr bs"
    "decode_with p2p_msg_c (take P2P_PACK_SZIE bs) = Inr (p2p_packet (ph_srcId A) (ph_srcId B) PM_PING [])"
    by (rule packet_received [OF assms(1,2), of "[]" PM_PING]) simp
  let ?B1 = "B\<lparr>ph_disconnTimer := Some (seconds 100), ph_waitTicker2 := None, ph_state := ST_CONN,
     ph_tasks := ph_tasks B @ [TellState None], ph_recv := RecvValue None\<rparr>"
  have "hd_recv bs addr B = Inr ?B1"
    using bs(2) assms(5) by (simp add: hd_recv_def add_hd_task_def Let_def)
  then have "hd_step (HdPacket bs addr) B = Inr ([], ?B1)" using assms(6) by simp
  moreover have "hd_step HdPingTick A = Inr ([UdpWrite (ph_dstAddr A) bs], A)"
    using bs(1) assms(3,4) by (simp add: hd_ping_def hd_send_def)
  moreover have "hd_step (HdTask (length (ph_tasks B))) ?B1
      = Inr ([PutState c \<lparr>sc_PeerId = ph_dstId B, sc_State = ST_CONN\<rparr>], ?B1\<lparr>ph_tasks := ph_tasks B\<rparr>)"
    using assms(7) by (simp add: hd_task_def)
  ultimately show ?thesis
    by (intro exI [of _ bs] exI [of _ ?B1] exI [of _ "?B1\<lparr>ph_tasks := ph_tasks B\<rparr>"]) simp
qed

text \<open>C24: What a dynamic handler sends reaches the channel of its counterpart: the data that fits a
  datagram arrive, with the sender's id and address, on the receive channel of the handler at the
  other end, which then reads the next datagram. That a handler has not yet been pinged does not
  matter, only that it is not disconnected.\<close>
theorem data_reaches_counterpart:
  assumes "bytes20 (ph_srcId A)" and "bytes20 (ph_srcId B)" and "ph_dstId A = ph_srcId B" and "ph_run A = RunDynamic"
    and "ph_state B \<noteq> ST_DISCONN" and "ph_recv B = RecvReading" and "ph_run B = RunStatic \<or> ph_run B = RunDynamic"
    and "ph_recvChan B = Some c" and "length data \<le> NETMSG_PACK_SIZE + 8"
  shows "\<exists>packet A' B1 B2 B3. hd_step (HdSend data None) A = Inr ([UdpWrite (ph_dstAddr A) packet], A')
    \<and> hd_step (HdPacket packet addr) B = Inr ([], B1) \<and> hd_step HdMsg B1 = Inr ([], B2)
    \<and> hd_step (HdTask (length (ph_tasks B))) B2
        = Inr ([PutResult c \<lparr>nr_SrcId = ph_srcId A, nr_Data = data, nr_SrcAddr = addr\<rparr>], B3)
    \<and> ph_tasks B3 = ph_tasks B \<and> ph_recv B3 = RecvReading \<and> ph_state B3 = ph_state B"
proof -
  obtain bs where bs: "encode_with p2p_msg_c (p2p_packet (ph_srcId A) (ph_srcId B) PM_NET data) = Inr bs"
    "decode_with p2p_msg_c (take P2P_PACK_SZIE bs) = Inr (p2p_packet (ph_srcId A) (ph_srcId B) PM_NET data)"
    by (rule packet_received [OF assms(1,2,9), of PM_NET])
  let ?r = "\<lparr>nr_SrcId = ph_srcId A, nr_Data = data, nr_SrcAddr = addr\<rparr>"
  let ?B1 = "B\<lparr>ph_disconnTimer := Some (seconds 100), ph_recv := RecvValue (Some ?r)\<rparr>"
  let ?B2 = "?B1\<lparr>ph_recv := RecvReading, ph_tasks := ph_tasks B @ [GiveResult ?r]\<rparr>"
  have "hd_step (HdSend data None) A
      = Inr ([UdpWrite (ph_dstAddr A) bs], A\<lparr>ph_pingTicker := Some (seconds 10)\<rparr>)"
    using bs(1) assms(3,4) by (simp add: hd_send_def)
  moreover have "hd_recv bs addr B = Inr ?B1"
    using bs(2) assms(5) by (simp add: hd_recv_def Let_def PM_PING_def PM_NET_def)
  then have "hd_step (HdPacket bs addr) B = Inr ([], ?B1)" using assms(6) by simp
  moreover have "hd_step HdMsg ?B1 = Inr ([], ?B2)"
    using assms(7) by (auto simp: hd_msg_def add_hd_task_def)
  moreover have "hd_step (HdTask (length (ph_tasks B))) ?B2 = Inr ([PutResult c ?r], ?B2\<lparr>ph_tasks := ph_tasks B\<rparr>)"
    using assms(8) by (simp add: hd_task_def)
  ultimately show ?thesis
    by (intro exI [of _ bs] exI [of _ "A\<lparr>ph_pingTicker := Some (seconds 10)\<rparr>"] exI [of _ ?B1] exI [of _ ?B2]
        exI [of _ "?B2\<lparr>ph_tasks := ph_tasks B\<rparr>"]) simp
qed

subsection \<open>Witnesses\<close>

definition demo_hd :: "u8 \<Rightarrow> u8 \<Rightarrow> p2p_handler" where
  "demo_hd src dst = hd_Start False (hd_Init (Some \<lparr>ua_IP = [127, 0, 0, dst], ua_Port = 5000\<rparr>) (replicate 20 dst)
     (hd_SetChannel 1 2 (NewNaiveP2PHandler (replicate 20 src) [127, 0, 0, src] 5000)))"

definition demo_pinging :: "u8 \<Rightarrow> u8 \<Rightarrow> p2p_handler" where
  "demo_pinging src dst = (demo_hd src dst)\<lparr>ph_waitTicker := None, ph_waitTicker2 := Some (seconds 20),
     ph_pingTicker := Some (seconds 10), ph_disconnTimer := Some (seconds 100), ph_state := ST_PING\<rparr>"

lemma demo_hd_sel [simp]:
  "ph_srcId (demo_hd s d) = replicate 20 s" "ph_dstId (demo_hd s d) = replicate 20 d" "ph_run (demo_hd s d) = RunDynamic"
  "ph_state (demo_hd s d) = ST_WAIT" "ph_recv (demo_hd s d) = RecvReading" "ph_stateChan (demo_hd s d) = Some 2"
  "ph_recvChan (demo_hd s d) = Some 1" "ph_tasks (demo_hd s d) = []"
  "ph_srcId (demo_pinging s d) = replicate 20 s" "ph_dstId (demo_pinging s d) = replicate 20 d"
  "ph_run (demo_pinging s d) = RunDynamic" "ph_state (demo_pinging s d) = ST_PING"
  "ph_recv (demo_pinging s d) = RecvReading" "ph_stateChan (demo_pinging s d) = Some 2" "ph_tasks (demo_pinging s d) = []"
  by (simp_all add: demo_hd_def demo_pinging_def hd_Start_def hd_Init_def hd_SetChannel_def NewNaiveP2PHandler_def)

lemma demo_pinging_step: "hd_step HdConnect (demo_hd s d) = Inr ([], demo_pinging s d)"
  by (simp add: demo_pinging_def)

lemma demo_pinging_reach: "hd_reach (demo_hd s d) (demo_pinging s d)"
  by (rule hd_next [OF hd_start demo_pinging_step])


lemma ping_connects_counterpart_witness:
  "\<exists>packet B1. hd_step (HdPacket packet \<lparr>ua_IP = [127, 0, 0, 1], ua_Port = 5000\<rparr>) (demo_pinging 2 1) = Inr ([], B1)
    \<and> ph_state B1 = ST_CONN"
  using ping_connects_counterpart [of "demo_pinging 1 2" "demo_pinging 2 1" 2 "\<lparr>ua_IP = [127, 0, 0, 1], ua_Port = 5000\<rparr>"]
  by auto


lemma data_reaches_counterpart_witness:
  "\<exists>packet B1 B2 B3. hd_step (HdPacket packet \<lparr>ua_IP = [127, 0, 0, 1], ua_Port = 5000\<rparr>) (demo_hd 2 1) = Inr ([], B1)
    \<and> hd_step HdMsg B1 = Inr ([], B2)
    \<and> hd_step (HdTask 0) B2 = Inr ([PutResult 1 \<lparr>nr_SrcId = replicate 20 1, nr_Data = [4, 2],
         nr_SrcAddr = \<lparr>ua_IP = [127, 0, 0, 1], ua_Port = 5000\<rparr>\<rparr>], B3)"
  using data_reaches_counterpart [of "demo_hd 1 2" "demo_hd 2 1" 1 "[4, 2]" "\<lparr>ua_IP = [127, 0, 0, 1], ua_Port = 5000\<rparr>"]
  by (simp add: NETMSG_PACK_SIZE_def P2P_PACK_SZIE_def) blast

end
