(* ===== verification/Kad_DHT.thy ===== *)
theory Kad_DHT
  imports Common_Defs "HOL-Library.Log_Nat"
begin

text \<open>
  The Kademlia-style routing table \<open>KadDHT\<close> of \<open>src/src/net/kad.go\<close>: the distance
  \<open>getKDist\<close>, the buckets and their operations. A node id \<open>[20]byte\<close> is a list of 20 bytes
  (\<open>bytes20\<close>); the buckets hold handler pointers, and \<open>dst\<close> is \<open>GetDstId\<close> of a pointer.
  Shown here: the distance is the bit length of the XOR of the ids and an ultrametric; when
  the bucket index leaves the array of buckets; lookup after insertion, update and removal;
  what \<open>GetK\<close> returns.
\<close>

subsection \<open>The distance\<close>

text \<open>The inner loop \<open>for j := 7; j >= 0; j--\<close> and the outer loop from the last byte down.\<close>

fun scan_bits :: "u8 \<Rightarrow> nat \<Rightarrow> nat option" where
  "scan_bits b 0 = None"
| "scan_bits b (Suc j) = (if 0 < b AND push_bit j 1 then Some j else scan_bits b j)"

fun scan_bytes :: "u8 list \<Rightarrow> nat \<Rightarrow> nat" where
  "scan_bytes diff 0 = 0"
| "scan_bytes diff (Suc i) =
     (if 0 < diff ! i
      then (case scan_bits (diff ! i) 8 of Some j \<Rightarrow> i * 8 + j + 1 | None \<Rightarrow> scan_bytes diff i)
      else scan_bytes diff i)"

definition getKDist :: "node_id \<Rightarrow> node_id \<Rightarrow> nat" where
  "getKDist id1 id2 = scan_bytes (map2 (XOR) id1 id2) (length id1)"

text \<open>The number an id denotes when its last byte is the most significant one.\<close>

fun le_value :: "u8 list \<Rightarrow> nat" where
  "le_value [] = 0"
| "le_value (b # bs) = unat b + 256 * le_value bs"

lemma le_value_append: "le_value (xs @ ys) = le_value xs + 256 ^ length xs * le_value ys"
  by (induction xs) (simp_all add: algebra_simps)

lemma le_value_less: "le_value xs < 256 ^ length xs"
proof (induction xs)
  case (Cons b bs)
  have "unat b + 256 * le_value bs < 256 + 256 * le_value bs" using unat_8_less [of b] by simp
  also have "\<dots> \<le> 256 * 256 ^ length bs" using Cons by simp
  finally show ?case by simp
qed simp

lemma digit_cancel:
  fixes x y b m p :: nat
  assumes "x < b" and "y < b" and "x + b * m = y + b * p"
  shows "x = y \<and> m = p"
proof -
  have "(x + b * m) mod b = x" "(y + b * p) mod b = y"
    "(x + b * m) div b = m" "(y + b * p) div b = p"
    using assms(1,2) by simp_all
  then show ?thesis using assms(3) by metis
qed

lemma le_value_inj: "length xs = length ys \<Longrightarrow> le_value xs = le_value ys \<Longrightarrow> xs = ys"
proof (induction xs ys rule: list_induct2)
  case (Cons x xs y ys)
  have "unat x + 256 * le_value xs = unat y + 256 * le_value ys" using Cons.prems by simp
  then have "unat x = unat y" and "le_value xs = le_value ys"
    using digit_cancel [OF unat_8_less [of x] unat_8_less [of y]] by simp_all
  then show ?case using Cons by (simp add: word_unat_eq_iff)
qed simp

lemma bit_add_shifted:
  fixes x m :: nat
  assumes "x < 2 ^ n"
  shows "bit (x + 2 ^ n * m) k \<longleftrightarrow> (if k < n then bit x k else bit m (k - n))"
proof (cases "k < n")
  case True
  then obtain d where "n = Suc (k + d)" using less_imp_Suc_add by blast
  then have "(x + 2 ^ n * m) div 2 ^ k = (x + 2 ^ k * (2 * (2 ^ d * m))) div 2 ^ k"
    by (simp add: power_add mult.assoc mult.left_commute)
  also have "\<dots> = x div 2 ^ k + 2 * (2 ^ d * m)" by simp
  finally show ?thesis using True by (simp add: bit_iff_odd)
next
  case False
  then have "(2::nat) ^ k = 2 ^ n * 2 ^ (k - n)" by (simp flip: power_add)
  then have "(x + 2 ^ n * m) div 2 ^ k = m div 2 ^ (k - n)"
    using assms by (simp add: div_mult2_eq)
  then show ?thesis using False by (simp add: bit_iff_odd)
qed

lemma xor_add_shifted:
  fixes x y m p :: nat
  assumes "x < 2 ^ n" and "y < 2 ^ n"
  shows "(x + 2 ^ n * m) XOR (y + 2 ^ n * p) = (x XOR y) + 2 ^ n * (m XOR p)"
proof (rule bit_eqI)
  fix k
  have "x XOR y < 2 ^ n"
    using assms by (metis take_bit_nat_eq_self take_bit_nat_less_exp take_bit_xor)
  then show "bit ((x + 2 ^ n * m) XOR (y + 2 ^ n * p)) k
      = bit ((x XOR y) + 2 ^ n * (m XOR p)) k"
    using assms by (simp add: bit_xor_iff bit_add_shifted)
qed

lemma le_value_xor:
  "length xs = length ys \<Longrightarrow> le_value (map2 (XOR) xs ys) = le_value xs XOR le_value ys"
proof (induction xs ys rule: list_induct2)
  case (Cons x xs y ys)
  then show ?case
    using xor_add_shifted [of "unat x" 8 "unat y" "le_value xs" "le_value ys"]
      unat_8_less [of x] unat_8_less [of y] by (simp add: unsigned_xor_eq)
qed simp

text \<open>The loops compute the number of significant bits.\<close>

lemma floorlog_unique:
  assumes "2 ^ m \<le> x" and "x < 2 ^ Suc m"
  shows "floorlog 2 x = Suc m"
proof (rule antisym)
  show "floorlog 2 x \<le> Suc m" using assms(2) by (intro floorlog_leI) simp_all
  show "Suc m \<le> floorlog 2 x" using assms(1) by (intro floorlog_ge_SucI) simp_all
qed

lemma scan_bits_test:
  assumes "j < 8"
  shows "0 < (b :: u8) AND push_bit j 1 \<longleftrightarrow> bit (unat b) j"
proof -
  have "b AND push_bit j 1 = 0 \<longleftrightarrow> \<not> bit b j"
    by (simp add: and_exp_eq_0_iff_not_bit)
  then show ?thesis by (auto simp: word_neq_0_conv bit_unsigned_iff
      word_gt_0 dest: bit_imp_le_length)
qed

lemma scan_bits_eq:
  assumes "n \<le> 8" and "unat (b :: u8) < 2 ^ n"
  shows "scan_bits b n = (if b = 0 then None else Some (floorlog 2 (unat b) - 1))"
  using assms
proof (induction n)
  case 0
  then show ?case by (simp add: unat_eq_zero)
next
  case (Suc j)
  have bit: "0 < b AND push_bit j 1 \<longleftrightarrow> bit (unat b) j"
    using Suc.prems(1) by (intro scan_bits_test) simp
  have "unat b div 2 ^ j < 2"
    using Suc.prems(2) by (simp add: less_mult_imp_div_less)
  then have "bit (unat b) j \<longleftrightarrow> 2 ^ j \<le> unat b"
    using div_greater_zero_iff [of "unat b" "2 ^ j"] by (auto simp: bit_iff_odd less_2_cases_iff)
  then show ?case
  proof (cases "2 ^ j \<le> unat b")
    case True
    then have "floorlog 2 (unat b) = Suc j" using Suc.prems(2) by (rule floorlog_unique)
    moreover have "b \<noteq> 0" using True by auto
    ultimately show ?thesis using bit True \<open>bit (unat b) j \<longleftrightarrow> 2 ^ j \<le> unat b\<close> by simp
  next
    case False
    then show ?thesis using Suc bit \<open>bit (unat b) j \<longleftrightarrow> 2 ^ j \<le> unat b\<close> by simp
  qed
qed

lemma floorlog_shifted:
  assumes "v < 256 ^ n" and "0 < b"
  shows "floorlog 2 (v + 256 ^ n * b) = 8 * n + floorlog 2 b"
proof -
  define m where "m = floorlog 2 b - 1"
  have m: "2 ^ m \<le> b" "b < 2 ^ Suc m" "floorlog 2 b = Suc m"
  proof -
    have "floorlog 2 b \<noteq> 0" using assms(2) by (simp add: floorlog_eq_zero_iff)
    then show "floorlog 2 b = Suc m" by (simp add: m_def)
    then show "2 ^ m \<le> b" "b < 2 ^ Suc m"
      using floorlog_bounds [of b 2] assms(2) by (auto simp: m_def)
  qed
  have p: "(256 :: nat) ^ n = 2 ^ (8 * n)" by (simp add: power_mult)
  have "2 ^ (8 * n + m) \<le> v + 256 ^ n * b"
    using m(1) by (simp add: p power_add trans_le_add2)
  moreover have "v + 256 ^ n * b < 2 ^ Suc (8 * n + m)"
  proof -
    have "v + 256 ^ n * b < 256 ^ n * (b + 1)" using assms(1) by simp
    also have "\<dots> \<le> 256 ^ n * 2 ^ Suc m" using m(2) by (intro mult_le_mono) simp_all
    finally show ?thesis by (simp add: p power_add)
  qed
  ultimately show ?thesis using floorlog_unique m(3) by simp
qed

lemma scan_bytes_eq:
  "n \<le> length diff \<Longrightarrow> scan_bytes diff n = floorlog 2 (le_value (take n diff))"
proof (induction n)
  case 0
  then show ?case by (simp add: floorlog_eq_zero_iff)
next
  case (Suc i)
  let ?b = "diff ! i"
  have v: "le_value (take (Suc i) diff) = le_value (take i diff) + 256 ^ i * unat ?b"
    using Suc.prems by (simp add: take_Suc_conv_app_nth le_value_append)
  show ?case
  proof (cases "?b = 0")
    case True
    then show ?thesis using Suc v by simp
  next
    case False
    then have "0 < unat ?b" by (simp add: unat_gt_0)
    moreover have "le_value (take i diff) < 256 ^ i"
      using le_value_less [of "take i diff"] Suc.prems by simp
    ultimately have "floorlog 2 (le_value (take (Suc i) diff)) = 8 * i + floorlog 2 (unat ?b)"
      using v floorlog_shifted by simp
    moreover have "scan_bits ?b 8 = Some (floorlog 2 (unat ?b) - 1)"
      using scan_bits_eq [of 8 ?b] unat_8_less [of ?b] False by simp
    moreover have "floorlog 2 (unat ?b) \<noteq> 0"
      using \<open>0 < unat ?b\<close> by (simp add: floorlog_eq_zero_iff)
    moreover have "0 < ?b" using False by (simp add: word_neq_0_conv)
    ultimately show ?thesis by simp
  qed
qed

lemma getKDist_eq:
  assumes "length a = length b"
  shows "getKDist a b = floorlog 2 (le_value a XOR le_value b)"
proof -
  have "length (map2 (XOR) a b) = length a" using assms by simp
  then show ?thesis
    using scan_bytes_eq [of "length a" "map2 (XOR) a b"] le_value_xor [OF assms]
    by (simp add: getKDist_def)
qed

subsection \<open>The distance is an ultrametric, and its range\<close>

lemma getKDist_sym: "length a = length b \<Longrightarrow> getKDist a b = getKDist b a"
  by (simp add: getKDist_eq xor.commute)

lemma getKDist_zero:
  assumes "length a = length b"
  shows "getKDist a b = 0 \<longleftrightarrow> a = b"
proof -
  have "le_value a XOR le_value b = 0 \<longleftrightarrow> le_value a = le_value b"
    by (metis xor_self_eq xor.assoc xor.left_neutral)
  then show ?thesis
    using le_value_inj [OF assms] assms by (auto simp: getKDist_eq floorlog_eq_zero_iff)
qed

lemma xor_nat_less:
  fixes x y :: nat
  assumes "x < 2 ^ n" and "y < 2 ^ n"
  shows "x XOR y < 2 ^ n"
  using assms by (metis take_bit_nat_eq_self take_bit_nat_less_exp take_bit_xor)

lemma getKDist_ultra:
  assumes "length a = length b" and "length b = length c"
  shows "getKDist a c \<le> max (getKDist a b) (getKDist b c)"
proof -
  let ?x = "le_value a XOR le_value b" and ?y = "le_value b XOR le_value c"
  let ?m = "max (floorlog 2 ?x) (floorlog 2 ?y)"
  have "?x < 2 ^ ?m" "?y < 2 ^ ?m"
    using floorlog_le_iff [of 2 ?x ?m] floorlog_le_iff [of 2 ?y ?m] by simp_all
  then have "?x XOR ?y < 2 ^ ?m" by (rule xor_nat_less)
  moreover have "?x XOR ?y = le_value a XOR le_value c"
    by (metis xor.assoc xor_self_eq xor.left_neutral)
  ultimately have "floorlog 2 (le_value a XOR le_value c) \<le> ?m"
    by (simp add: floorlog_le_iff)
  then show ?thesis using assms by (simp add: getKDist_eq)
qed

lemma getKDist_le:
  assumes "bytes20 a" and "bytes20 b"
  shows "getKDist a b \<le> 160"
proof -
  have "le_value a < 2 ^ 160" "le_value b < 2 ^ 160"
    using le_value_less [of a] le_value_less [of b] assms by (simp_all add: bytes20_def)
  then have "le_value a XOR le_value b < 2 ^ 160" by (rule xor_nat_less)
  then have "floorlog 2 (le_value a XOR le_value b) \<le> 160"
    by (simp only: floorlog_le_iff) simp
  then show ?thesis using assms by (simp add: getKDist_eq bytes20_def)
qed

text \<open>The distance is 160 exactly when the ids differ in the top bit of their last byte.\<close>

lemma bit_le_value_last:
  assumes "bytes20 a"
  shows "bit (le_value a) 159 \<longleftrightarrow> bit (a ! 19) 7"
proof -
  have "a = take 19 a @ [a ! 19]" using assms
    by (metis Suc_numeral append_take_drop_id hd_drop_conv_nth bytes20_def lessI semiring_norm(5,8)
        take_Suc_conv_app_nth take_all order_refl)
  then have "le_value a = le_value (take 19 a) + 256 ^ 19 * unat (a ! 19)"
    using assms le_value_append [of "take 19 a" "[a ! 19]"] by (simp add: bytes20_def)
  moreover have "(256 :: nat) ^ 19 = 2 ^ 152" by simp
  ultimately have v: "le_value a = le_value (take 19 a) + 2 ^ 152 * unat (a ! 19)" by metis
  have "le_value (take 19 a) < 2 ^ 152"
    using le_value_less [of "take 19 a"] assms by (simp add: bytes20_def)
  from bit_add_shifted [OF this, of "unat (a ! 19)" 159] show ?thesis
    by (simp add: v bit_unsigned_iff)
qed

lemma getKDist_max_iff:
  assumes "bytes20 a" and "bytes20 b"
  shows "getKDist a b = 160 \<longleftrightarrow> bit (a ! 19) 7 \<noteq> bit (b ! 19) 7"
proof -
  let ?x = "le_value a XOR le_value b"
  have "le_value a < 2 ^ 160" "le_value b < 2 ^ 160"
    using le_value_less [of a] le_value_less [of b] assms by (simp_all add: bytes20_def)
  then have x: "?x < 2 ^ 160" by (rule xor_nat_less)
  then have "?x < 2 ^ 159 * 2" by simp
  then have "?x div 2 ^ 159 < 2" by (simp only: less_mult_imp_div_less mult.commute)
  then have "bit ?x 159 \<longleftrightarrow> 2 ^ 159 \<le> ?x"
    using div_greater_zero_iff [of ?x "2 ^ 159"]
    by (auto simp: bit_iff_odd less_2_cases_iff simp del: power_numeral)
  moreover have "getKDist a b = 160 \<longleftrightarrow> 2 ^ 159 \<le> ?x"
  proof -
    have "160 \<le> floorlog 2 ?x \<longleftrightarrow> \<not> floorlog 2 ?x \<le> 159" by auto
    also have "\<dots> \<longleftrightarrow> 2 ^ 159 \<le> ?x" by (simp only: floorlog_le_iff) auto
    finally show ?thesis
      using getKDist_le [OF assms] assms by (auto simp: getKDist_eq bytes20_def)
  qed
  ultimately show ?thesis
    using bit_le_value_last [OF assms(1)] bit_le_value_last [OF assms(2)]
    by (simp add: bit_xor_iff)
qed

subsection \<open>Buckets and their operations\<close>

text \<open>A bucket is a \<open>list.List\<close> of handler pointers, front first. The bucket array has
  \<open>8 * len(id)\<close> entries; every access is checked, as in Go.\<close>

record 'h kad =
  kd_Id :: node_id
  kd_K :: u32
  KBucket :: "'h list list"

definition NewKadDHT :: "node_id \<Rightarrow> u32 \<Rightarrow> 'h kad" where
  "NewKadDHT i k = \<lparr>kd_Id = i, kd_K = k, KBucket = replicate (8 * length i) []\<rparr>"

definition kad_Insert :: "('h \<Rightarrow> node_id) \<Rightarrow> 'h \<Rightarrow> 'h kad \<Rightarrow> 'h kad go" where
  "kad_Insert dst h dn = (let dist = getKDist (dst h) (kd_Id dn) in
     and_then (go_index (KBucket dn) dist) (\<lambda>b.
     and_then (go_store (KBucket dn) dist (h # b)) (\<lambda>bs. Inr (dn\<lparr>KBucket := bs\<rparr>))))"

fun bucket_find :: "('h \<Rightarrow> node_id) \<Rightarrow> node_id \<Rightarrow> 'h list \<Rightarrow> 'h option" where
  "bucket_find dst i [] = None"
| "bucket_find dst i (h # hs) = (if dst h = i then Some h else bucket_find dst i hs)"

definition kad_Get :: "('h \<Rightarrow> node_id) \<Rightarrow> node_id \<Rightarrow> 'h kad \<Rightarrow> 'h option go" where
  "kad_Get dst i dn =
     and_then (go_index (KBucket dn) (getKDist i (kd_Id dn))) (\<lambda>b. Inr (bucket_find dst i b))"

fun bucket_has :: "('h \<Rightarrow> node_id) \<Rightarrow> node_id \<Rightarrow> 'h list \<Rightarrow> bool" where
  "bucket_has dst i [] = False"
| "bucket_has dst i (h # hs) = (if dst h = i then True else bucket_has dst i hs)"

definition kad_Has :: "('h \<Rightarrow> node_id) \<Rightarrow> node_id \<Rightarrow> 'h kad \<Rightarrow> bool go" where
  "kad_Has dst i dn =
     and_then (go_index (KBucket dn) (getKDist i (kd_Id dn))) (\<lambda>b. Inr (bucket_has dst i b))"

text \<open>\<open>seen\<close> holds the nodes the loop has passed; the first match goes to the front.\<close>

fun bucket_to_front :: "('h \<Rightarrow> node_id) \<Rightarrow> node_id \<Rightarrow> 'h list \<Rightarrow> 'h list \<Rightarrow> 'h list" where
  "bucket_to_front dst i seen [] = seen"
| "bucket_to_front dst i seen (h # hs) =
     (if dst h = i then h # seen @ hs else bucket_to_front dst i (seen @ [h]) hs)"

definition kad_Update :: "('h \<Rightarrow> node_id) \<Rightarrow> node_id \<Rightarrow> 'h kad \<Rightarrow> 'h kad go" where
  "kad_Update dst i dn = (let dist = getKDist i (kd_Id dn) in
     and_then (go_index (KBucket dn) dist) (\<lambda>b.
     and_then (go_store (KBucket dn) dist (bucket_to_front dst i [] b)) (\<lambda>bs.
       Inr (dn\<lparr>KBucket := bs\<rparr>))))"

fun bucket_remove :: "('h \<Rightarrow> node_id) \<Rightarrow> node_id \<Rightarrow> 'h list \<Rightarrow> 'h list" where
  "bucket_remove dst i [] = []"
| "bucket_remove dst i (h # hs) = (if dst h = i then hs else h # bucket_remove dst i hs)"

definition kad_Remove :: "('h \<Rightarrow> node_id) \<Rightarrow> node_id \<Rightarrow> 'h kad \<Rightarrow> 'h kad go" where
  "kad_Remove dst i dn = (let dist = getKDist i (kd_Id dn) in
     and_then (go_index (KBucket dn) dist) (\<lambda>b.
     and_then (go_store (KBucket dn) dist (bucket_remove dst i b)) (\<lambda>bs.
       Inr (dn\<lparr>KBucket := bs\<rparr>))))"

text \<open>\<open>GetK\<close>: the inner loop appends and returns (flag \<open>True\<close>) as soon as \<open>len(ret) == K\<close>;
  the outer loop walks the distances downwards.\<close>

fun getk_bucket :: "nat \<Rightarrow> 'h list \<Rightarrow> 'h list \<Rightarrow> bool \<times> 'h list" where
  "getk_bucket k [] ret = (False, ret)"
| "getk_bucket k (h # hs) ret =
     (let ret' = ret @ [h] in if length ret' = k then (True, ret') else getk_bucket k hs ret')"

fun getk_from :: "'h list list \<Rightarrow> nat \<Rightarrow> nat \<Rightarrow> 'h list \<Rightarrow> 'h list go" where
  "getk_from bs k 0 ret = and_then (go_index bs 0) (\<lambda>b. Inr (snd (getk_bucket k b ret)))"
| "getk_from bs k (Suc d) ret = and_then (go_index bs (Suc d)) (\<lambda>b.
     (case getk_bucket k b ret of
        (True, r) \<Rightarrow> Inr r
      | (False, r) \<Rightarrow> getk_from bs k d r))"

definition kad_GetK :: "node_id \<Rightarrow> 'h kad \<Rightarrow> 'h list go" where
  "kad_GetK i dn = getk_from (KBucket dn) (unat (kd_K dn)) (getKDist i (kd_Id dn)) []"

subsection \<open>Bucket lemmas\<close>

lemma bucket_has_find: "bucket_has dst i b \<longleftrightarrow> bucket_find dst i b \<noteq> None"
  by (induction b) simp_all

lemma bucket_find_Some: "bucket_find dst i b = Some h \<Longrightarrow> h \<in> set b \<and> dst h = i"
  by (induction b) (auto split: if_splits)

lemma bucket_find_None: "bucket_find dst i b = None \<longleftrightarrow> i \<notin> dst ` set b"
  by (induction b) (auto split: if_splits)

lemma bucket_find_append:
  "bucket_find dst i (xs @ ys)
    = (case bucket_find dst i xs of None \<Rightarrow> bucket_find dst i ys | Some h \<Rightarrow> Some h)"
  by (induction xs) auto

lemma bucket_to_front_find:
  "bucket_find dst i seen = None
    \<Longrightarrow> bucket_find dst j (bucket_to_front dst i seen b) = bucket_find dst j (seen @ b)"
  by (induction b arbitrary: seen)
    (auto simp: bucket_find_append split: option.splits)

lemma bucket_to_front_perm:
  "set (bucket_to_front dst i seen b) = set seen \<union> set b"
  "distinct (map dst (bucket_to_front dst i seen b)) = distinct (map dst (seen @ b))"
  by (induction b arbitrary: seen) auto

lemma bucket_to_front_first:
  "bucket_find dst i (seen @ b) = Some h \<Longrightarrow> bucket_find dst i seen = None
    \<Longrightarrow> hd (bucket_to_front dst i seen b) = h"
  by (induction b arbitrary: seen) (auto simp: bucket_find_append split: if_splits option.splits)

lemma bucket_remove_set: "set (bucket_remove dst i b) \<subseteq> set b"
  by (induction b) auto

lemma bucket_remove_distinct:
  "distinct (map dst b) \<Longrightarrow> distinct (map dst (bucket_remove dst i b))"
  by (induction b) (use bucket_remove_set in fastforce)+

lemma bucket_remove_find:
  "distinct (map dst b) \<Longrightarrow>
    bucket_find dst j (bucket_remove dst i b) = (if j = i then None else bucket_find dst j b)"
  by (induction b) (auto simp: bucket_find_None image_iff)

lemma getk_bucket_eq:
  "length ret < k \<or> k = 0 \<Longrightarrow> getk_bucket k hs ret =
    (if k \<noteq> 0 \<and> k \<le> length ret + length hs then (True, take k (ret @ hs)) else (False, ret @ hs))"
proof (induction hs arbitrary: ret)
  case (Cons h hs)
  show ?case
  proof (cases "Suc (length ret) = k")
    case True
    then show ?thesis by (auto simp: Let_def)
  next
    case False
    then show ?thesis using Cons.IH [of "ret @ [h]"] Cons.prems by (auto simp: Let_def)
  qed
qed auto

definition at_most_k :: "nat \<Rightarrow> 'h list \<Rightarrow> 'h list" where
  "at_most_k k xs = (if k = 0 then xs else take k xs)"

lemma getk_from_eq:
  assumes "d < length bs" and "length ret < k \<or> k = 0"
  shows "getk_from bs k d ret
    = Inr (at_most_k k (ret @ concat (map (\<lambda>e. bs ! e) (rev [0..<Suc d]))))"
  using assms
proof (induction d arbitrary: ret)
  case 0
  then show ?case by (auto simp: getk_bucket_eq at_most_k_def)
next
  case (Suc d)
  show ?case
  proof (cases "k \<noteq> 0 \<and> k \<le> length ret + length (bs ! Suc d)")
    case True
    then show ?thesis using Suc.prems by (simp add: getk_bucket_eq at_most_k_def)
  next
    case False
    then have "getk_from bs k (Suc d) ret = getk_from bs k d (ret @ bs ! Suc d)"
      using Suc.prems by (auto simp: getk_bucket_eq)
    also have "\<dots> = Inr (at_most_k k ((ret @ bs ! Suc d)
        @ concat (map (\<lambda>e. bs ! e) (rev [0..<Suc d]))))"
      using False Suc.prems by (intro Suc.IH) auto
    finally show ?thesis by simp
  qed
qed

subsection \<open>Well-formed tables and the interface of the server\<close>

text \<open>Every handler sits in the bucket of its distance, and no id occurs twice.\<close>

definition kad_ok :: "('h \<Rightarrow> node_id) \<Rightarrow> 'h kad \<Rightarrow> bool" where
  "kad_ok dst dn \<longleftrightarrow> bytes20 (kd_Id dn) \<and> length (KBucket dn) = 160
     \<and> (\<forall>d<160. distinct (map dst (KBucket dn ! d))
        \<and> (\<forall>h \<in> set (KBucket dn ! d). bytes20 (dst h) \<and> getKDist (dst h) (kd_Id dn) = d))"

definition kad_covers :: "'h kad \<Rightarrow> node_id \<Rightarrow> bool" where
  "kad_covers dn i \<longleftrightarrow> bytes20 i \<and> getKDist i (kd_Id dn) < 160"

lemma kad_ok_bucket:
  assumes "kad_ok dst dn" and "d < 160"
  shows "distinct (map dst (KBucket dn ! d))"
    and "h \<in> set (KBucket dn ! d) \<Longrightarrow> bytes20 (dst h) \<and> getKDist (dst h) (kd_Id dn) = d"
  using assms by (simp_all add: kad_ok_def)

lemma kad_ok_New: "bytes20 i \<Longrightarrow> kad_ok dst (NewKadDHT i k)"
  by (simp add: kad_ok_def NewKadDHT_def bytes20_def)

lemma kad_ok_store:
  assumes "kad_ok dst dn" and "d < 160" and "distinct (map dst b)"
    and "\<And>h. h \<in> set b \<Longrightarrow> bytes20 (dst h) \<and> getKDist (dst h) (kd_Id dn) = d"
  shows "kad_ok dst (dn\<lparr>KBucket := (KBucket dn)[d := b]\<rparr>)"
  using assms by (auto simp: kad_ok_def nth_list_update)

lemma kad_Get_eq:
  "kad_ok dst dn \<Longrightarrow> kad_covers dn i \<Longrightarrow>
    kad_Get dst i dn = Inr (bucket_find dst i (KBucket dn ! getKDist i (kd_Id dn)))"
  by (simp add: kad_Get_def kad_ok_def kad_covers_def)

lemma kad_Get_stored:
  assumes "kad_ok dst dn" and "kad_covers dn i" and "d < 160"
    and "d = getKDist i (kd_Id dn) \<Longrightarrow> bucket_find dst i b = r"
    and "d \<noteq> getKDist i (kd_Id dn) \<Longrightarrow> kad_Get dst i dn = Inr r"
  shows "kad_Get dst i (dn\<lparr>KBucket := (KBucket dn)[d := b]\<rparr>) = Inr r"
  using assms by (auto simp: kad_Get_def kad_covers_def kad_ok_def nth_list_update)

text \<open>Runs of the table as the server uses it (an insert only behind the test that the id is absent), and
  the same runs on a finite map.\<close>

datatype 'h table_op = TInsert 'h | TUpdate node_id | TRemove node_id

fun table_op_id :: "('h \<Rightarrow> node_id) \<Rightarrow> 'h table_op \<Rightarrow> node_id" where
  "table_op_id dst (TInsert h) = dst h" | "table_op_id dst (TUpdate i) = i" | "table_op_id dst (TRemove i) = i"

fun table_run :: "('h \<Rightarrow> node_id) \<Rightarrow> ('h \<Rightarrow> 't \<Rightarrow> 't go) \<Rightarrow> (node_id \<Rightarrow> 't \<Rightarrow> bool go) \<Rightarrow> (node_id \<Rightarrow> 't \<Rightarrow> 't go)
    \<Rightarrow> (node_id \<Rightarrow> 't \<Rightarrow> 't go) \<Rightarrow> 'h table_op list \<Rightarrow> 't \<Rightarrow> 't go" where
  "table_run dst ins has upd rem [] t = Inr t"
| "table_run dst ins has upd rem (TInsert h # ops) t = and_then (has (dst h) t) (\<lambda>b.
     and_then (if b then Inr t else ins h t) (table_run dst ins has upd rem ops))"
| "table_run dst ins has upd rem (TUpdate i # ops) t = and_then (upd i t) (table_run dst ins has upd rem ops)"
| "table_run dst ins has upd rem (TRemove i # ops) t = and_then (rem i t) (table_run dst ins has upd rem ops)"

fun peer_map_run :: "('h \<Rightarrow> node_id) \<Rightarrow> 'h table_op list \<Rightarrow> (node_id \<rightharpoonup> 'h) \<Rightarrow> (node_id \<rightharpoonup> 'h)" where
  "peer_map_run dst [] m = m"
| "peer_map_run dst (TInsert h # ops) m = peer_map_run dst ops (if m (dst h) = None then m(dst h \<mapsto> h) else m)"
| "peer_map_run dst (TUpdate i # ops) m = peer_map_run dst ops m"
| "peer_map_run dst (TRemove i # ops) m = peer_map_run dst ops (m(i := None))"

text \<open>The routing table as the server uses it.\<close>

locale peer_table =
  fixes dst :: "'h \<Rightarrow> node_id"
    and insert_peer :: "'h \<Rightarrow> 't \<Rightarrow> 't go"
    and get_peer :: "node_id \<Rightarrow> 't \<Rightarrow> 'h option go"
    and has_peer :: "node_id \<Rightarrow> 't \<Rightarrow> bool go"
    and update_peer :: "node_id \<Rightarrow> 't \<Rightarrow> 't go"
    and remove_peer :: "node_id \<Rightarrow> 't \<Rightarrow> 't go"
    and ok :: "'t \<Rightarrow> bool"
    and covers :: "'t \<Rightarrow> node_id \<Rightarrow> bool"
  assumes get_total: "ok t \<Longrightarrow> covers t i \<Longrightarrow> \<exists>r. get_peer i t = Inr r"
    and get_dst: "ok t \<Longrightarrow> covers t i \<Longrightarrow> get_peer i t = Inr (Some h) \<Longrightarrow> dst h = i"
    and has_get: "ok t \<Longrightarrow> covers t i \<Longrightarrow> get_peer i t = Inr r \<Longrightarrow> has_peer i t = Inr (r \<noteq> None)"
    and insert_spec: "ok t \<Longrightarrow> covers t (dst h) \<Longrightarrow> get_peer (dst h) t = Inr None \<Longrightarrow>
      \<exists>t'. insert_peer h t = Inr t' \<and> ok t' \<and> covers t' = covers t
        \<and> (\<forall>i. covers t i \<longrightarrow> get_peer i t' = (if i = dst h then Inr (Some h) else get_peer i t))"
    and update_spec: "ok t \<Longrightarrow> covers t j \<Longrightarrow>
      \<exists>t'. update_peer j t = Inr t' \<and> ok t' \<and> covers t' = covers t
        \<and> (\<forall>i. covers t i \<longrightarrow> get_peer i t' = get_peer i t)"
    and remove_spec: "ok t \<Longrightarrow> covers t j \<Longrightarrow>
      \<exists>t'. remove_peer j t = Inr t' \<and> ok t' \<and> covers t' = covers t
        \<and> (\<forall>i. covers t i \<longrightarrow> get_peer i t' = (if i = j then Inr None else get_peer i t))"
begin

lemma insert_remove_restores:
  assumes "ok t" and "covers t (dst h)" and "get_peer (dst h) t = Inr None"
  shows "\<exists>t' t''. insert_peer h t = Inr t' \<and> remove_peer (dst h) t' = Inr t'' \<and> ok t''
    \<and> (\<forall>i. covers t i \<longrightarrow> get_peer i t'' = get_peer i t)"
proof -
  obtain t' where t': "insert_peer h t = Inr t'" "ok t'" "covers t' = covers t"
    "\<And>i. covers t i \<Longrightarrow> get_peer i t' = (if i = dst h then Inr (Some h) else get_peer i t)"
    using insert_spec [OF assms] by blast
  then obtain t'' where "remove_peer (dst h) t' = Inr t''" "ok t''"
    "\<And>i. covers t i \<Longrightarrow> get_peer i t'' = (if i = dst h then Inr None else get_peer i t')"
    using remove_spec [of t' "dst h"] assms(2) by auto
  then show ?thesis using t' assms(3) by auto
qed

lemma run_refines_map:
  assumes "ok t" and "\<forall>op \<in> set ops. covers t (table_op_id dst op)" and "\<forall>i. covers t i \<longrightarrow> get_peer i t = Inr (m i)"
  shows "\<exists>t'. table_run dst insert_peer has_peer update_peer remove_peer ops t = Inr t' \<and> ok t' \<and> covers t' = covers t
    \<and> (\<forall>i. covers t i \<longrightarrow> get_peer i t' = Inr (peer_map_run dst ops m i))"
  using assms
proof (induction ops arbitrary: t m)
  case (Cons op ops)
  have cov: "covers t (table_op_id dst op)" "\<forall>op \<in> set ops. covers t (table_op_id dst op)" using Cons.prems(2) by simp_all
  have step: ?case if "table_run dst insert_peer has_peer update_peer remove_peer (op # ops) t
        = table_run dst insert_peer has_peer update_peer remove_peer ops t1"
      "peer_map_run dst (op # ops) m = peer_map_run dst ops m1"
      "ok t1" "covers t1 = covers t" "\<forall>i. covers t i \<longrightarrow> get_peer i t1 = Inr (m1 i)" for t1 m1
    using Cons.IH [of t1 m1] that cov(2) by simp
  show ?case
  proof (cases op)
    case (TInsert h)
    have c: "covers t (dst h)" using cov(1) TInsert by simp
    have g: "get_peer (dst h) t = Inr (m (dst h))" using Cons.prems(3) c by blast
    have has: "has_peer (dst h) t = Inr (m (dst h) \<noteq> None)" by (rule has_get [OF Cons.prems(1) c g])
    show ?thesis
    proof (cases "m (dst h)")
      case None
      then obtain t1 where "insert_peer h t = Inr t1" "ok t1" "covers t1 = covers t"
        "\<forall>i. covers t i \<longrightarrow> get_peer i t1 = (if i = dst h then Inr (Some h) else get_peer i t)"
        using insert_spec [OF Cons.prems(1) c] g by auto
      then show ?thesis using step [of t1 "m(dst h \<mapsto> h)"] TInsert has None Cons.prems(3) by simp
    next
      case (Some h')
      then show ?thesis using step [of t m] TInsert has Cons.prems by simp
    qed
  next
    case (TUpdate j)
    then obtain t1 where "update_peer j t = Inr t1" "ok t1" "covers t1 = covers t"
      "\<forall>i. covers t i \<longrightarrow> get_peer i t1 = get_peer i t"
      using update_spec [OF Cons.prems(1)] cov(1) by auto
    then show ?thesis using step [of t1 m] TUpdate Cons.prems(3) by simp
  next
    case (TRemove j)
    then obtain t1 where "remove_peer j t = Inr t1" "ok t1" "covers t1 = covers t"
      "\<forall>i. covers t i \<longrightarrow> get_peer i t1 = (if i = j then Inr None else get_peer i t)"
      using remove_spec [OF Cons.prems(1)] cov(1) by auto
    then show ?thesis using step [of t1 "m(j := None)"] TRemove Cons.prems(3) by simp
  qed
qed simp

lemma connect_guard:
  assumes "ok t" and "covers t (dst h)" and "has_peer (dst h) t = Inr False"
  shows "\<exists>t'. insert_peer h t = Inr t' \<and> ok t' \<and> covers t' = covers t
    \<and> has_peer (dst h) t' = Inr True \<and> get_peer (dst h) t' = Inr (Some h)
    \<and> (\<forall>i. covers t i \<longrightarrow> i \<noteq> dst h \<longrightarrow> get_peer i t' = get_peer i t)"
proof -
  obtain r where r: "get_peer (dst h) t = Inr r" using get_total assms(1,2) by blast
  then have "r = None" using has_get [OF assms(1,2) r] assms(3) by simp
  then obtain t' where t': "insert_peer h t = Inr t'" "ok t'" "covers t' = covers t"
    "\<And>i. covers t i \<Longrightarrow> get_peer i t' = (if i = dst h then Inr (Some h) else get_peer i t)"
    using insert_spec [OF assms(1,2)] r by blast
  moreover have "has_peer (dst h) t' = Inr True"
    using has_get [of t' "dst h" "Some h"] t' assms(2) by simp
  ultimately show ?thesis using assms(2) by auto
qed

end

lemma kad_Insert_spec:
  assumes ok: "kad_ok dst dn" and cov: "kad_covers dn (dst h)"
    and none: "kad_Get dst (dst h) dn = Inr None"
  shows "\<exists>t'. kad_Insert dst h dn = Inr t' \<and> kad_ok dst t' \<and> kad_covers t' = kad_covers dn
    \<and> (\<forall>i. kad_covers dn i \<longrightarrow>
        kad_Get dst i t' = (if i = dst h then Inr (Some h) else kad_Get dst i dn))"
proof -
  let ?d = "getKDist (dst h) (kd_Id dn)"
  let ?b = "h # KBucket dn ! ?d"
  let ?t = "dn\<lparr>KBucket := (KBucket dn)[?d := ?b]\<rparr>"
  have d: "?d < 160" "bytes20 (dst h)" using cov by (simp_all add: kad_covers_def)
  have L: "length (KBucket dn) = 160" using ok by (simp add: kad_ok_def)
  have "kad_Insert dst h dn = Inr ?t" using d L by (simp add: kad_Insert_def Let_def)
  moreover have "bucket_find dst (dst h) (KBucket dn ! ?d) = None"
    using none kad_Get_eq [OF ok cov] by simp
  then have "kad_ok dst ?t"
    using kad_ok_bucket [OF ok d(1)] d
    by (intro kad_ok_store [OF ok d(1)]) (auto simp: bucket_find_None)
  moreover have "kad_covers ?t = kad_covers dn" by (rule ext) (simp add: kad_covers_def)
  moreover have "kad_Get dst i ?t = (if i = dst h then Inr (Some h) else kad_Get dst i dn)"
    if i: "kad_covers dn i" for i
  proof -
    have "kad_Get dst i ?t
        = Inr (if i = dst h then Some h else bucket_find dst i (KBucket dn ! getKDist i (kd_Id dn)))"
      using kad_Get_eq [OF ok i] by (intro kad_Get_stored [OF ok i d(1)]) auto
    then show ?thesis using kad_Get_eq [OF ok i] by simp
  qed
  ultimately show ?thesis by blast
qed

lemma kad_bucket_change_spec:
  assumes ok: "kad_ok dst dn" and cov: "kad_covers dn j"
    and dist: "distinct (map dst b)" and sub: "set b \<subseteq> set (KBucket dn ! getKDist j (kd_Id dn))"
    and find: "\<And>i. bucket_find dst i b = f i (bucket_find dst i (KBucket dn ! getKDist j (kd_Id dn)))"
    and same: "\<And>i r. getKDist i (kd_Id dn) \<noteq> getKDist j (kd_Id dn) \<Longrightarrow> f i r = r"
  shows "kad_ok dst (dn\<lparr>KBucket := (KBucket dn)[getKDist j (kd_Id dn) := b]\<rparr>)"
    and "kad_covers dn i \<Longrightarrow>
      kad_Get dst i (dn\<lparr>KBucket := (KBucket dn)[getKDist j (kd_Id dn) := b]\<rparr>)
        = Inr (f i (bucket_find dst i (KBucket dn ! getKDist i (kd_Id dn))))"
proof -
  have d: "getKDist j (kd_Id dn) < 160" using cov by (simp add: kad_covers_def)
  show "kad_ok dst (dn\<lparr>KBucket := (KBucket dn)[getKDist j (kd_Id dn) := b]\<rparr>)"
    using dist sub kad_ok_bucket(2) [OF ok d] by (intro kad_ok_store [OF ok d]) auto
  show "kad_Get dst i (dn\<lparr>KBucket := (KBucket dn)[getKDist j (kd_Id dn) := b]\<rparr>)
      = Inr (f i (bucket_find dst i (KBucket dn ! getKDist i (kd_Id dn))))" if i: "kad_covers dn i"
    using kad_Get_eq [OF ok i] find same by (intro kad_Get_stored [OF ok i d]) auto
qed

interpretation kad: peer_table dst "kad_Insert dst" "kad_Get dst" "kad_Has dst" "kad_Update dst"
  "kad_Remove dst" "kad_ok dst" kad_covers for dst :: "'h \<Rightarrow> node_id"
proof unfold_locales
  fix t :: "'h kad" and i j h r
  assume ok: "kad_ok dst t"
  then have L: "length (KBucket t) = 160" by (simp add: kad_ok_def)
  show "\<exists>r. kad_Get dst i t = Inr r" if "kad_covers t i"
    using kad_Get_eq [OF ok that] by simp
  show "dst h = i" if "kad_covers t i" and "kad_Get dst i t = Inr (Some h)"
    using that(2) kad_Get_eq [OF ok that(1)] by (auto dest: bucket_find_Some)
  show "kad_Has dst i t = Inr (r \<noteq> None)" if "kad_covers t i" and "kad_Get dst i t = Inr r"
    using that kad_Get_eq [OF ok that(1)] L
    by (simp add: kad_Has_def kad_covers_def bucket_has_find)
  show "\<exists>t'. kad_Insert dst h t = Inr t' \<and> kad_ok dst t' \<and> kad_covers t' = kad_covers t
      \<and> (\<forall>i. kad_covers t i \<longrightarrow>
        kad_Get dst i t' = (if i = dst h then Inr (Some h) else kad_Get dst i t))"
    if "kad_covers t (dst h)" and "kad_Get dst (dst h) t = Inr None"
    using ok that by (rule kad_Insert_spec)
  show "\<exists>t'. kad_Update dst j t = Inr t' \<and> kad_ok dst t' \<and> kad_covers t' = kad_covers t
      \<and> (\<forall>i. kad_covers t i \<longrightarrow> kad_Get dst i t' = kad_Get dst i t)" if cov: "kad_covers t j"
  proof -
    let ?b = "KBucket t ! getKDist j (kd_Id t)"
    let ?t = "t\<lparr>KBucket := (KBucket t)[getKDist j (kd_Id t) := bucket_to_front dst j [] ?b]\<rparr>"
    have d: "getKDist j (kd_Id t) < 160" using cov by (simp add: kad_covers_def)
    note spec = kad_bucket_change_spec [OF ok cov, of "bucket_to_front dst j [] ?b" "\<lambda>i r. r"]
    have "kad_Update dst j t = Inr ?t" using d L by (simp add: kad_Update_def Let_def)
    moreover have "kad_ok dst ?t"
      using kad_ok_bucket(1) [OF ok d]
      by (intro spec(1)) (simp_all add: bucket_to_front_perm bucket_to_front_find)
    moreover have "kad_Get dst i ?t = kad_Get dst i t" if "kad_covers t i" for i
      using kad_ok_bucket(1) [OF ok d] that
      by (subst spec(2)) (simp_all add: bucket_to_front_perm bucket_to_front_find kad_Get_eq [OF ok])
    moreover have "kad_covers ?t = kad_covers t" by (rule ext) (simp add: kad_covers_def)
    ultimately show ?thesis by blast
  qed
  show "\<exists>t'. kad_Remove dst j t = Inr t' \<and> kad_ok dst t' \<and> kad_covers t' = kad_covers t
      \<and> (\<forall>i. kad_covers t i \<longrightarrow>
        kad_Get dst i t' = (if i = j then Inr None else kad_Get dst i t))"
    if cov: "kad_covers t j"
  proof -
    let ?b = "KBucket t ! getKDist j (kd_Id t)"
    let ?t = "t\<lparr>KBucket := (KBucket t)[getKDist j (kd_Id t) := bucket_remove dst j ?b]\<rparr>"
    let ?f = "\<lambda>i r. if i = j then None else r"
    have d: "getKDist j (kd_Id t) < 160" using cov by (simp add: kad_covers_def)
    note spec = kad_bucket_change_spec [OF ok cov, of "bucket_remove dst j ?b" ?f]
    have "kad_Remove dst j t = Inr ?t" using d L by (simp add: kad_Remove_def Let_def)
    moreover have "kad_ok dst ?t"
      using kad_ok_bucket(1) [OF ok d] bucket_remove_set [of dst j ?b]
      by (intro spec(1)) (auto simp: bucket_remove_distinct bucket_remove_find)
    moreover have "kad_Get dst i ?t = (if i = j then Inr None else kad_Get dst i t)"
      if "kad_covers t i" for i
      using kad_ok_bucket(1) [OF ok d] bucket_remove_set [of dst j ?b] that
      by (subst spec(2))
        (auto simp: bucket_remove_distinct bucket_remove_find kad_Get_eq [OF ok])
    moreover have "kad_covers ?t = kad_covers t" by (rule ext) (simp add: kad_covers_def)
    ultimately show ?thesis by blast
  qed
qed

subsection \<open>The order of \<open>GetK\<close>\<close>

definition buckets_down :: "'h kad \<Rightarrow> nat \<Rightarrow> 'h list" where
  "buckets_down dn d = concat (map (\<lambda>e. KBucket dn ! e) (rev [0..<Suc d]))"

lemma buckets_down_Suc: "buckets_down dn (Suc d) = KBucket dn ! Suc d @ buckets_down dn d"
  by (simp add: buckets_down_def)

lemma buckets_down_sorted:
  assumes "kad_ok dst dn" and "d < 160"
  shows "sorted_wrt (\<ge>) (map (\<lambda>h. getKDist (dst h) (kd_Id dn)) (buckets_down dn d))
    \<and> (\<forall>h \<in> set (buckets_down dn d). getKDist (dst h) (kd_Id dn) \<le> d)"
  using assms(2)
proof (induction d)
  case 0
  have "\<forall>h \<in> set (KBucket dn ! 0). getKDist (dst h) (kd_Id dn) = 0"
    using kad_ok_bucket(2) [OF assms(1), of 0] by simp
  then show ?case
    by (simp add: buckets_down_def sorted_wrt_map)
      (simp add: sorted_wrt_iff_nth_less)
next
  case (Suc d)
  have b: "\<forall>h \<in> set (KBucket dn ! Suc d). getKDist (dst h) (kd_Id dn) = Suc d"
    using kad_ok_bucket(2) [OF assms(1) Suc.prems] by simp
  then have "sorted_wrt (\<ge>) (map (\<lambda>h. getKDist (dst h) (kd_Id dn)) (KBucket dn ! Suc d))"
    by (simp add: sorted_wrt_iff_nth_less)
  then show ?case
    using Suc b by (fastforce simp: buckets_down_Suc sorted_wrt_append)
qed

lemma set_at_most_k: "set (at_most_k k xs) \<subseteq> set xs"
  by (auto simp: at_most_k_def dest: in_set_takeD)

lemma at_most_k_map: "map f (at_most_k k xs) = at_most_k k (map f xs)"
  by (simp add: at_most_k_def take_map)

lemma sorted_at_most_k: "sorted_wrt P xs \<Longrightarrow> sorted_wrt P (at_most_k k xs)"
  by (simp add: at_most_k_def sorted_wrt_take)

subsection \<open>Properties\<close>

text \<open>C37: The two nested loops of \<open>getKDist\<close> compute the bit length of the XOR of the two ids,
  read as numbers with the last byte most significant.\<close>
theorem dist_is_xor_bit_length:
  assumes "bytes20 a" and "bytes20 b"
  shows "getKDist a b = floorlog 2 (le_value a XOR le_value b)"
  using assms by (simp add: getKDist_eq bytes20_def)

lemma dist_is_xor_bit_length_witness:
  "getKDist (5 # replicate 19 0) (3 # replicate 19 0) = floorlog 2
     (le_value (5 # replicate 19 0) XOR le_value (3 # replicate 19 0))
   \<and> getKDist (5 # replicate 19 0) (3 # replicate 19 0) = 3"
proof
  show "getKDist (5 # replicate 19 0) (3 # replicate 19 0) = floorlog 2
     (le_value (5 # replicate 19 0) XOR le_value (3 # replicate 19 0))"
    by (rule dist_is_xor_bit_length) (simp_all add: bytes20_def)
  show "getKDist (5 # replicate 19 0) (3 # replicate 19 0) = 3"
    by code_simp
qed

text \<open>\<open>getKDist\<close> is symmetric, zero only between equal ids, bounded by 160 and satisfies the
  strong triangle inequality, so the buckets partition the id space around the own id.\<close>
theorem dist_ultrametric:
  assumes "bytes20 a" and "bytes20 b" and "bytes20 c"
  shows "getKDist a b = getKDist b a \<and> (getKDist a b = 0 \<longleftrightarrow> a = b) \<and> getKDist a b \<le> 160
    \<and> getKDist a c \<le> max (getKDist a b) (getKDist b c)"
  using assms getKDist_sym [of a b] getKDist_zero [of a b] getKDist_le [of a b]
    getKDist_ultra [of a b c]
  by (simp add: bytes20_def)

lemma dist_ultrametric_witness:
  "getKDist (1 # replicate 19 0) (6 # replicate 19 0)
     \<le> max (getKDist (1 # replicate 19 0) (2 # replicate 19 0))
        (getKDist (2 # replicate 19 0) (6 # replicate 19 0))"
  by (intro dist_ultrametric [THEN conjunct2, THEN conjunct2, THEN conjunct2])
    (simp_all add: bytes20_def)

text \<open>C38: The bucket array is one entry too short: inserting a handler panics with an index out of
  range exactly when the ids of the handler and of the node differ in the top bit of the last
  byte (distance 160, array length 160).\<close>
theorem insert_panics_iff:
  assumes "kad_ok dst dn" and "bytes20 (dst h)"
  shows "kad_Insert dst h dn = Inl IndexOutOfRange
    \<longleftrightarrow> bit (dst h ! 19) 7 \<noteq> bit (kd_Id dn ! 19) 7"
proof -
  have "bytes20 (kd_Id dn)" and L: "length (KBucket dn) = 160"
    using assms(1) by (simp_all add: kad_ok_def)
  then have "getKDist (dst h) (kd_Id dn) = 160 \<longleftrightarrow> bit (dst h ! 19) 7 \<noteq> bit (kd_Id dn ! 19) 7"
    and "getKDist (dst h) (kd_Id dn) \<le> 160"
    using getKDist_max_iff [OF assms(2)] getKDist_le [OF assms(2)] by blast+
  then show ?thesis
    using L by (cases "getKDist (dst h) (kd_Id dn) = 160") (simp_all add: kad_Insert_def Let_def)
qed

lemma insert_panics_iff_witness:
  "kad_Insert id (replicate 19 0 @ [128]) (NewKadDHT (replicate 20 0) 5) = Inl IndexOutOfRange"
  using insert_panics_iff [of id "NewKadDHT (replicate 20 0) 5" "replicate 19 0 @ [128]"]
    kad_ok_New [of "replicate 20 0" id 5]
  by (simp add: bytes20_def NewKadDHT_def nth_append)

text \<open>Behind the guard \<open>!Has(id)\<close> of the server, \<open>Insert\<close> succeeds, keeps the table well-formed
  (every handler in the bucket of its distance, no id twice), makes \<open>Has\<close> and \<open>Get\<close> find
  exactly the inserted handler, and changes no other lookup.\<close>
theorem insert_after_guard:
  assumes "kad_ok dst t" and "kad_covers t (dst h)" and "kad_Has dst (dst h) t = Inr False"
  shows "\<exists>t'. kad_Insert dst h t = Inr t' \<and> kad_ok dst t' \<and> kad_covers t' = kad_covers t
    \<and> kad_Has dst (dst h) t' = Inr True \<and> kad_Get dst (dst h) t' = Inr (Some h)
    \<and> (\<forall>i. kad_covers t i \<longrightarrow> i \<noteq> dst h \<longrightarrow> kad_Get dst i t' = kad_Get dst i t)"
  using assms by (rule kad.connect_guard)

lemma kad_covers_example: "kad_covers (NewKadDHT (replicate 20 0) 5) (7 # replicate 19 0)"
  by (simp add: kad_covers_def NewKadDHT_def bytes20_def getKDist_def eval_nat_numeral)

lemma insert_after_guard_witness:
  "\<exists>t'. kad_Insert id (7 # replicate 19 0) (NewKadDHT (replicate 20 0) 5) = Inr t'
    \<and> kad_Has id (7 # replicate 19 0) t' = Inr True"
proof -
  let ?t = "NewKadDHT (replicate 20 0) 5" and ?i = "7 # replicate 19 0"
  have ok: "kad_ok id ?t" by (rule kad_ok_New) (simp add: bytes20_def)
  have "kad_Get id ?i ?t = Inr None"
    using kad_Get_eq [OF ok kad_covers_example] kad_covers_example
    by (simp add: NewKadDHT_def kad_covers_def)
  then have "kad_Has id ?i ?t = Inr False" using kad.has_get [OF ok kad_covers_example] by simp
  then show ?thesis using insert_after_guard [OF ok, of ?i] kad_covers_example by auto
qed

text \<open>\<open>Remove\<close> undoes \<open>Insert\<close>: inserting an absent handler and removing its id leaves a
  well-formed table with the lookups of the table one started from.\<close>
theorem remove_undoes_insert:
  assumes "kad_ok dst t" and "kad_covers t (dst h)" and "kad_Get dst (dst h) t = Inr None"
  shows "\<exists>t' t''. kad_Insert dst h t = Inr t' \<and> kad_Remove dst (dst h) t' = Inr t''
    \<and> kad_ok dst t'' \<and> (\<forall>i. kad_covers t i \<longrightarrow> kad_Get dst i t'' = kad_Get dst i t)"
  using assms by (rule kad.insert_remove_restores)

lemma remove_undoes_insert_witness:
  "\<exists>t' t''. kad_Insert id (7 # replicate 19 0) (NewKadDHT (replicate 20 0) 5) = Inr t'
    \<and> kad_Remove id (7 # replicate 19 0) t' = Inr t'' \<and> kad_ok id t''"
proof -
  let ?t = "NewKadDHT (replicate 20 0) 5" and ?i = "7 # replicate 19 0"
  have ok: "kad_ok id ?t" by (rule kad_ok_New) (simp add: bytes20_def)
  have "kad_Get id ?i ?t = Inr None"
    using kad_Get_eq [OF ok kad_covers_example] kad_covers_example
    by (simp add: NewKadDHT_def kad_covers_def)
  then show ?thesis using remove_undoes_insert [OF ok, of ?i] kad_covers_example by fastforce
qed

text \<open>\<open>GetK\<close> returns the handlers of the buckets from the distance of the id down to 0, in that
  order, cut to \<open>K\<close> when \<open>K\<close> is positive: at most \<open>K\<close> of them, none further from the node than the
  id, sorted by decreasing distance.\<close>
theorem GetK_nearest_down:
  assumes "kad_ok dst dn" and "kad_covers dn i"
  shows "\<exists>hs. kad_GetK i dn = Inr hs
    \<and> hs = at_most_k (unat (kd_K dn)) (buckets_down dn (getKDist i (kd_Id dn)))
    \<and> (0 < kd_K dn \<longrightarrow> length hs \<le> unat (kd_K dn))
    \<and> sorted_wrt (\<ge>) (map (\<lambda>h. getKDist (dst h) (kd_Id dn)) hs)
    \<and> (\<forall>h \<in> set hs. getKDist (dst h) (kd_Id dn) \<le> getKDist i (kd_Id dn))"
proof -
  let ?d = "getKDist i (kd_Id dn)" and ?k = "unat (kd_K dn)"
  let ?hs = "at_most_k ?k (buckets_down dn ?d)"
  have d: "?d < 160" using assms(2) by (simp add: kad_covers_def)
  have "length (KBucket dn) = 160" using assms(1) by (simp add: kad_ok_def)
  then have "kad_GetK i dn = Inr ?hs"
    using d getk_from_eq [of ?d "KBucket dn" "[]" ?k] neq0_conv [of ?k]
    by (auto simp: kad_GetK_def buckets_down_def simp del: upt_Suc)
  moreover have "0 < kd_K dn \<longrightarrow> length ?hs \<le> ?k"
    by (simp add: at_most_k_def word_less_nat_alt)
  ultimately show ?thesis
    using buckets_down_sorted [OF assms(1) d] set_at_most_k [of ?k "buckets_down dn ?d"]
    by (auto simp: at_most_k_map sorted_at_most_k)
qed

lemma GetK_nearest_down_witness:
  "kad_GetK (7 # replicate 19 0) (NewKadDHT (replicate 20 0) 5 :: node_id kad) = Inr []"
proof -
  let ?t = "NewKadDHT (replicate 20 0) 5 :: node_id kad"
  have "kad_ok id ?t" by (rule kad_ok_New) (simp add: bytes20_def)
  from GetK_nearest_down [OF this kad_covers_example]
  obtain hs where "kad_GetK (7 # replicate 19 0) ?t = Inr hs"
    and "hs = at_most_k 5 (buckets_down ?t (getKDist (7 # replicate 19 0) (kd_Id ?t)))"
    by (auto simp: NewKadDHT_def)
  moreover have "buckets_down ?t d = []" if "d < 160" for d
    using that by (auto simp: buckets_down_def NewKadDHT_def)
  moreover have "kad_covers ?t (7 # replicate 19 0)" by (rule kad_covers_example)
  then have "getKDist (7 # replicate 19 0) (kd_Id ?t) < 160" by (simp only: kad_covers_def)
  ultimately show ?thesis by (simp only: at_most_k_def) simp
qed



end
