(* ===== verification/P2P_Server.thy ===== *)
theory P2P_Server
  imports P2P_Handler Kad_DHT
begin

text \<open>
  The server of \<open>src/src/net/p2p.go\<close> (\<open>NaiveP2PServer\<close>): it keeps the handlers of its peers in the
  Kademlia table, opens associations, routes messages and hands received ones to their listeners.
  Handlers are shared objects: the table, the pool and the server hold addresses into a heap. A call
  on a handler that only puts a value on one of its channels is an output \<open>ToHandler\<close>; what the
  reflection server tells a new handler about its public address is an argument of the step.
\<close>

subsection \<open>State\<close>

record p2p_server =
  ns_SelfId :: node_id
  ns_pool :: handler_pool
  ns_DHT :: "nat kad"
  ns_heap :: "nat \<Rightarrow> p2p_handler"
  ns_next :: nat
  ns_handlerChan :: chan
  ns_stateChan :: chan
  ns_netMsgChan :: "node_id \<rightharpoonup> chan"
  ns_static :: nat
  ns_staticPeers :: "node_id \<rightharpoonup> udp_addr option"
  ns_returned :: bool

type_synonym pub_addr = "u8 list \<times> i64"

datatype sv_output =
    ToHandler nat hd_event
  | QueueMsg net_msg
  | QueueConnect node_id
  | Deliver chan net_msg

datatype sv_event =
    SvSend net_msg
  | SvConnect node_id pub_addr
  | SvRecv net_result pub_addr
  | SvState nat peer_state_change
  | SvCtrl

text \<open>The destination of a handler, by which the table finds it.\<close>

definition ns_dst :: "p2p_server \<Rightarrow> nat \<Rightarrow> node_id" where
  "ns_dst s = (\<lambda>p. ph_dstId (ns_heap s p))"

definition on_heap :: "nat \<Rightarrow> (p2p_handler \<Rightarrow> p2p_handler) \<Rightarrow> p2p_server \<Rightarrow> p2p_server" where
  "on_heap p f s = s\<lparr>ns_heap := (ns_heap s)(p := f (ns_heap s p))\<rparr>"

text \<open>\<open>NewNaiveP2PServer\<close>; the pool is filled with new handlers at the addresses that follow the static one.\<close>

definition NewNaiveP2PServer :: "node_id \<Rightarrow> i64 \<Rightarrow> i64 \<Rightarrow> nat kad \<Rightarrow> chan \<Rightarrow> chan \<Rightarrow> pub_addr \<Rightarrow> (nat \<Rightarrow> pub_addr)
    \<Rightarrow> p2p_server" where
  "NewNaiveP2PServer selfId pooledCnt maxPooledCnt dht hdChan stChan pub pubs =
     (let sHandler = hd_Start True (hd_SetChannel hdChan stChan (NewNaiveP2PHandler selfId (fst pub) (snd pub)));
          n = nat (sint pooledCnt)
      in \<lparr>ns_SelfId = selfId, ns_pool = NewNaiveP2PHandlerPool selfId pooledCnt maxPooledCnt [1..<Suc n], ns_DHT = dht,
          ns_heap = (\<lambda>p. if p = 0 then sHandler else NewNaiveP2PHandler selfId (fst (pubs p)) (snd (pubs p))),
          ns_next = Suc n, ns_handlerChan = hdChan, ns_stateChan = stChan, ns_netMsgChan = Map.empty, ns_static = 0,
          ns_staticPeers = Map.empty, ns_returned = False\<rparr>)"

subsection \<open>Operations\<close>

definition sv_Init :: "p2p_peer list \<Rightarrow> p2p_server \<Rightarrow> sv_output list \<times> p2p_server" where
  "sv_Init peers s = (map (\<lambda>peer. QueueConnect (pe_PeerId peer)) peers,
     s\<lparr>ns_staticPeers := fold (\<lambda>peer m. m(pe_PeerId peer \<mapsto> pe_PeerIp peer)) peers (ns_staticPeers s)\<rparr>)"

text \<open>\<open>HearFrom\<close>; \<open>c\<close> is the new channel.\<close>

definition HearFrom :: "node_id \<Rightarrow> chan \<Rightarrow> p2p_server \<Rightarrow> chan \<times> p2p_server" where
  "HearFrom src c s = (case ns_netMsgChan s src of
       Some ret \<Rightarrow> (ret, s) | None \<Rightarrow> (c, s\<lparr>ns_netMsgChan := (ns_netMsgChan s)(src \<mapsto> c)\<rparr>))"

text \<open>\<open>send\<close> asks the handler for its state before it compares it with nil.\<close>

definition sv_send :: "net_msg \<Rightarrow> p2p_server \<Rightarrow> sv_output list go" where
  "sv_send msg s =
     and_then (kad_Get (ns_dst s) (nm_DstId msg) (ns_DHT s)) (\<lambda>handler.
     and_then (go_deref handler) (\<lambda>p.
       if hd_ReadyToSend (ns_heap s p) then
         and_then (encode_with net_msg_c msg) (\<lambda>data. Inr [ToHandler p (HdSend data None)])
       else (case ns_staticPeers s (nm_DstId msg) of
           Some addr \<Rightarrow> and_then (encode_with net_msg_c msg) (\<lambda>data.
             Inr [ToHandler (ns_static s) (HdSend data (Some \<lparr>pe_PeerId = nm_DstId msg, pe_PeerIp = addr\<rparr>))])
         | None \<Rightarrow> and_then (kad_GetK (nm_DstId msg) (ns_DHT s)) (\<lambda>handlers.
             go_map (\<lambda>p. and_then (encode_with net_msg_c msg) (\<lambda>data. Inr (ToHandler p (HdSend data None))))
               (filter (\<lambda>p. ph_state (ns_heap s p) = ST_CONN) handlers)))))"

definition sv_connectUDP :: "node_id \<Rightarrow> nat \<Rightarrow> p2p_server \<Rightarrow> sv_output go" where
  "sv_connectUDP dst p s =
     and_then (encode_with p2p_conn_msg_c (hd_GenConnMsg (ns_heap s p))) (\<lambda>data.
       Inr (QueueMsg \<lparr>nm_SrcId = ns_SelfId s, nm_DstId = dst, nm_Type = MSG_CONN, nm_Data = data, nm_TTL = MAX_TTL\<rparr>))"

text \<open>A handler from the pool, or a new one with the public address \<open>pub\<close>.\<close>

definition sv_get_handler :: "pub_addr \<Rightarrow> p2p_server \<Rightarrow> nat \<times> p2p_server" where
  "sv_get_handler pub s = (case pool_Get (ns_pool s) of
       (Some p, pool) \<Rightarrow> (p, s\<lparr>ns_pool := pool\<rparr>)
     | (None, pool) \<Rightarrow> (ns_next s, on_heap (ns_next s)
         (\<lambda>_. NewNaiveP2PHandler (hp_id pool) (fst pub) (snd pub)) (s\<lparr>ns_next := Suc (ns_next s)\<rparr>)))"

text \<open>A new association: a handler is set up, entered into the table, announced and started.\<close>

definition sv_open :: "udp_addr option \<Rightarrow> node_id \<Rightarrow> pub_addr \<Rightarrow> p2p_server
    \<Rightarrow> (nat \<times> sv_output \<times> p2p_server) go" where
  "sv_open addr dst pub s =
     (let (p, s1) = sv_get_handler pub s;
          s2 = on_heap p (\<lambda>h. hd_Init addr dst (hd_SetChannel (ns_handlerChan s) (ns_stateChan s) h)) s1
      in and_then (kad_Insert (ns_dst s2) p (ns_DHT s2)) (\<lambda>dht.
         let s3 = s2\<lparr>ns_DHT := dht\<rparr> in
         and_then (sv_connectUDP dst p s3) (\<lambda>out. Inr (p, out, on_heap p (hd_Start False) s3))))"

definition sv_connect :: "node_id \<Rightarrow> pub_addr \<Rightarrow> p2p_server \<Rightarrow> (sv_output list \<times> p2p_server) go" where
  "sv_connect dst pub s =
     and_then (kad_Has (ns_dst s) dst (ns_DHT s)) (\<lambda>has.
       if has then Inr ([], s)
       else and_then (sv_open None dst pub s) (\<lambda>(p, out, s'). Inr ([out], s')))"

definition sv_conn_msg :: "net_msg \<Rightarrow> pub_addr \<Rightarrow> p2p_server \<Rightarrow> (sv_output list \<times> p2p_server) go" where
  "sv_conn_msg netMsg pub s =
     and_then (decode_with p2p_conn_msg_c (nm_Data netMsg)) (\<lambda>connMsg.
     let addr = Some \<lparr>ua_IP = cm_SrcIP connMsg, ua_Port = cm_SrcPort connMsg\<rparr> in
     and_then (kad_Get (ns_dst s) (nm_SrcId netMsg) (ns_DHT s)) (\<lambda>handler. case handler of
       None \<Rightarrow> and_then (sv_open addr (nm_SrcId netMsg) pub s) (\<lambda>(p, out, s').
         Inr ([out, ToHandler p HdConnect], s'))
     | Some p \<Rightarrow>
         if ph_state (ns_heap s p) = ST_WAIT
         then Inr ([ToHandler p HdConnect], on_heap p (hd_Init addr (nm_SrcId netMsg)) s)
         else Inr ([], s)))"

definition sv_recv :: "net_result \<Rightarrow> pub_addr \<Rightarrow> p2p_server \<Rightarrow> (sv_output list \<times> p2p_server) go" where
  "sv_recv msg pub s =
     and_then (kad_Update (ns_dst s) (nr_SrcId msg) (ns_DHT s)) (\<lambda>dht.
     and_then (decode_with net_msg_c (nr_Data msg)) (\<lambda>netMsg.
       let s1 = s\<lparr>ns_DHT := dht\<rparr> in
       if nm_DstId netMsg = ns_SelfId s1 then
         (if nm_Type netMsg = MSG_CONN then sv_conn_msg netMsg pub s1
          else if nm_Type netMsg = MSG_SINGLE \<or> nm_Type netMsg = MSG_MULTI then
            Inr (case ns_netMsgChan s1 (nm_SrcId netMsg) of None \<Rightarrow> [] | Some c \<Rightarrow> [Deliver c netMsg], s1)
          else Inr ([], s1))
       else if 0 < nm_TTL netMsg then Inr ([QueueMsg (netMsg\<lparr>nm_TTL := nm_TTL netMsg - 1\<rparr>)], s1)
       else Inr ([], s1)))"

definition sv_state :: "nat \<Rightarrow> peer_state_change \<Rightarrow> p2p_server \<Rightarrow> (sv_output list \<times> p2p_server) go" where
  "sv_state p state s = (case sc_State state of
       ST_CONN \<Rightarrow> Inr ([], s)
     | ST_WAIT \<Rightarrow> and_then (sv_connectUDP (sc_PeerId state) p s) (\<lambda>out. Inr ([out], s))
     | ST_PING \<Rightarrow> and_then (sv_connectUDP (sc_PeerId state) p s) (\<lambda>out. Inr ([out], s))
     | ST_DISCONN \<Rightarrow> and_then (kad_Remove (ns_dst s) (sc_PeerId state) (ns_DHT s)) (\<lambda>dht.
         Inr ([ToHandler p HdCtrl], s\<lparr>ns_DHT := dht, ns_pool := snd (pool_Set p (ns_pool s))\<rparr>)))"

fun sv_select :: "sv_event \<Rightarrow> p2p_server \<Rightarrow> (sv_output list \<times> p2p_server) go" where
  "sv_select (SvSend msg) s = and_then (sv_send msg s) (\<lambda>outs. Inr (outs, s))"
| "sv_select (SvConnect dst pub) s = sv_connect dst pub s"
| "sv_select (SvRecv msg pub) s = sv_recv msg pub s"
| "sv_select (SvState p state) s = sv_state p state s"
| "sv_select SvCtrl s = Inr ([ToHandler (ns_static s) HdCtrl], s\<lparr>ns_returned := True\<rparr>)"

definition sv_step :: "sv_event \<Rightarrow> p2p_server \<Rightarrow> (sv_output list \<times> p2p_server) go" where
  "sv_step ev s = (if ns_returned s then Inr ([], s) else sv_select ev s)"

subsection \<open>The table and the heap\<close>

definition table_ptrs :: "'h kad \<Rightarrow> 'h set" where
  "table_ptrs dn = (\<Union>b \<in> set (KBucket dn). set b)"

text \<open>What the table says depends only on the handlers in it.\<close>

lemma bucket_find_cong: "(\<And>h. h \<in> set b \<Longrightarrow> dst' h = dst h) \<Longrightarrow> bucket_find dst' i b = bucket_find dst i b"
  by (induction b) auto

lemma kad_ok_cong:
  assumes "\<And>h. h \<in> table_ptrs dn \<Longrightarrow> dst' h = dst h" and "kad_ok dst dn"
  shows "kad_ok dst' dn" and "kad_Get dst' i dn = kad_Get dst i dn"
proof -
  have in_table: "h \<in> table_ptrs dn" if "d < length (KBucket dn)" "h \<in> set (KBucket dn ! d)" for h d
    using that by (auto simp: table_ptrs_def)
  have L: "length (KBucket dn) = 160" using assms(2) by (simp add: kad_ok_def)
  have mp: "map dst' (KBucket dn ! d) = map dst (KBucket dn ! d)" if "d < 160" for d
    using in_table [of d] that L assms(1) by auto
  have dm: "distinct (map dst' (KBucket dn ! d)) \<longleftrightarrow> distinct (map dst (KBucket dn ! d))" if "d < 160" for d
    unfolding mp [OF that] ..
  show "kad_ok dst' dn" using assms(2) in_table L assms(1) dm by (simp add: kad_ok_def)
  show "kad_Get dst' i dn = kad_Get dst i dn"
  proof (cases "getKDist i (kd_Id dn) < 160")
    case True
    then have "bucket_find dst' i (KBucket dn ! getKDist i (kd_Id dn)) = bucket_find dst i (KBucket dn ! getKDist i (kd_Id dn))"
      using in_table L assms(1) by (intro bucket_find_cong) auto
    then show ?thesis using True L by (simp add: kad_Get_def)
  qed (simp add: kad_Get_def L)
qed

definition sv_ok :: "p2p_server \<Rightarrow> bool" where
  "sv_ok s \<longleftrightarrow> kad_ok (ns_dst s) (ns_DHT s) \<and> set (hp_pool (ns_pool s)) \<inter> table_ptrs (ns_DHT s) = {}
     \<and> (\<forall>p \<in> table_ptrs (ns_DHT s). p < ns_next s) \<and> distinct (hp_pool (ns_pool s))
     \<and> (\<forall>p \<in> set (hp_pool (ns_pool s)). p < ns_next s) \<and> (\<forall>p. length (ph_pubIp (ns_heap s p)) < 2 ^ 30)"

lemma on_heap_sel [simp]:
  "ns_heap (on_heap p f s) = (ns_heap s)(p := f (ns_heap s p))" "ns_DHT (on_heap p f s) = ns_DHT s"
  "ns_SelfId (on_heap p f s) = ns_SelfId s" "ns_pool (on_heap p f s) = ns_pool s" "ns_next (on_heap p f s) = ns_next s"
  "ns_returned (on_heap p f s) = ns_returned s" "ns_handlerChan (on_heap p f s) = ns_handlerChan s"
  "ns_stateChan (on_heap p f s) = ns_stateChan s"
  by (simp_all add: on_heap_def)

lemma sv_get_handler_spec:
  assumes "sv_ok s" and "length (fst pub) < 2 ^ 30"
  obtains p s1 where "sv_get_handler pub s = (p, s1)" "p \<notin> table_ptrs (ns_DHT s)" "ns_DHT s1 = ns_DHT s"
    "\<And>q. q \<noteq> p \<Longrightarrow> ns_heap s1 q = ns_heap s q" "ns_SelfId s1 = ns_SelfId s" "ns_returned s1 = ns_returned s"
    "p < ns_next s1" "\<And>q. q \<in> table_ptrs (ns_DHT s) \<Longrightarrow> q < ns_next s1" "distinct (hp_pool (ns_pool s1))"
    "set (hp_pool (ns_pool s1)) \<inter> table_ptrs (ns_DHT s) = {}" "p \<notin> set (hp_pool (ns_pool s1))"
    "\<And>q. q \<in> set (hp_pool (ns_pool s1)) \<Longrightarrow> q < ns_next s1" "\<And>q. length (ph_pubIp (ns_heap s1 q)) < 2 ^ 30"
proof (cases "hp_pool (ns_pool s)")
  case Nil
  let ?s1 = "on_heap (ns_next s) (\<lambda>_. NewNaiveP2PHandler (hp_id (ns_pool s)) (fst pub) (snd pub)) (s\<lparr>ns_next := Suc (ns_next s)\<rparr>)"
  have "sv_get_handler pub s = (ns_next s, ?s1)" using Nil by (simp add: sv_get_handler_def pool_Get_def)
  then show thesis by (rule that) (use Nil assms in \<open>auto simp: sv_ok_def NewNaiveP2PHandler_def less_SucI\<close>)
next
  case (Cons p ps)
  let ?s1 = "s\<lparr>ns_pool := (ns_pool s)\<lparr>hp_pool := ps\<rparr>\<rparr>"
  have "sv_get_handler pub s = (p, ?s1)" using Cons by (simp add: sv_get_handler_def pool_Get_def)
  then show thesis by (rule that) (use Cons assms in \<open>auto simp: sv_ok_def\<close>)
qed

lemma table_ptrs_Insert:
  assumes "kad_Insert dst h dn = Inr dn'"
  shows "table_ptrs dn' \<subseteq> insert h (table_ptrs dn)"
proof -
  let ?d = "getKDist (dst h) (kd_Id dn)"
  have d: "?d < length (KBucket dn)" "KBucket dn' = (KBucket dn)[?d := h # KBucket dn ! ?d]"
    using assms by (auto simp: kad_Insert_def Let_def and_then_Inr_iff dest!: go_index_InrD go_store_InrD)
  have new: "set (KBucket dn') \<subseteq> insert (h # KBucket dn ! ?d) (set (KBucket dn))"
    unfolding d(2) by (rule set_update_subset_insert)
  have old: "set (KBucket dn ! ?d) \<subseteq> table_ptrs dn" using nth_mem [OF d(1)] by (auto simp: table_ptrs_def)
  show ?thesis
  proof
    fix x assume "x \<in> table_ptrs dn'"
    then obtain b where b: "b \<in> set (KBucket dn')" "x \<in> set b" by (auto simp: table_ptrs_def)
    then have "b = h # KBucket dn ! ?d \<or> b \<in> set (KBucket dn)" using new by blast
    then show "x \<in> insert h (table_ptrs dn)" using b(2) old by (auto simp: table_ptrs_def)
  qed
qed

lemma vlen_p2p_conn_msg: "vlen (c_type p2p_conn_msg_c) (c_to p2p_conn_msg_c m) = 12 + length (cm_SrcIP m)"
  by (simp add: p2p_conn_msg_c_def struct_c_def and_field_def no_field_def)

text \<open>Opening an association.\<close>

lemma sv_open_spec:
  assumes "sv_ok s" and "length (fst pub) < 2 ^ 30" and "kad_covers (ns_DHT s) dst"
    and "kad_Get (ns_dst s) dst (ns_DHT s) = Inr None"
  obtains p m s' where "sv_open addr dst pub s = Inr (p, QueueMsg m, s')" "sv_ok s'"
    "kad_Get (ns_dst s') dst (ns_DHT s') = Inr (Some p)" "ns_SelfId s' = ns_SelfId s" "ns_returned s' = ns_returned s"
    "ph_state (ns_heap s' p) = ST_WAIT" "ph_run (ns_heap s' p) = RunDynamic" "ph_dstId (ns_heap s' p) = dst"
    "ph_dstAddr (ns_heap s' p) = addr" "kad_covers (ns_DHT s') = kad_covers (ns_DHT s)"
    "nm_SrcId m = ns_SelfId s" "nm_DstId m = dst" "nm_Type m = MSG_CONN" "nm_TTL m = MAX_TTL"
    "decode_with p2p_conn_msg_c (nm_Data m) = Inr (hd_GenConnMsg (ns_heap s' p))"
    "length (nm_Data m) < 2 ^ 32"
    "\<And>i. kad_covers (ns_DHT s) i \<Longrightarrow> i \<noteq> dst \<Longrightarrow> kad_Get (ns_dst s') i (ns_DHT s') = kad_Get (ns_dst s) i (ns_DHT s)"
proof -
  obtain p s1 where g: "sv_get_handler pub s = (p, s1)" "p \<notin> table_ptrs (ns_DHT s)" "ns_DHT s1 = ns_DHT s"
    "\<And>q. q \<noteq> p \<Longrightarrow> ns_heap s1 q = ns_heap s q" "ns_SelfId s1 = ns_SelfId s" "ns_returned s1 = ns_returned s"
    "p < ns_next s1" "\<And>q. q \<in> table_ptrs (ns_DHT s) \<Longrightarrow> q < ns_next s1" "distinct (hp_pool (ns_pool s1))"
    "set (hp_pool (ns_pool s1)) \<inter> table_ptrs (ns_DHT s) = {}" "p \<notin> set (hp_pool (ns_pool s1))"
    "\<And>q. q \<in> set (hp_pool (ns_pool s1)) \<Longrightarrow> q < ns_next s1" "\<And>q. length (ph_pubIp (ns_heap s1 q)) < 2 ^ 30"
    by (rule sv_get_handler_spec [OF assms(1,2)]) blast
  let ?init = "\<lambda>h. hd_Init addr dst (hd_SetChannel (ns_handlerChan s) (ns_stateChan s) h)"
  define s2 where "s2 = on_heap p ?init s1"
  have s2: "ns_DHT s2 = ns_DHT s" "ns_dst s2 p = dst" "\<And>q. q \<noteq> p \<Longrightarrow> ns_dst s2 q = ns_dst s q"
    using g(3,4) by (simp_all add: s2_def ns_dst_def hd_Init_def)
  have same: "ns_dst s2 h = ns_dst s h" if "h \<in> table_ptrs (ns_DHT s)" for h
    using that g(2) s2(3) by metis
  have ok: "kad_ok (ns_dst s) (ns_DHT s)" using assms(1) by (simp add: sv_ok_def)
  have ok2: "kad_ok (ns_dst s2) (ns_DHT s)" by (rule kad_ok_cong(1) [OF same ok])
  have get2: "kad_Get (ns_dst s2) i (ns_DHT s) = kad_Get (ns_dst s) i (ns_DHT s)" for i
    by (rule kad_ok_cong(2) [OF same ok])
  obtain dht where dht: "kad_Insert (ns_dst s2) p (ns_DHT s) = Inr dht" "kad_ok (ns_dst s2) dht"
    "kad_covers dht = kad_covers (ns_DHT s)"
    "\<And>i. kad_covers (ns_DHT s) i \<Longrightarrow> kad_Get (ns_dst s2) i dht = (if i = dst then Inr (Some p) else kad_Get (ns_dst s2) i (ns_DHT s))"
    using kad_Insert_spec [OF ok2, of p] assms(3,4) get2 s2(2) by auto
  define s3 where "s3 = s2\<lparr>ns_DHT := dht\<rparr>"
  let ?conn = "hd_GenConnMsg (ns_heap s3 p)"
  have ip: "length (ph_pubIp (ns_heap s2 p)) < 2 ^ 30" using g(13) by (simp add: s2_def hd_Init_def hd_SetChannel_def)
  then have wf: "c_wf p2p_conn_msg_c ?conn" by (simp add: hd_GenConnMsg_def s3_def)
  obtain bs where bs: "encode_with p2p_conn_msg_c ?conn = Inr bs" "decode_with p2p_conn_msg_c bs = Inr ?conn"
    using p2p_conn_msg.encode_total [OF wf] by blast
  define s' where "s' = on_heap p (hd_Start False) s3"
  let ?m = "\<lparr>nm_SrcId = ns_SelfId s, nm_DstId = dst, nm_Type = MSG_CONN, nm_Data = bs, nm_TTL = MAX_TTL\<rparr>"
  have len: "length bs < 2 ^ 32"
    using encode_with_length [OF p2p_conn_msg_lawful wf bs(1)] ip by (simp add: vlen_p2p_conn_msg hd_GenConnMsg_def s3_def)
  have D: "ns_DHT s' = dht" by (simp add: s'_def s3_def)
  have dst': "ns_dst s' = ns_dst s2" by (auto simp: s'_def s3_def ns_dst_def hd_Start_def)
  have "sv_open addr dst pub s = Inr (p, QueueMsg ?m, s')"
    using g(1) dht(1) bs(1) s2(1) g(5)
    by (simp add: sv_open_def s2_def [symmetric] Let_def) (simp add: sv_connectUDP_def s3_def [symmetric] s'_def, simp add: s3_def s2_def g(5))
  moreover have "sv_ok s'"
  proof -
    have "table_ptrs dht \<subseteq> insert p (table_ptrs (ns_DHT s))" by (rule table_ptrs_Insert [OF dht(1)])
    then show ?thesis using dht(2) g(7-13) dst'
      by (auto simp: sv_ok_def s'_def s3_def s2_def hd_Start_def hd_Init_def hd_SetChannel_def)
  qed
  moreover have "kad_Get (ns_dst s') i (ns_DHT s') = (if i = dst then Inr (Some p) else kad_Get (ns_dst s) i (ns_DHT s))"
    if "kad_covers (ns_DHT s) i" for i
    using dht(4) [OF that] get2 unfolding dst' D by (cases "i = dst") simp_all
  ultimately show thesis
    by (intro that [of p ?m s']) (use assms(3) len bs(2) dht(3) g(5,6) in
      \<open>simp_all add: s'_def s3_def s2_def hd_Start_def hd_Init_def hd_SetChannel_def hd_GenConnMsg_def\<close>)
qed

subsection \<open>Messages that pass through\<close>

text \<open>What a server makes of a message that it receives from a node in its range.\<close>

lemma sv_recv_foreign:
  assumes "\<not> ns_returned s" and "kad_ok (ns_dst s) (ns_DHT s)" and "kad_covers (ns_DHT s) (nr_SrcId r)"
    and "decode_with net_msg_c (nr_Data r) = Inr m" and "nm_DstId m \<noteq> ns_SelfId s"
  obtains s' where "sv_step (SvRecv r pub) s
      = Inr (if 0 < nm_TTL m then [QueueMsg (m\<lparr>nm_TTL := nm_TTL m - 1\<rparr>)] else [], s')"
    "s' = s\<lparr>ns_DHT := ns_DHT s'\<rparr>" "kad_covers (ns_DHT s') = kad_covers (ns_DHT s)"
    "\<And>i. kad_covers (ns_DHT s) i \<Longrightarrow> kad_Get (ns_dst s) i (ns_DHT s') = kad_Get (ns_dst s) i (ns_DHT s)"
proof -
  obtain t where t: "kad_Update (ns_dst s) (nr_SrcId r) (ns_DHT s) = Inr t" "kad_covers t = kad_covers (ns_DHT s)"
    "\<And>i. kad_covers (ns_DHT s) i \<Longrightarrow> kad_Get (ns_dst s) i t = kad_Get (ns_dst s) i (ns_DHT s)"
    using kad.update_spec [OF assms(2,3)] by blast
  show thesis
    by (rule that [of "s\<lparr>ns_DHT := t\<rparr>"]) (use assms(1,4,5) t in \<open>simp_all add: sv_step_def sv_recv_def Let_def\<close>)
qed

text \<open>C20: A message for a third node that is not in the table crashes the node that should route it:
  the node queues the message with a smaller hop count, and sending it then panics, because the
  handler's state is read before the handler is compared with nil.\<close>
theorem unroutable_message_panics:
  assumes "\<not> ns_returned s" and "kad_ok (ns_dst s) (ns_DHT s)" and "kad_covers (ns_DHT s) (nr_SrcId r)"
    and "decode_with net_msg_c (nr_Data r) = Inr m" and "nm_DstId m \<noteq> ns_SelfId s" and "0 < nm_TTL m"
    and "kad_covers (ns_DHT s) (nm_DstId m)" and "kad_Get (ns_dst s) (nm_DstId m) (ns_DHT s) = Inr None"
  shows "\<exists>m' s'. sv_step (SvRecv r pub) s = Inr ([QueueMsg m'], s') \<and> sv_step (SvSend m') s' = Inl NilDereference"
proof -
  obtain s' where s': "sv_step (SvRecv r pub) s
      = Inr (if 0 < nm_TTL m then [QueueMsg (m\<lparr>nm_TTL := nm_TTL m - 1\<rparr>)] else [], s')"
    "s' = s\<lparr>ns_DHT := ns_DHT s'\<rparr>"
    "\<And>i. kad_covers (ns_DHT s) i \<Longrightarrow> kad_Get (ns_dst s) i (ns_DHT s') = kad_Get (ns_dst s) i (ns_DHT s)"
    by (rule sv_recv_foreign [OF assms(1-5)]) blast
  have dst: "ns_dst s' = ns_dst s" and ret: "\<not> ns_returned s'"
    using assms(1) by (subst s'(2), simp add: ns_dst_def)+
  have "kad_Get (ns_dst s') (nm_DstId m) (ns_DHT s') = Inr None" using s'(3) [OF assms(7)] assms(8) by (simp add: dst)
  then have "sv_step (SvSend (m\<lparr>nm_TTL := nm_TTL m - 1\<rparr>)) s' = Inl NilDereference"
    using ret by (simp add: sv_step_def sv_send_def)
  then show ?thesis using s'(1) assms(6) by auto
qed

text \<open>A message on its way through the servers \<open>ss\<close>, each of which receives from a peer \<open>via\<close> what the one
  before it queued: the number of times it is passed on before a server keeps it, drops it or panics.\<close>

fun relays :: "(p2p_server \<times> node_id \<times> udp_addr \<times> pub_addr) list \<Rightarrow> net_msg \<Rightarrow> nat" where
  "relays [] m = 0"
| "relays ((s, via, addr, pub) # ss) m = (case encode_with net_msg_c m of Inl _ \<Rightarrow> 0 | Inr data \<Rightarrow>
     (case sv_step (SvRecv \<lparr>nr_SrcId = via, nr_Data = data, nr_SrcAddr = addr\<rparr> pub) s of
        Inr ([QueueMsg m'], _) \<Rightarrow> if nm_DstId m = ns_SelfId s then 0 else Suc (relays ss m')
      | _ \<Rightarrow> 0))"

lemma relays_le: "c_wf net_msg_c m \<Longrightarrow> relays ss m \<le> unat (nm_TTL m)"
proof (induction ss m rule: relays.induct)
  case (2 s via addr pub ss m)
  obtain data where data: "encode_with net_msg_c m = Inr data" "decode_with net_msg_c data = Inr m"
    using net_msg.encode_total [OF "2.prems"] by blast
  let ?r = "\<lparr>nr_SrcId = via, nr_Data = data, nr_SrcAddr = addr\<rparr>"
  show ?case
  proof (cases "\<exists>m' s'. sv_step (SvRecv ?r pub) s = Inr ([QueueMsg m'], s') \<and> nm_DstId m \<noteq> ns_SelfId s")
    case True
    then obtain m' s' where q: "sv_step (SvRecv ?r pub) s = Inr ([QueueMsg m'], s')" "nm_DstId m \<noteq> ns_SelfId s" by blast
    then have m': "0 < nm_TTL m" "m' = m\<lparr>nm_TTL := nm_TTL m - 1\<rparr>"
      using data(2) by (auto simp: sv_step_def sv_recv_def and_then_Inr_iff Let_def split: if_splits)
    have "relays ss m' \<le> unat (nm_TTL m')" using "2.IH" [OF data(1) q(1)] "2.prems" q m' by simp
    moreover have pos: "0 < unat (nm_TTL m)" using m'(1) unfolding word_less_nat_alt by simp
    moreover have "nm_TTL m \<noteq> 0"
    proof
      assume "nm_TTL m = 0"
      then show False using pos by simp
    qed
    then have "unat (nm_TTL m') = unat (nm_TTL m) - 1" using unat_minus_one [of "nm_TTL m"] by (simp add: m'(2))
    ultimately show ?thesis using data(1) q by simp
  next
    case False
    then have "relays ((s, via, addr, pub) # ss) m = 0"
      using data(1) by (auto split: sum.split list.split sv_output.split prod.split)
    then show ?thesis by simp
  qed
qed simp

text \<open>C21: Routing ends: over whatever servers a message travels, in whatever states, it is passed on at
  most as many times as its hop count says, so at most \<open>MAX_TTL\<close> times when it starts with that.\<close>
theorem routing_terminates:
  assumes "c_wf net_msg_c m"
  shows "relays ss m \<le> unat (nm_TTL m) \<and> (nm_TTL m = MAX_TTL \<longrightarrow> relays ss m \<le> 65)"
  using relays_le [OF assms, of ss] by (auto simp: MAX_TTL_def)

subsection \<open>Two servers connect\<close>

lemma conn_msg_codec:
  assumes "bytes20 (nm_SrcId m)" and "bytes20 (nm_DstId m)" and "length (nm_Data m) < 2 ^ 32"
  obtains data where "encode_with net_msg_c m = Inr data" "decode_with net_msg_c data = Inr m"
  using net_msg.encode_total [of m] assms by auto

text \<open>The update of the table on a message leaves \<open>sv_ok\<close> and what the table says as they are.\<close>

lemma table_ptrs_Update:
  assumes "kad_Update dst i dn = Inr dn'"
  shows "table_ptrs dn' \<subseteq> table_ptrs dn"
proof -
  let ?d = "getKDist i (kd_Id dn)"
  have d: "?d < length (KBucket dn)" "KBucket dn' = (KBucket dn)[?d := bucket_to_front dst i [] (KBucket dn ! ?d)]"
    using assms by (auto simp: kad_Update_def Let_def and_then_Inr_iff dest!: go_index_InrD go_store_InrD)
  have "set (bucket_to_front dst i seen b) = set seen \<union> set b" for seen b
    by (induction b arbitrary: seen) auto
  then have old: "set (bucket_to_front dst i [] (KBucket dn ! ?d)) \<subseteq> table_ptrs dn"
    using nth_mem [OF d(1)] by (auto simp: table_ptrs_def)
  have new: "set (KBucket dn') \<subseteq> insert (bucket_to_front dst i [] (KBucket dn ! ?d)) (set (KBucket dn))"
    unfolding d(2) by (rule set_update_subset_insert)
  show ?thesis
  proof
    fix x assume "x \<in> table_ptrs dn'"
    then obtain b where b: "b \<in> set (KBucket dn')" "x \<in> set b" by (auto simp: table_ptrs_def)
    then have "b = bucket_to_front dst i [] (KBucket dn ! ?d) \<or> b \<in> set (KBucket dn)" using new by blast
    then show "x \<in> table_ptrs dn" using b(2) old by (auto simp: table_ptrs_def)
  qed
qed

lemma sv_updated:
  assumes "sv_ok s" and "kad_covers (ns_DHT s) via"
  obtains t where "kad_Update (ns_dst s) via (ns_DHT s) = Inr t" "sv_ok (s\<lparr>ns_DHT := t\<rparr>)"
    "kad_covers t = kad_covers (ns_DHT s)"
    "\<And>i. kad_covers (ns_DHT s) i \<Longrightarrow> kad_Get (ns_dst s) i t = kad_Get (ns_dst s) i (ns_DHT s)"
proof -
  have ok: "kad_ok (ns_dst s) (ns_DHT s)" using assms(1) by (simp add: sv_ok_def)
  obtain t where t: "kad_Update (ns_dst s) via (ns_DHT s) = Inr t" "kad_ok (ns_dst s) t" "kad_covers t = kad_covers (ns_DHT s)"
    "\<And>i. kad_covers (ns_DHT s) i \<Longrightarrow> kad_Get (ns_dst s) i t = kad_Get (ns_dst s) i (ns_DHT s)"
    using kad.update_spec [OF ok assms(2)] by blast
  have "ns_dst (s\<lparr>ns_DHT := t\<rparr>) = ns_dst s" by (simp add: ns_dst_def)
  then have "sv_ok (s\<lparr>ns_DHT := t\<rparr>)"
    using assms(1) t(2) table_ptrs_Update [OF t(1)] by (auto simp: sv_ok_def)
  with t show thesis by (intro that [of t])
qed

text \<open>What happens to a connect message at a server that has no handler for its sender, and at one whose
  handler for the sender waits.\<close>

lemma sv_conn_passive:
  assumes "sv_ok s" and "\<not> ns_returned s" and "length (fst pub) < 2 ^ 30" and "kad_covers (ns_DHT s) via"
    and "kad_covers (ns_DHT s) (nm_SrcId m)" and "kad_Get (ns_dst s) (nm_SrcId m) (ns_DHT s) = Inr None"
    and "decode_with net_msg_c data = Inr m" and "nm_DstId m = ns_SelfId s" and "nm_Type m = MSG_CONN"
    and "decode_with p2p_conn_msg_c (nm_Data m) = Inr conn"
  obtains q m' s' where "sv_step (SvRecv \<lparr>nr_SrcId = via, nr_Data = data, nr_SrcAddr = a\<rparr> pub) s
      = Inr ([QueueMsg m', ToHandler q HdConnect], s')" "sv_ok s'"
    "kad_Get (ns_dst s') (nm_SrcId m) (ns_DHT s') = Inr (Some q)"
    "ph_state (ns_heap s' q) = ST_WAIT" "ph_run (ns_heap s' q) = RunDynamic" "ph_dstId (ns_heap s' q) = nm_SrcId m"
    "ph_dstAddr (ns_heap s' q) = Some \<lparr>ua_IP = cm_SrcIP conn, ua_Port = cm_SrcPort conn\<rparr>"
    "nm_SrcId m' = ns_SelfId s" "nm_DstId m' = nm_SrcId m" "nm_Type m' = MSG_CONN" "length (nm_Data m') < 2 ^ 32"
    "decode_with p2p_conn_msg_c (nm_Data m') = Inr (hd_GenConnMsg (ns_heap s' q))"
proof -
  obtain t where t: "kad_Update (ns_dst s) via (ns_DHT s) = Inr t" "sv_ok (s\<lparr>ns_DHT := t\<rparr>)"
    "kad_covers t = kad_covers (ns_DHT s)"
    "\<And>i. kad_covers (ns_DHT s) i \<Longrightarrow> kad_Get (ns_dst s) i t = kad_Get (ns_dst s) i (ns_DHT s)"
    by (rule sv_updated [OF assms(1,4)]) blast
  let ?s = "s\<lparr>ns_DHT := t\<rparr>" and ?addr = "Some \<lparr>ua_IP = cm_SrcIP conn, ua_Port = cm_SrcPort conn\<rparr>"
  have dst: "ns_dst ?s = ns_dst s" by (simp add: ns_dst_def)
  have get: "kad_Get (ns_dst ?s) (nm_SrcId m) (ns_DHT ?s) = Inr None" using t(4) [OF assms(5)] assms(6) dst by simp
  have cov: "kad_covers (ns_DHT ?s) (nm_SrcId m)" using t(3) assms(5) by simp
  obtain q m' s' where o: "sv_open ?addr (nm_SrcId m) pub ?s = Inr (q, QueueMsg m', s')" "sv_ok s'"
    "kad_Get (ns_dst s') (nm_SrcId m) (ns_DHT s') = Inr (Some q)"
    "ph_state (ns_heap s' q) = ST_WAIT" "ph_run (ns_heap s' q) = RunDynamic" "ph_dstId (ns_heap s' q) = nm_SrcId m"
    "ph_dstAddr (ns_heap s' q) = ?addr" "nm_SrcId m' = ns_SelfId ?s" "nm_DstId m' = nm_SrcId m" "nm_Type m' = MSG_CONN"
    "decode_with p2p_conn_msg_c (nm_Data m') = Inr (hd_GenConnMsg (ns_heap s' q))" "length (nm_Data m') < 2 ^ 32"
    by (rule sv_open_spec [OF t(2) assms(3) cov get, of ?addr]) blast
  have "sv_step (SvRecv \<lparr>nr_SrcId = via, nr_Data = data, nr_SrcAddr = a\<rparr> pub) s
      = Inr ([QueueMsg m', ToHandler q HdConnect], s')"
    using assms(2,7-10) t(1) get o(1) by (simp add: sv_step_def sv_recv_def sv_conn_msg_def Let_def)
  then show thesis by (rule that) (use o in simp_all)
qed

lemma sv_conn_active:
  assumes "sv_ok s" and "\<not> ns_returned s" and "kad_covers (ns_DHT s) via"
    and "kad_covers (ns_DHT s) (nm_SrcId m)" and "kad_Get (ns_dst s) (nm_SrcId m) (ns_DHT s) = Inr (Some p)"
    and "ph_state (ns_heap s p) = ST_WAIT"
    and "decode_with net_msg_c data = Inr m" and "nm_DstId m = ns_SelfId s" and "nm_Type m = MSG_CONN"
    and "decode_with p2p_conn_msg_c (nm_Data m) = Inr conn"
  obtains s' where "sv_step (SvRecv \<lparr>nr_SrcId = via, nr_Data = data, nr_SrcAddr = a\<rparr> pub) s
      = Inr ([ToHandler p HdConnect], s')"
    "ns_heap s' p = (ns_heap s p)\<lparr>ph_dstAddr := Some \<lparr>ua_IP = cm_SrcIP conn, ua_Port = cm_SrcPort conn\<rparr>, ph_dstId := nm_SrcId m\<rparr>"
proof -
  obtain t where t: "kad_Update (ns_dst s) via (ns_DHT s) = Inr t"
    "\<And>i. kad_covers (ns_DHT s) i \<Longrightarrow> kad_Get (ns_dst s) i t = kad_Get (ns_dst s) i (ns_DHT s)"
    by (rule sv_updated [OF assms(1,3)]) blast
  let ?s = "s\<lparr>ns_DHT := t\<rparr>" and ?addr = "Some \<lparr>ua_IP = cm_SrcIP conn, ua_Port = cm_SrcPort conn\<rparr>"
  have dst: "ns_dst ?s = ns_dst s" by (simp add: ns_dst_def)
  have get: "kad_Get (ns_dst ?s) (nm_SrcId m) (ns_DHT ?s) = Inr (Some p)" using t(2) [OF assms(4)] assms(5) dst by simp
  have "sv_step (SvRecv \<lparr>nr_SrcId = via, nr_Data = data, nr_SrcAddr = a\<rparr> pub) s
      = Inr ([ToHandler p HdConnect], on_heap p (hd_Init ?addr (nm_SrcId m)) ?s)"
    using assms(2,6-10) t(1) get by (simp add: sv_step_def sv_recv_def sv_conn_msg_def Let_def)
  then show thesis by (rule that) (simp add: hd_Init_def on_heap_def)
qed


subsection \<open>Witnesses\<close>

lemma kad_Get_New: "bytes20 i \<Longrightarrow> kad_covers (NewKadDHT i k) j \<Longrightarrow> kad_Get dst j (NewKadDHT i k) = Inr None"
  by (simp add: kad_covers_def kad_Get_def NewKadDHT_def bytes20_def)

lemma sv_ok_New:
  assumes "bytes20 i" and "length (fst pub) < 2 ^ 30" and "\<And>p. length (fst (pubs p)) < 2 ^ 30"
  shows "sv_ok (NewNaiveP2PServer i n m (NewKadDHT i k) c1 c2 pub pubs)"
proof -
  have "table_ptrs (NewKadDHT i k) = {}" by (simp add: table_ptrs_def NewKadDHT_def)
  moreover have "kad_ok dst (NewKadDHT i k)" for dst by (rule kad_ok_New [OF assms(1)])
  ultimately show ?thesis using assms(2,3)
    by (auto simp: sv_ok_def NewNaiveP2PServer_def NewNaiveP2PHandlerPool_def Let_def fold_Cons_rev hd_Start_def
        hd_SetChannel_def NewNaiveP2PHandler_def)
qed

definition demo_sv :: "node_id \<Rightarrow> p2p_server" where
  "demo_sv i = NewNaiveP2PServer i 2 4 (NewKadDHT i 5) 1 2 ([127, 0, 0, 1], 5000) (\<lambda>p. ([127, 0, 0, 1], of_nat p))"

abbreviation "demo_idA \<equiv> replicate 20 0 :: node_id"
abbreviation "demo_idB \<equiv> 7 # replicate 19 0 :: node_id"

lemma demo_covers: "kad_covers (NewKadDHT demo_idA 5) demo_idB" "kad_covers (NewKadDHT demo_idB 5) demo_idA"
  by (simp_all add: kad_covers_def NewKadDHT_def bytes20_def getKDist_def eval_nat_numeral)

lemma demo_sv_sel [simp]:
  "ns_SelfId (demo_sv i) = i" "ns_DHT (demo_sv i) = NewKadDHT i 5" "ns_returned (demo_sv i) = False"
  by (simp_all add: demo_sv_def NewNaiveP2PServer_def Let_def)

lemma demo_sv_ok: "bytes20 i \<Longrightarrow> sv_ok (demo_sv i)"
  unfolding demo_sv_def by (rule sv_ok_New) simp_all

text \<open>Server A hears from B a message for the node \<open>3\<close>, which nobody knows.\<close>

definition demo_stray :: net_msg where
  "demo_stray = \<lparr>nm_SrcId = demo_idB, nm_DstId = 3 # replicate 19 0, nm_Type = MSG_SINGLE, nm_Data = [1], nm_TTL = 2\<rparr>"

lemma unroutable_message_panics_witness:
  "\<exists>data m' s'. sv_step (SvRecv \<lparr>nr_SrcId = demo_idB, nr_Data = data, nr_SrcAddr = \<lparr>ua_IP = [], ua_Port = 0\<rparr>\<rparr> ([], 0)) (demo_sv demo_idA)
      = Inr ([QueueMsg m'], s') \<and> sv_step (SvSend m') s' = Inl NilDereference"
proof -
  let ?c = "3 # replicate 19 0 :: node_id"
  have "bytes20 (nm_SrcId demo_stray)" "bytes20 (nm_DstId demo_stray)" "length (nm_Data demo_stray) < 2 ^ 32"
    by (simp_all add: demo_stray_def bytes20_def)
  then obtain data where data: "decode_with net_msg_c data = Inr demo_stray" by (rule conn_msg_codec) blast
  have c: "kad_covers (NewKadDHT demo_idA 5) ?c"
    by (simp add: kad_covers_def NewKadDHT_def bytes20_def getKDist_def eval_nat_numeral)
  have "demo_idA = 0 # replicate 19 0" by (simp flip: replicate_Suc)
  then have ne: "?c \<noteq> demo_idA" by simp
  have ok: "kad_ok (ns_dst (demo_sv demo_idA)) (NewKadDHT demo_idA 5)" by (rule kad_ok_New) simp
  show ?thesis
    using unroutable_message_panics [of "demo_sv demo_idA" "\<lparr>nr_SrcId = demo_idB, nr_Data = data, nr_SrcAddr = \<lparr>ua_IP = [], ua_Port = 0\<rparr>\<rparr>"
        demo_stray "([], 0)"] ok ne data demo_covers(1) c kad_Get_New [OF _ c]
    by (auto simp: demo_stray_def bytes20_def)
qed

lemma routing_terminates_witness:
  "relays [(demo_sv demo_idA, demo_idB, \<lparr>ua_IP = [], ua_Port = 0\<rparr>, [], 0)] demo_stray \<le> 2"
  using routing_terminates [of demo_stray "[(demo_sv demo_idA, demo_idB, \<lparr>ua_IP = [], ua_Port = 0\<rparr>, [], 0)]"]
  by (simp add: demo_stray_def bytes20_def del: relays.simps)


end
