(* ===== verification/Looped_Queue.thy ===== *)
theory Looped_Queue
  imports Prelude
begin

text \<open>
  The ring buffer \<open>LoopedQueue\<close> of \<open>src/src/net/queue.go\<close> on its \<open>uint32\<close> fields, its
  invariant, the list of elements it stands for, and the refinement of \<open>PushBack\<close> and
  \<open>PopFront\<close> to a bounded FIFO. The interface \<open>bounded_queue\<close> carries the facts the
  multi-packet handler uses. The access by sequence number \<open>GetBySeq\<close> passes an offset
  where an index is expected; the lemmas say exactly when that is right.
\<close>

subsection \<open>State and operations\<close>

text \<open>\<open>data\<close> is a slice of \<open>interface{}\<close>: \<open>None\<close> is the nil interface.\<close>

record 'a looped_queue =
  lq_data :: "'a option list"
  queueSt :: u32
  queueEn :: u32
  lq_size :: u32
  stSeq :: u32
  enSeq :: u32

definition NewLoopedQueue :: "u32 \<Rightarrow> u32 \<Rightarrow> 'a looped_queue" where
  "NewLoopedQueue n q =
     \<lparr>lq_data = replicate (unat (n + 1)) None, queueSt = 0, queueEn = 0, lq_size = n,
      stSeq = q, enSeq = q\<rparr>"

definition lq_Length :: "'a looped_queue \<Rightarrow> u32 go" where
  "lq_Length lq = go_mod (queueEn lq - queueSt lq + lq_size lq + 1) (lq_size lq + 1)"

definition lq_Full :: "'a looped_queue \<Rightarrow> bool go" where
  "lq_Full lq = and_then (go_mod (queueEn lq - queueSt lq + lq_size lq + 1) (lq_size lq + 1))
     (\<lambda>l. Inr (l = lq_size lq))"

definition lq_Size :: "'a looped_queue \<Rightarrow> u32" where
  "lq_Size lq = lq_size lq"

definition IsValidSeq :: "'a looped_queue \<Rightarrow> u32 \<Rightarrow> bool go" where
  "IsValidSeq lq q = and_then (lq_Length lq) (\<lambda>l. Inr (q - stSeq lq < l))"

definition lq_Get :: "'a looped_queue \<Rightarrow> u32 \<Rightarrow> 'a option go" where
  "lq_Get lq i = and_then (go_mod (i - queueSt lq + lq_size lq + 1) (lq_size lq + 1)) (\<lambda>d.
     and_then (lq_Length lq) (\<lambda>l.
       if d < l then go_index (lq_data lq) (unat i) else Inr None))"

definition lq_Set :: "'a looped_queue \<Rightarrow> u32 \<Rightarrow> 'a option \<Rightarrow> 'a looped_queue go" where
  "lq_Set lq i x = and_then (go_mod (i - queueSt lq + lq_size lq + 1) (lq_size lq + 1)) (\<lambda>d.
     and_then (lq_Length lq) (\<lambda>l.
       if d < l
       then and_then (go_store (lq_data lq) (unat i) x) (\<lambda>ds. Inr (lq\<lparr>lq_data := ds\<rparr>))
       else Inr lq))"

definition GetBySeq :: "'a looped_queue \<Rightarrow> u32 \<Rightarrow> 'a option go" where
  "GetBySeq lq q = and_then (IsValidSeq lq q) (\<lambda>v.
     if v then lq_Get lq (q - stSeq lq) else Inr None)"

definition SetBySeq :: "'a looped_queue \<Rightarrow> u32 \<Rightarrow> 'a option \<Rightarrow> 'a looped_queue go" where
  "SetBySeq lq q x = and_then (IsValidSeq lq q) (\<lambda>v.
     if v then lq_Set lq (q - stSeq lq) x else Inr lq)"

definition GetEnSeq :: "'a looped_queue \<Rightarrow> u32" where
  "GetEnSeq lq = enSeq lq"

definition GetStSeq :: "'a looped_queue \<Rightarrow> u32" where
  "GetStSeq lq = stSeq lq"

text \<open>\<open>PopFront\<close> returns nil on an empty queue. Both operations return the new queue too.\<close>

definition PopFront :: "'a looped_queue \<Rightarrow> ('a option \<times> 'a looped_queue) go" where
  "PopFront lq =
     (if queueSt lq = queueEn lq then Inr (None, lq)
      else and_then (go_index (lq_data lq) (unat (queueSt lq))) (\<lambda>r.
        and_then (go_mod (queueSt lq + 1) (lq_size lq + 1)) (\<lambda>s.
          Inr (r, lq\<lparr>queueSt := s, stSeq := stSeq lq + 1\<rparr>))))"

definition PushBack :: "'a looped_queue \<Rightarrow> 'a option \<Rightarrow> (bool \<times> 'a looped_queue) go" where
  "PushBack lq x =
     and_then (go_mod (queueEn lq - queueSt lq + lq_size lq + 1) (lq_size lq + 1)) (\<lambda>l.
       if l \<noteq> lq_size lq
       then and_then (go_store (lq_data lq) (unat (queueEn lq)) x) (\<lambda>ds.
         and_then (go_mod (queueEn lq + 1) (lq_size lq + 1)) (\<lambda>e.
           Inr (True, lq\<lparr>lq_data := ds, queueEn := e, enSeq := enSeq lq + 1\<rparr>)))
       else Inr (False, lq))"

subsection \<open>Invariant and abstraction\<close>

text \<open>
  The index arithmetic \<open>(en - st + size + 1) % (size + 1)\<close> is done in \<open>uint32\<close>; it is the
  distance from start to end as long as \<open>2 * size + 1\<close> does not overflow.
\<close>

definition lq_len :: "'a looped_queue \<Rightarrow> nat" where
  "lq_len lq = (unat (queueEn lq) + unat (lq_size lq) + 1 - unat (queueSt lq))
     mod (unat (lq_size lq) + 1)"

definition lq_inv :: "'a looped_queue \<Rightarrow> bool" where
  "lq_inv lq \<longleftrightarrow> unat (lq_size lq) < 2 ^ 31
     \<and> length (lq_data lq) = unat (lq_size lq) + 1
     \<and> queueSt lq \<le> lq_size lq \<and> queueEn lq \<le> lq_size lq
     \<and> enSeq lq - stSeq lq = word_of_nat (lq_len lq)"

definition lq_slot :: "'a looped_queue \<Rightarrow> nat \<Rightarrow> nat" where
  "lq_slot lq i = (unat (queueSt lq) + i) mod (unat (lq_size lq) + 1)"

definition lq_list :: "'a looped_queue \<Rightarrow> 'a option list" where
  "lq_list lq = map (\<lambda>i. lq_data lq ! lq_slot lq i) [0..<lq_len lq]"

definition lq_cap :: "'a looped_queue \<Rightarrow> nat" where
  "lq_cap lq = unat (lq_size lq)"


subsection \<open>Index arithmetic on \<open>uint32\<close>\<close>

lemma ring_distance:
  fixes a b s :: u32
  assumes "b \<le> s" and "a \<le> s" and "unat s < 2 ^ 31"
  shows "unat (a - b + s + 1) = unat a + unat s + 1 - unat b"
proof -
  have le: "unat b \<le> unat s" "unat a \<le> unat s"
    using assms by (simp_all add: word_le_nat_alt)
  have "a - b + s + 1 = word_of_nat (unat a + unat s + 1 - unat b)"
    using le by (simp add: of_nat_diff)
  moreover have "unat a + unat s + 1 - unat b < 2 ^ LENGTH(32)"
    using le assms(3) by simp
  ultimately show ?thesis by (simp add: unat_word_of_nat)
qed

lemma succ_no_wrap:
  fixes s :: u32
  assumes "unat s < 2 ^ 31"
  shows "unat (s + 1) = unat s + 1" and "s + 1 \<noteq> 0"
proof -
  show u: "unat (s + 1) = unat s + 1"
    using assms by (simp add: unat_word_ariths)
  then show "s + 1 \<noteq> 0" by (metis add_is_0 one_neq_zero unat_0)
qed

lemma ring_step:
  fixes a s :: u32
  assumes "a \<le> s" and "unat s < 2 ^ 31"
  shows "unat ((a + 1) mod (s + 1)) = (unat a + 1) mod (unat s + 1)"
proof -
  have "unat a < 2 ^ 31" using assms by (simp add: word_le_nat_alt)
  then show ?thesis using assms by (simp add: unat_mod succ_no_wrap)
qed

lemma lq_inv_le:
  assumes "lq_inv lq"
  shows "unat (queueSt lq) \<le> unat (lq_size lq)" "unat (queueEn lq) \<le> unat (lq_size lq)"
    "lq_size lq + 1 \<noteq> 0" "unat (lq_size lq + 1) = unat (lq_size lq) + 1"
    "unat (lq_size lq) < 2 ^ 31"
  using assms by (simp_all add: lq_inv_def word_le_nat_alt succ_no_wrap)

lemma lq_len_le: "lq_len lq \<le> lq_cap lq"
  unfolding lq_len_def lq_cap_def using mod_less_divisor [of "unat (lq_size lq) + 1"] by simp

lemma lq_distance_word:
  assumes "lq_inv lq" and "a \<le> lq_size lq"
  shows "unat ((a - queueSt lq + lq_size lq + 1) mod (lq_size lq + 1))
    = (unat a + unat (lq_size lq) + 1 - unat (queueSt lq)) mod (unat (lq_size lq) + 1)"
  using assms by (simp add: unat_mod ring_distance succ_no_wrap lq_inv_def)

lemma lq_Length_eq [go_simps]:
  assumes "lq_inv lq"
  shows "lq_Length lq = Inr (word_of_nat (lq_len lq))"
    and "unat (word_of_nat (lq_len lq) :: u32) = lq_len lq"
proof -
  let ?w = "(queueEn lq - queueSt lq + lq_size lq + 1) mod (lq_size lq + 1)"
  have u: "unat ?w = lq_len lq"
    using lq_distance_word [OF assms] assms by (simp add: lq_len_def lq_inv_def)
  then have w: "?w = word_of_nat (lq_len lq)" by (metis word_of_nat_unat)
  show "lq_Length lq = Inr (word_of_nat (lq_len lq))"
    using lq_inv_le(3) [OF assms] w by (simp add: lq_Length_def)
  show "unat (word_of_nat (lq_len lq) :: u32) = lq_len lq" using u w by simp
qed

lemma lq_full_iff:
  assumes "lq_inv lq"
  shows "word_of_nat (lq_len lq) = lq_size lq \<longleftrightarrow> lq_len lq = lq_cap lq"
  using lq_Length_eq(2) [OF assms] by (metis lq_cap_def word_of_nat_unat)

lemma lq_cap_word [simp]: "word_of_nat (lq_cap lq) = lq_size lq"
  by (simp add: lq_cap_def)

lemma lq_Full_eq:
  assumes "lq_inv lq"
  shows "lq_Full lq = Inr (lq_len lq = lq_cap lq)"
proof -
  have "lq_Full lq = and_then (lq_Length lq) (\<lambda>l. Inr (l = lq_size lq))"
    by (simp add: lq_Full_def lq_Length_def)
  then show ?thesis by (simp add: lq_Length_eq [OF assms] lq_full_iff [OF assms])
qed

lemma lq_length_list [simp]: "length (lq_list lq) = lq_len lq"
  by (simp add: lq_list_def)

lemma lq_slot_less: "lq_slot lq i < unat (lq_size lq) + 1"
  by (simp add: lq_slot_def)

text \<open>The slot after the last element is \<open>queueEn\<close>; distinct offsets have distinct slots.\<close>

lemma lq_slot_end:
  assumes "lq_inv lq"
  shows "lq_slot lq (lq_len lq) = unat (queueEn lq)"
proof -
  have le: "unat (queueSt lq) \<le> unat (lq_size lq)" "unat (queueEn lq) \<le> unat (lq_size lq)"
    using lq_inv_le [OF assms] by simp_all
  have "lq_slot lq (lq_len lq) = (unat (queueSt lq) +
      (unat (queueEn lq) + unat (lq_size lq) + 1 - unat (queueSt lq))) mod (unat (lq_size lq) + 1)"
    by (simp add: lq_slot_def lq_len_def mod_add_right_eq)
  also have "unat (queueSt lq) + (unat (queueEn lq) + unat (lq_size lq) + 1 - unat (queueSt lq))
      = unat (queueEn lq) + (unat (lq_size lq) + 1)"
    using le by simp
  finally show ?thesis using le by (metis add.commute le_imp_less_Suc mod_add_self2 mod_less plus_1_eq_Suc)
qed

lemma lq_slot_inj:
  assumes "i \<le> unat (lq_size lq)" and "j \<le> unat (lq_size lq)"
    and "lq_slot lq i = lq_slot lq j"
  shows "i = j"
proof -
  let ?m = "unat (lq_size lq) + 1"
  have "i mod ?m = j mod ?m"
    using assms(3) unfolding lq_slot_def by (rule nat_mod_add_left_cancel)
  then show ?thesis using assms by simp
qed

subsection \<open>\<open>PushBack\<close> and \<open>PopFront\<close> on the list of elements\<close>

lemma lq_inv_New: "unat n < 2 ^ 31 \<Longrightarrow> lq_inv (NewLoopedQueue n q)"
  by (simp add: lq_inv_def NewLoopedQueue_def succ_no_wrap lq_len_def)

lemma lq_list_New: "lq_list (NewLoopedQueue n q) = []"
  by (simp add: lq_list_def lq_len_def NewLoopedQueue_def)

lemma lq_cap_New: "lq_cap (NewLoopedQueue n q) = unat n"
  by (simp add: lq_cap_def NewLoopedQueue_def)

lemma lq_empty_iff:
  assumes "lq_inv lq"
  shows "queueSt lq = queueEn lq \<longleftrightarrow> lq_len lq = 0"
proof
  assume "queueSt lq = queueEn lq"
  then show "lq_len lq = 0" using lq_inv_le [OF assms] by (simp add: lq_len_def)
next
  assume "lq_len lq = 0"
  then have "lq_slot lq 0 = unat (queueEn lq)" using lq_slot_end [OF assms] by simp
  moreover have "lq_slot lq 0 = unat (queueSt lq)"
    using lq_inv_le [OF assms] by (simp add: lq_slot_def)
  ultimately show "queueSt lq = queueEn lq" by (simp add: word_unat_eq_iff)
qed

lemma ring_len_push:
  fixes e s n :: nat
  assumes "e \<le> n" and "s \<le> n" and "(e + n + 1 - s) mod (n + 1) < n"
  shows "((e + 1) mod (n + 1) + n + 1 - s) mod (n + 1) = (e + n + 1 - s) mod (n + 1) + 1"
proof (cases "s \<le> e")
  case True
  then have "(e + n + 1 - s) mod (n + 1) = e - s"
    using assms by (metis Nat.add_diff_assoc2 add.assoc le_imp_less_Suc less_imp_diff_less
        mod_add_self2 mod_less Suc_eq_plus1)
  then show ?thesis
    using True assms by (cases "e = n") (auto simp: mod_if Suc_diff_le)
next
  case False
  then show ?thesis using assms by (auto simp: mod_if)
qed

lemma ring_len_pop:
  fixes e s n :: nat
  assumes "e \<le> n" and "s \<le> n" and "e \<noteq> s"
  shows "(e + n + 1 - s) mod (n + 1) = (e + n + 1 - (s + 1) mod (n + 1)) mod (n + 1) + 1"
  using assms by (cases "s = n") (auto simp: mod_if)

lemma PushBack_full:
  assumes "lq_inv lq" and "lq_len lq = lq_cap lq"
  shows "PushBack lq x = Inr (False, lq)"
proof -
  have "PushBack lq x = and_then (lq_Length lq) (\<lambda>l. if l \<noteq> lq_size lq
       then and_then (go_store (lq_data lq) (unat (queueEn lq)) x) (\<lambda>ds.
         and_then (go_mod (queueEn lq + 1) (lq_size lq + 1)) (\<lambda>e.
           Inr (True, lq\<lparr>lq_data := ds, queueEn := e, enSeq := enSeq lq + 1\<rparr>)))
       else Inr (False, lq))"
    by (simp add: PushBack_def lq_Length_def)
  then show ?thesis using assms by (simp add: lq_Length_eq lq_full_iff)
qed

definition lq_pushed :: "'a looped_queue \<Rightarrow> 'a option \<Rightarrow> 'a looped_queue" where
  "lq_pushed lq x = lq\<lparr>lq_data := (lq_data lq)[unat (queueEn lq) := x],
     queueEn := (queueEn lq + 1) mod (lq_size lq + 1), enSeq := enSeq lq + 1\<rparr>"

lemma PushBack_ok:
  assumes "lq_inv lq" and "lq_len lq < lq_cap lq"
  shows "PushBack lq x = Inr (True, lq_pushed lq x)"
proof -
  have "PushBack lq x = and_then (lq_Length lq) (\<lambda>l. if l \<noteq> lq_size lq
       then and_then (go_store (lq_data lq) (unat (queueEn lq)) x) (\<lambda>ds.
         and_then (go_mod (queueEn lq + 1) (lq_size lq + 1)) (\<lambda>e.
           Inr (True, lq\<lparr>lq_data := ds, queueEn := e, enSeq := enSeq lq + 1\<rparr>)))
       else Inr (False, lq))"
    by (simp add: PushBack_def lq_Length_def)
  moreover have "unat (queueEn lq) < length (lq_data lq)"
    using assms(1) lq_inv_le [OF assms(1)] by (simp add: lq_inv_def)
  ultimately show ?thesis
    using assms lq_inv_le(3) [OF assms(1)] by (simp add: lq_Length_eq lq_full_iff lq_pushed_def)
qed

lemma lq_pushed_len:
  assumes "lq_inv lq" and "lq_len lq < lq_cap lq"
  shows "lq_len (lq_pushed lq x) = lq_len lq + 1"
proof -
  have "unat ((queueEn lq + 1) mod (lq_size lq + 1))
      = (unat (queueEn lq) + 1) mod (unat (lq_size lq) + 1)"
    using assms(1) by (intro ring_step) (simp_all add: lq_inv_def)
  then show ?thesis
    using assms lq_inv_le [OF assms(1)] ring_len_push
    by (simp add: lq_len_def lq_pushed_def lq_cap_def)
qed

lemma lq_pushed_inv:
  assumes "lq_inv lq" and "lq_len lq < lq_cap lq"
  shows "lq_inv (lq_pushed lq x)"
proof -
  have "unat ((queueEn lq + 1) mod (lq_size lq + 1)) \<le> unat (lq_size lq)"
    using lq_inv_le [OF assms(1)] by (simp add: unat_mod less_Suc_eq_le [symmetric])
  moreover have "enSeq lq + 1 - stSeq lq = word_of_nat (lq_len lq + 1)"
    using assms(1) by (simp add: lq_inv_def algebra_simps)
  ultimately show ?thesis
    using assms lq_pushed_len [OF assms, of x]
    by (simp add: lq_inv_def lq_pushed_def word_le_nat_alt)
qed

lemma lq_pushed_list:
  assumes inv: "lq_inv lq" and room: "lq_len lq < lq_cap lq"
  shows "lq_list (lq_pushed lq x) = lq_list lq @ [x]"
proof (rule nth_equalityI)
  show "length (lq_list (lq_pushed lq x)) = length (lq_list lq @ [x])"
    using lq_pushed_len [OF inv room] by simp
next
  fix i assume "i < length (lq_list (lq_pushed lq x))"
  then have i: "i \<le> lq_len lq" using lq_pushed_len [OF inv room] by simp
  have slot: "lq_slot (lq_pushed lq x) i = lq_slot lq i"
    by (simp add: lq_slot_def lq_pushed_def)
  have small: "lq_len lq \<le> unat (lq_size lq)" using room by (simp add: lq_cap_def)
  have L: "length (lq_data lq) = unat (lq_size lq) + 1" using inv by (simp add: lq_inv_def)
  have nth: "lq_list (lq_pushed lq x) ! i
      = (lq_data lq)[unat (queueEn lq) := x] ! lq_slot lq i"
    using i lq_pushed_len [OF inv room, of x] slot
    by (simp add: lq_list_def del: upt_Suc) (simp add: lq_pushed_def)
  show "lq_list (lq_pushed lq x) ! i = (lq_list lq @ [x]) ! i"
  proof (cases "i = lq_len lq")
    case True
    then show ?thesis
      using nth lq_slot_end [OF inv] L lq_slot_less [of lq i] by (simp add: nth_append)
  next
    case False
    then have "lq_slot lq i \<noteq> unat (queueEn lq)"
      using lq_slot_inj [of i lq "lq_len lq"] i small lq_slot_end [OF inv] by auto
    then show ?thesis using nth i False by (simp add: nth_append lq_list_def)
  qed
qed

definition lq_popped :: "'a looped_queue \<Rightarrow> 'a looped_queue" where
  "lq_popped lq = lq\<lparr>queueSt := (queueSt lq + 1) mod (lq_size lq + 1), stSeq := stSeq lq + 1\<rparr>"

lemma lq_list_nonempty:
  assumes "lq_inv lq" and "0 < lq_len lq"
  shows "lq_list lq \<noteq> []" and "hd (lq_list lq) = lq_data lq ! unat (queueSt lq)"
proof -
  show "lq_list lq \<noteq> []" using assms(2) by (simp add: lq_list_def)
  show "hd (lq_list lq) = lq_data lq ! unat (queueSt lq)"
    using assms(2) lq_inv_le [OF assms(1)]
    by (simp add: lq_list_def hd_map upt_rec lq_slot_def)
qed

lemma PopFront_empty: "lq_inv lq \<Longrightarrow> lq_len lq = 0 \<Longrightarrow> PopFront lq = Inr (None, lq)"
  by (simp add: PopFront_def lq_empty_iff)

lemma PopFront_ok:
  assumes "lq_inv lq" and "0 < lq_len lq"
  shows "PopFront lq = Inr (hd (lq_list lq), lq_popped lq)"
proof -
  have "queueSt lq \<noteq> queueEn lq" using assms lq_empty_iff [OF assms(1)] by simp
  moreover have "unat (queueSt lq) < length (lq_data lq)"
    using assms(1) lq_inv_le [OF assms(1)] by (simp add: lq_inv_def)
  ultimately show ?thesis
    using lq_inv_le(3) [OF assms(1)]
    by (simp add: PopFront_def lq_popped_def lq_list_nonempty [OF assms])
qed

lemma lq_popped_len:
  assumes "lq_inv lq" and "0 < lq_len lq"
  shows "lq_len lq = lq_len (lq_popped lq) + 1"
proof -
  have "unat ((queueSt lq + 1) mod (lq_size lq + 1))
      = (unat (queueSt lq) + 1) mod (unat (lq_size lq) + 1)"
    using assms(1) by (intro ring_step) (simp_all add: lq_inv_def)
  moreover have "unat (queueEn lq) \<noteq> unat (queueSt lq)"
    using lq_empty_iff [OF assms(1)] assms(2) by (metis less_irrefl word_unat_eq_iff)
  ultimately show ?thesis
    using lq_inv_le [OF assms(1)] ring_len_pop
    by (simp add: lq_len_def lq_popped_def)
qed

lemma lq_popped_inv:
  assumes "lq_inv lq" and "0 < lq_len lq"
  shows "lq_inv (lq_popped lq)"
proof -
  have "unat ((queueSt lq + 1) mod (lq_size lq + 1)) \<le> unat (lq_size lq)"
    using lq_inv_le [OF assms(1)] by (simp add: unat_mod less_Suc_eq_le [symmetric])
  moreover have "enSeq lq - (stSeq lq + 1) = word_of_nat (lq_len (lq_popped lq))"
    using assms(1) lq_popped_len [OF assms] by (simp add: lq_inv_def algebra_simps)
  ultimately show ?thesis
    using assms by (simp add: lq_inv_def lq_popped_def word_le_nat_alt)
qed

lemma lq_popped_list:
  assumes inv: "lq_inv lq" and ne: "0 < lq_len lq"
  shows "lq_list (lq_popped lq) = tl (lq_list lq)"
proof (rule nth_equalityI)
  show "length (lq_list (lq_popped lq)) = length (tl (lq_list lq))"
    using lq_popped_len [OF inv ne] by simp
next
  fix i assume "i < length (lq_list (lq_popped lq))"
  then have i: "i + 1 < lq_len lq" using lq_popped_len [OF inv ne] by simp
  have "unat ((queueSt lq + 1) mod (lq_size lq + 1))
      = (unat (queueSt lq) + 1) mod (unat (lq_size lq) + 1)"
    using inv by (intro ring_step) (simp_all add: lq_inv_def)
  then have "lq_slot (lq_popped lq) i = lq_slot lq (i + 1)"
    by (simp add: lq_slot_def lq_popped_def mod_add_left_eq)
  then have "lq_list (lq_popped lq) ! i = lq_data lq ! lq_slot lq (i + 1)"
    using i lq_popped_len [OF inv ne] by (simp add: lq_list_def [of "lq_popped lq"] del: upt_Suc)
      (simp add: lq_popped_def)
  moreover have "tl (lq_list lq) ! i = lq_data lq ! lq_slot lq (i + 1)"
    using i by (simp add: nth_tl) (simp add: lq_list_def del: upt_Suc)
  ultimately show "lq_list (lq_popped lq) ! i = tl (lq_list lq) ! i" by simp
qed

lemma lq_cap_updates [simp]:
  "lq_cap (lq_pushed lq x) = lq_cap lq"
  "lq_cap (lq_popped lq) = lq_cap lq"
  by (simp_all add: lq_cap_def lq_pushed_def lq_popped_def)

subsection \<open>The bounded FIFO interface\<close>

text \<open>A run of queue operations and the run of the same operations on a bounded list.\<close>

datatype 'x queue_op = QPush 'x | QPop

datatype 'x queue_out = QPushed bool | QPopped 'x

fun queue_run :: "('q \<Rightarrow> 'x \<Rightarrow> (bool \<times> 'q) go) \<Rightarrow> ('q \<Rightarrow> ('x \<times> 'q) go)
    \<Rightarrow> 'x queue_op list \<Rightarrow> 'q \<Rightarrow> ('x queue_out list \<times> 'q) go" where
  "queue_run push pop [] q = Inr ([], q)"
| "queue_run push pop (QPush x # ops) q = and_then (push q x) (\<lambda>(ok, q').
     and_then (queue_run push pop ops q') (\<lambda>(outs, q''). Inr (QPushed ok # outs, q'')))"
| "queue_run push pop (QPop # ops) q = and_then (pop q) (\<lambda>(x, q').
     and_then (queue_run push pop ops q') (\<lambda>(outs, q''). Inr (QPopped x # outs, q'')))"

fun fifo_run :: "nat \<Rightarrow> 'x \<Rightarrow> 'x queue_op list \<Rightarrow> 'x list \<Rightarrow> 'x queue_out list \<times> 'x list" where
  "fifo_run n d [] xs = ([], xs)"
| "fifo_run n d (QPush x # ops) xs =
     (let ok = length xs < n; r = fifo_run n d ops (if ok then xs @ [x] else xs)
      in (QPushed ok # fst r, snd r))"
| "fifo_run n d (QPop # ops) xs =
     (let x = (if xs = [] then d else hd xs); r = fifo_run n d ops (tl xs)
      in (QPopped x # fst r, snd r))"

locale bounded_queue =
  fixes push :: "'q \<Rightarrow> 'x \<Rightarrow> (bool \<times> 'q) go"
    and pop :: "'q \<Rightarrow> ('x \<times> 'q) go"
    and nothing :: "'x"
    and contents :: "'q \<Rightarrow> 'x list"
    and capacity :: "'q \<Rightarrow> nat"
    and wf :: "'q \<Rightarrow> bool"
  assumes push_room: "wf q \<Longrightarrow> length (contents q) < capacity q \<Longrightarrow>
      \<exists>q'. push q x = Inr (True, q') \<and> wf q' \<and> contents q' = contents q @ [x]
        \<and> capacity q' = capacity q"
    and push_full: "wf q \<Longrightarrow> length (contents q) = capacity q \<Longrightarrow> push q x = Inr (False, q)"
    and pop_some: "wf q \<Longrightarrow> contents q \<noteq> [] \<Longrightarrow>
      \<exists>q'. pop q = Inr (hd (contents q), q') \<and> wf q' \<and> contents q' = tl (contents q)
        \<and> capacity q' = capacity q"
    and pop_none: "wf q \<Longrightarrow> contents q = [] \<Longrightarrow> pop q = Inr (nothing, q)"
    and bounded: "wf q \<Longrightarrow> length (contents q) \<le> capacity q"
begin

lemma run_refines_fifo:
  assumes "wf q"
  shows "\<exists>q'. queue_run push pop ops q
      = Inr (fst (fifo_run (capacity q) nothing ops (contents q)), q')
    \<and> contents q' = snd (fifo_run (capacity q) nothing ops (contents q))
    \<and> wf q' \<and> capacity q' = capacity q"
  using assms
proof (induction ops arbitrary: q)
  case (Cons op ops)
  show ?case
  proof (cases op)
    case (QPush x)
    show ?thesis
    proof (cases "length (contents q) < capacity q")
      case True
      then obtain q1 where q1: "push q x = Inr (True, q1)" "wf q1"
        "contents q1 = contents q @ [x]" "capacity q1 = capacity q"
        using push_room [OF Cons.prems] by blast
      show ?thesis using Cons.IH [OF q1(2)] q1 True QPush by (auto simp: Let_def)
    next
      case False
      then have "length (contents q) = capacity q" using bounded [OF Cons.prems] by simp
      then show ?thesis
        using Cons.IH [OF Cons.prems] push_full [OF Cons.prems] QPush by (auto simp: Let_def)
    qed
  next
    case QPop
    show ?thesis
    proof (cases "contents q = []")
      case True
      then show ?thesis
        using Cons.IH [OF Cons.prems] pop_none [OF Cons.prems] QPop by (auto simp: Let_def)
    next
      case False
      then obtain q1 where q1: "pop q = Inr (hd (contents q), q1)" "wf q1"
        "contents q1 = tl (contents q)" "capacity q1 = capacity q"
        using pop_some [OF Cons.prems] by blast
      show ?thesis using Cons.IH [OF q1(2)] q1 False QPop by (auto simp: Let_def)
    qed
  qed
qed simp

end

interpretation ring: bounded_queue PushBack PopFront None lq_list lq_cap lq_inv
proof unfold_locales
  fix q :: "'a looped_queue" and x
  assume q: "lq_inv q"
  show "\<exists>q'. PushBack q x = Inr (True, q') \<and> lq_inv q' \<and> lq_list q' = lq_list q @ [x]
      \<and> lq_cap q' = lq_cap q" if "length (lq_list q) < lq_cap q"
    using q that by (simp add: PushBack_ok lq_pushed_inv lq_pushed_list)
  show "PushBack q x = Inr (False, q)" if "length (lq_list q) = lq_cap q"
    using q that by (simp add: PushBack_full)
  have pos: "0 < lq_len q" if "lq_list q \<noteq> []"
    using that by (metis length_greater_0_conv lq_length_list)
  show "\<exists>q'. PopFront q = Inr (hd (lq_list q), q') \<and> lq_inv q' \<and> lq_list q' = tl (lq_list q)
      \<and> lq_cap q' = lq_cap q" if "lq_list q \<noteq> []"
    using q pos [OF that] by (simp add: PopFront_ok lq_popped_inv lq_popped_list)
  show "PopFront q = Inr (None, q)" if "lq_list q = []"
    using q that lq_length_list [of q] by (simp add: PopFront_empty)
  show "length (lq_list q) \<le> lq_cap q" by (simp add: lq_len_le)
qed

subsection \<open>Access by sequence number\<close>

text \<open>\<open>IsValidSeq\<close> accepts the sequence numbers of the queued elements, modulo \<open>2 ^ 32\<close>.\<close>

lemma IsValidSeq_eq:
  assumes "lq_inv lq"
  shows "IsValidSeq lq q = Inr (unat (q - stSeq lq) < lq_len lq)"
proof -
  have "q - stSeq lq < word_of_nat (lq_len lq) \<longleftrightarrow> unat (q - stSeq lq) < lq_len lq"
    by (simp add: word_less_nat_alt lq_Length_eq(2) [OF assms])
  then show ?thesis by (simp add: IsValidSeq_def lq_Length_eq(1) [OF assms])
qed

definition lq_occupied :: "'a looped_queue \<Rightarrow> u32 \<Rightarrow> bool" where
  "lq_occupied lq i \<longleftrightarrow> (unat i + unat (lq_size lq) + 1 - unat (queueSt lq))
     mod (unat (lq_size lq) + 1) < lq_len lq"

lemma lq_Get_eq:
  assumes "lq_inv lq" and "i \<le> lq_size lq"
  shows "lq_Get lq i = Inr (if lq_occupied lq i then lq_data lq ! unat i else None)"
proof -
  let ?d = "(i - queueSt lq + lq_size lq + 1) mod (lq_size lq + 1)"
  have "?d < word_of_nat (lq_len lq) \<longleftrightarrow> lq_occupied lq i"
    using lq_distance_word [OF assms] lq_Length_eq(2) [OF assms(1)]
    by (simp add: word_less_nat_alt lq_occupied_def)
  moreover have "unat i < length (lq_data lq)"
    using assms by (simp add: lq_inv_def word_le_nat_alt)
  ultimately show ?thesis
    using lq_inv_le(3) [OF assms(1)] by (simp add: lq_Get_def lq_Length_eq(1) [OF assms(1)])
qed

text \<open>What \<open>GetBySeq\<close> computes: it reads slot \<open>i\<close> for the element at offset \<open>i\<close>.\<close>

lemma GetBySeq_reads_offset:
  assumes "lq_inv lq" and "unat (q - stSeq lq) < lq_len lq"
  shows "GetBySeq lq q
    = Inr (if lq_occupied lq (q - stSeq lq) then lq_data lq ! unat (q - stSeq lq) else None)"
proof -
  have "q - stSeq lq \<le> lq_size lq"
    using assms(2) lq_len_le [of lq] by (simp add: word_le_nat_alt lq_cap_def)
  then show ?thesis using assms by (simp add: GetBySeq_def IsValidSeq_eq lq_Get_eq)
qed

lemma GetBySeq_total:
  assumes "lq_inv lq"
  shows "\<exists>x. GetBySeq lq q = Inr x"
  using assms GetBySeq_reads_offset [OF assms, of q]
  by (cases "unat (q - stSeq lq) < lq_len lq") (simp_all add: GetBySeq_def IsValidSeq_eq)

lemma GetBySeq_aligned:
  assumes "lq_inv lq" and "queueSt lq = 0" and "unat (q - stSeq lq) < lq_len lq"
  shows "GetBySeq lq q = Inr (lq_list lq ! unat (q - stSeq lq))"
proof -
  let ?i = "unat (q - stSeq lq)"
  have i: "?i < unat (lq_size lq) + 1"
    using assms(3) lq_len_le [of lq] by (simp add: lq_cap_def)
  then have "lq_occupied lq (q - stSeq lq)" using assms(2,3)
    by (simp add: lq_occupied_def) (metis Suc_eq_plus1 add_Suc_right mod_add_self2 mod_less)
  moreover have "lq_slot lq ?i = ?i" using assms(2) i by (simp add: lq_slot_def)
  ultimately show ?thesis
    using assms by (simp add: GetBySeq_reads_offset lq_list_def)
qed

lemma GetBySeq_shifted_loses_front:
  assumes "lq_inv lq" and "0 < lq_len lq" and "0 < queueSt lq" and "queueSt lq < queueEn lq"
  shows "GetBySeq lq (stSeq lq) = Inr None"
proof -
  have n: "unat (queueSt lq) < unat (queueEn lq)" "unat (queueEn lq) \<le> unat (lq_size lq)"
      "0 < unat (queueSt lq)"
    using assms lq_inv_le [OF assms(1)] by (simp_all add: word_less_nat_alt)
  have "unat (queueEn lq) + unat (lq_size lq) + 1 - unat (queueSt lq)
      = (unat (queueEn lq) - unat (queueSt lq)) + (unat (lq_size lq) + 1)"
    using n by simp
  then have "lq_len lq = unat (queueEn lq) - unat (queueSt lq)"
    using n unfolding lq_len_def by (simp only: mod_add_self2) simp
  then have "\<not> lq_occupied lq 0" using n by (simp add: lq_occupied_def)
  then show ?thesis using GetBySeq_reads_offset [OF assms(1), of "stSeq lq"] assms(2) by simp
qed

lemma IsValidSeq_enSeq:
  assumes "lq_inv lq"
  shows "IsValidSeq lq (GetEnSeq lq) = Inr False"
proof -
  have "unat (enSeq lq - stSeq lq) = lq_len lq"
    using assms lq_Length_eq(2) [OF assms] by (simp add: lq_inv_def)
  then show ?thesis by (simp add: IsValidSeq_eq [OF assms] GetEnSeq_def)
qed

lemma lq_Set_eq:
  assumes "lq_inv lq" and "i \<le> lq_size lq"
  shows "lq_Set lq i x
    = Inr (if lq_occupied lq i then lq\<lparr>lq_data := (lq_data lq)[unat i := x]\<rparr> else lq)"
proof -
  let ?d = "(i - queueSt lq + lq_size lq + 1) mod (lq_size lq + 1)"
  have "?d < word_of_nat (lq_len lq) \<longleftrightarrow> lq_occupied lq i"
    using lq_distance_word [OF assms] lq_Length_eq(2) [OF assms(1)]
    by (simp add: word_less_nat_alt lq_occupied_def)
  moreover have "unat i < length (lq_data lq)"
    using assms by (simp add: lq_inv_def word_le_nat_alt)
  ultimately show ?thesis
    using lq_inv_le(3) [OF assms(1)] by (simp add: lq_Set_def lq_Length_eq(1) [OF assms(1)])
qed

lemma lq_inv_store: "lq_inv lq \<Longrightarrow> lq_inv (lq\<lparr>lq_data := (lq_data lq)[k := x]\<rparr>)"
  by (simp add: lq_inv_def lq_len_def)

lemma SetBySeq_inv:
  assumes "lq_inv lq"
  shows "\<exists>lq'. SetBySeq lq q x = Inr lq' \<and> lq_inv lq' \<and> lq_len lq' = lq_len lq"
proof (cases "unat (q - stSeq lq) < lq_len lq")
  case True
  then have "q - stSeq lq \<le> lq_size lq"
    using lq_len_le [of lq] by (simp add: word_le_nat_alt lq_cap_def)
  then show ?thesis
    using True assms by (simp add: SetBySeq_def IsValidSeq_eq lq_Set_eq lq_inv_store lq_len_def)
qed (simp add: SetBySeq_def IsValidSeq_eq assms)

text \<open>An index beyond the buffer that is congruent to an occupied one passes the guard of
  \<open>Get\<close> and then panics; this is what happens when a sequence number is passed as an index.\<close>

lemma lq_Get_out_of_range:
  assumes "lq_inv lq" and "lq_size lq < i"
    and "(i - queueSt lq + lq_size lq + 1) mod (lq_size lq + 1) < word_of_nat (lq_len lq)"
  shows "lq_Get lq i = Inl IndexOutOfRange"
proof -
  have "length (lq_data lq) \<le> unat i"
    using assms(1,2) by (simp add: lq_inv_def word_less_nat_alt)
  then show ?thesis
    using assms lq_inv_le(3) [OF assms(1)] by (simp add: lq_Get_def lq_Length_eq(1))
qed

subsection \<open>Properties\<close>

text \<open>C18: The ring buffer refines a bounded FIFO: on every well-formed queue, any sequence of
  \<open>PushBack\<close> and \<open>PopFront\<close> calls runs without panic, returns what the same calls return on the
  list of its elements (a push fails exactly when the list has \<open>size\<close> elements, a pop of the
  empty queue returns nil), and ends in a well-formed queue holding the same list.\<close>
theorem ring_refines_fifo:
  assumes "lq_inv q"
  shows "\<exists>q'. queue_run PushBack PopFront ops q
      = Inr (fst (fifo_run (lq_cap q) None ops (lq_list q)), q')
    \<and> lq_list q' = snd (fifo_run (lq_cap q) None ops (lq_list q))
    \<and> lq_inv q' \<and> lq_cap q' = lq_cap q"
  using assms by (rule ring.run_refines_fifo)

lemma ring_refines_fifo_witness:
  "\<exists>q'. queue_run PushBack PopFront [QPush (Some (7::nat)), QPush (Some 8), QPush (Some 9), QPop]
      (NewLoopedQueue 2 0)
    = Inr ([QPushed True, QPushed True, QPushed False, QPopped (Some 7)], q')
    \<and> lq_list q' = [Some 8]"
  using ring_refines_fifo [OF lq_inv_New [of 2 0],
      of "[QPush (Some (7::nat)), QPush (Some 8), QPush (Some 9), QPop]"]
  by (auto simp: lq_list_New lq_cap_New Let_def)

text \<open>The sequence numbers follow the elements: \<open>IsValidSeq\<close> never panics and accepts \<open>seq\<close> exactly
  when it is one of the \<open>Length\<close> numbers from \<open>stSeq\<close> on, modulo \<open>2 ^ 32\<close>; \<open>enSeq\<close>, the number
  of the next element, is the first one that is not valid.\<close>
theorem valid_seq_range:
  assumes "lq_inv q"
  shows "IsValidSeq q s = Inr (\<exists>i < length (lq_list q). s = stSeq q + word_of_nat i)
    \<and> IsValidSeq q (GetEnSeq q) = Inr False
    \<and> GetEnSeq q = stSeq q + word_of_nat (length (lq_list q))"
proof -
  have len: "lq_len q < 2 ^ 32"
    using lq_Length_eq(2) [OF assms] unat_32_less [of "word_of_nat (lq_len q)"] by simp
  have "unat (s - stSeq q) < lq_len q \<longleftrightarrow> (\<exists>i < lq_len q. s = stSeq q + word_of_nat i)"
  proof
    assume "unat (s - stSeq q) < lq_len q"
    then show "\<exists>i < lq_len q. s = stSeq q + word_of_nat i"
      by (intro exI [of _ "unat (s - stSeq q)"]) simp
  next
    assume "\<exists>i < lq_len q. s = stSeq q + word_of_nat i"
    then show "unat (s - stSeq q) < lq_len q"
      using len by (auto simp: unat_word_of_nat)
  qed
  then have "IsValidSeq q s = Inr (\<exists>i < length (lq_list q). s = stSeq q + word_of_nat i)"
    using assms by (simp only: IsValidSeq_eq lq_length_list)
  moreover have "GetEnSeq q = stSeq q + word_of_nat (length (lq_list q))"
    using assms by (simp add: GetEnSeq_def lq_inv_def algebra_simps)
  ultimately show ?thesis using IsValidSeq_enSeq [OF assms] by simp
qed

lemma valid_seq_range_witness:
  "IsValidSeq (NewLoopedQueue 4 9 :: nat looped_queue) 9 = Inr False"
  using valid_seq_range [OF lq_inv_New [of 4 9], of 9]
  by (auto simp: lq_list_New simp del: word_of_nat_eq_0_iff)

text \<open>While nothing has wrapped or been popped (\<open>queueSt = 0\<close>), \<open>GetBySeq\<close> returns the element
  with that sequence number.\<close>
theorem GetBySeq_finds_element:
  assumes "lq_inv q" and "queueSt q = 0" and "i < length (lq_list q)"
  shows "GetBySeq q (stSeq q + word_of_nat i) = Inr (lq_list q ! i)"
proof -
  have "unat (word_of_nat i :: u32) = i"
    using assms(3) lq_Length_eq(2) [OF assms(1)] unat_32_less [of "word_of_nat (lq_len q)"]
    by (intro unat_word_of_nat) simp
  then show ?thesis
    using GetBySeq_aligned [OF assms(1,2), of "stSeq q + word_of_nat i"] assms(3) by simp
qed

lemma GetBySeq_finds_element_witness:
  "GetBySeq (lq_pushed (NewLoopedQueue 4 9) (Some (7::nat))) 9 = Inr (Some 7)"
proof -
  let ?q = "NewLoopedQueue 4 9 :: nat looped_queue"
  have inv: "lq_inv ?q" by (rule lq_inv_New) simp
  have room: "lq_len ?q < lq_cap ?q" by (simp add: lq_cap_New) (simp add: lq_len_def NewLoopedQueue_def)
  show ?thesis
    using GetBySeq_finds_element [OF lq_pushed_inv [OF inv room, of "Some 7"], where i = 0]
      lq_pushed_list [OF inv room, of "Some 7"]
      lq_pushed_len [OF inv room, of "Some 7"]
    by (simp add: lq_list_New) (simp add: lq_pushed_def NewLoopedQueue_def)
qed

text \<open>After a pop, \<open>GetBySeq\<close> loses elements: it passes the offset \<open>seq - stSeq\<close> to \<open>Get\<close>, which expects
  an index of the array. On every queue whose elements lie at indices \<open>queueSt > 0\<close> to
  \<open>queueEn - 1\<close> the lookup of the oldest valid sequence number returns nil.\<close>
theorem GetBySeq_loses_front:
  assumes "lq_inv q" and "0 < queueSt q" and "queueSt q < queueEn q"
  shows "IsValidSeq q (GetStSeq q) = Inr True \<and> GetBySeq q (GetStSeq q) = Inr None"
proof -
  have "0 < lq_len q" using lq_empty_iff [OF assms(1)] assms(3) by fastforce
  then show ?thesis
    using GetBySeq_shifted_loses_front [OF assms(1)] assms
    by (simp add: GetStSeq_def IsValidSeq_eq)
qed

lemma GetBySeq_loses_front_witness:
  "let q = lq_popped (lq_pushed (lq_pushed (NewLoopedQueue 4 0) (Some 7)) (Some (8::nat)))
   in lq_list q = [Some 8] \<and> GetBySeq q (GetStSeq q) = Inr None"
proof -
  let ?q0 = "NewLoopedQueue 4 0 :: nat looped_queue"
  let ?q1 = "lq_pushed ?q0 (Some 7)"
  let ?q2 = "lq_pushed ?q1 (Some 8)"
  have i0: "lq_inv ?q0" and r0: "lq_len ?q0 < lq_cap ?q0"
    using lq_inv_New [of 4 0] by (simp_all add: lq_cap_New) (simp_all add: lq_len_def NewLoopedQueue_def)
  have i1: "lq_inv ?q1" and l1: "lq_len ?q1 = 1"
    using lq_pushed_inv [OF i0 r0] lq_pushed_len [OF i0 r0]
    by (simp_all) (simp add: lq_len_def NewLoopedQueue_def)
  have r1: "lq_len ?q1 < lq_cap ?q1" using l1 by (simp add: lq_cap_New)
  have i2: "lq_inv ?q2" and l2: "0 < lq_len ?q2"
    using lq_pushed_inv [OF i1 r1] lq_pushed_len [OF i1 r1] by simp_all
  have "lq_list (lq_popped ?q2) = [Some 8]"
    using lq_popped_list [OF i2 l2] lq_pushed_list [OF i1 r1] lq_pushed_list [OF i0 r0]
    by (simp add: lq_list_New)
  moreover have "GetBySeq (lq_popped ?q2) (GetStSeq (lq_popped ?q2)) = Inr None"
    using GetBySeq_loses_front [OF lq_popped_inv [OF i2 l2]]
    by (simp add: lq_popped_def lq_pushed_def NewLoopedQueue_def)
  ultimately show ?thesis by (simp add: Let_def)
qed

end
