(* ===== verification/Float_Arith.thy ===== *)
theory Float_Arith
  imports Prelude Complex_Main "HOL-Library.Log_Nat"
begin

text \<open>
  Go's \<open>float32\<close> and \<open>float64\<close>, as far as \<open>src/src/net/multipack.go\<close> uses them: a number is a
  rational, an infinity or not a number, and every operation rounds the exact result to the nearest
  number of the format, to even in a tie (each operation by itself, without fusing). The sign of
  zero is not kept; the code never divides by a negative zero. A conversion to an integer type that
  the value does not fit has the implementation's result, an argument here.
\<close>

subsection \<open>Rounding\<close>

datatype fl = Fin rat | Infinite bool | NaN

text \<open>A format: the bits of the significand and the least and greatest exponent.\<close>

type_synonym fl_format = "nat \<times> int \<times> int"

definition float32 :: fl_format where "float32 = (24, -126, 127)"
definition float64 :: fl_format where "float64 = (53, -1022, 1023)"

definition round_even :: "rat \<Rightarrow> int" where
  "round_even y = (let f = \<lfloor>y\<rfloor>; d = y - of_int f in
     if d < 1 / 2 \<or> d = 1 / 2 \<and> even f then f else f + 1)"

text \<open>The exponent of a positive number.\<close>

definition ilog2 :: "rat \<Rightarrow> int" where
  "ilog2 x = (let (a, b) = quotient_of x; e = bitlen a - bitlen b in if 2 powi e \<le> x then e else e - 1)"

text \<open>The distance of the numbers of the format around \<open>x\<close>.\<close>

definition fl_ulp :: "fl_format \<Rightarrow> rat \<Rightarrow> rat" where
  "fl_ulp fm x = (let (p, lo, hi) = fm in 2 powi (max lo (ilog2 \<bar>x\<bar>) - int p + 1))"

definition fl_round :: "fl_format \<Rightarrow> rat \<Rightarrow> fl" where
  "fl_round fm x =
     (if x = 0 then Fin 0
      else (let u = fl_ulp fm x; r = of_int (round_even (x / u)) * u
            in if 2 powi (snd (snd fm) + 1) \<le> \<bar>r\<bar> then Infinite (x < 0) else Fin r))"

subsection \<open>Operations\<close>

fun fl_neg :: "fl \<Rightarrow> fl" where
  "fl_neg (Fin x) = Fin (- x)" | "fl_neg (Infinite b) = Infinite (\<not> b)" | "fl_neg NaN = NaN"

fun fl_abs :: "fl \<Rightarrow> fl" where
  "fl_abs (Fin x) = Fin \<bar>x\<bar>" | "fl_abs (Infinite b) = Infinite False" | "fl_abs NaN = NaN"

fun fl_add :: "fl_format \<Rightarrow> fl \<Rightarrow> fl \<Rightarrow> fl" where
  "fl_add fm (Fin x) (Fin y) = fl_round fm (x + y)"
| "fl_add fm (Infinite a) (Fin y) = Infinite a"
| "fl_add fm (Fin x) (Infinite b) = Infinite b"
| "fl_add fm (Infinite a) (Infinite b) = (if a = b then Infinite a else NaN)"
| "fl_add fm _ _ = NaN"

definition fl_sub :: "fl_format \<Rightarrow> fl \<Rightarrow> fl \<Rightarrow> fl" where
  "fl_sub fm a b = fl_add fm a (fl_neg b)"

fun fl_mul :: "fl_format \<Rightarrow> fl \<Rightarrow> fl \<Rightarrow> fl" where
  "fl_mul fm (Fin x) (Fin y) = fl_round fm (x * y)"
| "fl_mul fm (Infinite a) (Fin y) = (if y = 0 then NaN else Infinite (a \<noteq> (y < 0)))"
| "fl_mul fm (Fin x) (Infinite b) = (if x = 0 then NaN else Infinite (b \<noteq> (x < 0)))"
| "fl_mul fm (Infinite a) (Infinite b) = Infinite (a \<noteq> b)"
| "fl_mul fm _ _ = NaN"

fun fl_div :: "fl_format \<Rightarrow> fl \<Rightarrow> fl \<Rightarrow> fl" where
  "fl_div fm (Fin x) (Fin y) = (if y = 0 then if x = 0 then NaN else Infinite (x < 0) else fl_round fm (x / y))"
| "fl_div fm (Infinite a) (Fin y) = Infinite (a \<noteq> (y < 0))"
| "fl_div fm (Fin x) (Infinite b) = Fin 0"
| "fl_div fm _ _ = NaN"

text \<open>\<open>a >= b\<close>.\<close>

fun fl_ge :: "fl \<Rightarrow> fl \<Rightarrow> bool" where
  "fl_ge (Fin x) (Fin y) \<longleftrightarrow> y \<le> x"
| "fl_ge (Infinite a) (Fin y) \<longleftrightarrow> \<not> a"
| "fl_ge (Fin x) (Infinite b) \<longleftrightarrow> b"
| "fl_ge (Infinite a) (Infinite b) \<longleftrightarrow> \<not> a \<or> b"
| "fl_ge _ _ \<longleftrightarrow> False"

text \<open>Conversions: between the formats, from an integer, and to \<open>int64\<close>.\<close>

fun fl_conv :: "fl_format \<Rightarrow> fl \<Rightarrow> fl" where
  "fl_conv fm (Fin x) = fl_round fm x" | "fl_conv fm (Infinite b) = Infinite b" | "fl_conv fm NaN = NaN"

definition fl_of_int :: "fl_format \<Rightarrow> int \<Rightarrow> fl" where
  "fl_of_int fm i = fl_round fm (of_int i)"

definition rat_trunc :: "rat \<Rightarrow> int" where
  "rat_trunc x = (if 0 \<le> x then \<lfloor>x\<rfloor> else \<lceil>x\<rceil>)"

definition fl_to_i64 :: "(fl \<Rightarrow> i64) \<Rightarrow> fl \<Rightarrow> i64" where
  "fl_to_i64 impl a = (case a of
       Fin x \<Rightarrow> if - (2 ^ 63) \<le> rat_trunc x \<and> rat_trunc x < 2 ^ 63 then word_of_int (rat_trunc x) else impl a
     | _ \<Rightarrow> impl a)"

text \<open>\<open>math.Ceil\<close>.\<close>

fun fl_ceil :: "fl \<Rightarrow> fl" where
  "fl_ceil (Fin x) = Fin (of_int \<lceil>x\<rceil>)" | "fl_ceil a = a"

subsection \<open>Lemmas\<close>

lemma round_even_error: "\<bar>of_int (round_even y) - y\<bar> \<le> 1 / 2"
proof -
  have f: "of_int \<lfloor>y\<rfloor> \<le> y" "y < of_int \<lfloor>y\<rfloor> + 1" by linarith+
  have "round_even y = (if y - of_int \<lfloor>y\<rfloor> < 1 / 2 \<or> y - of_int \<lfloor>y\<rfloor> = 1 / 2 \<and> even \<lfloor>y\<rfloor> then \<lfloor>y\<rfloor> else \<lfloor>y\<rfloor> + 1)"
    by (simp add: round_even_def Let_def)
  then show ?thesis using f by (auto simp: abs_le_iff split: if_splits)
qed

lemma round_even_of_int [simp]: "round_even (of_int i) = i"
  by (simp add: round_even_def)

lemma round_even_nonneg: "0 \<le> y \<Longrightarrow> 0 \<le> round_even y"
  by (simp add: round_even_def Let_def)

lemma ilog2_bounds:
  assumes "0 < x"
  shows "2 powi ilog2 x \<le> x" and "x < 2 powi (ilog2 x + 1)"
proof -
  obtain a b where q: "quotient_of x = (a, b)" by fastforce
  then have b: "0 < b" and x: "x = of_int a / of_int b" by (simp_all add: quotient_of_denom_pos quotient_of_div)
  then have a: "0 < a" using assms by (simp add: zero_less_divide_iff)
  have bl: "1 \<le> bitlen n" "2 powi (bitlen n - 1) \<le> (of_int n :: rat)" "(of_int n :: rat) < 2 powi bitlen n" if "0 < n" for n
  proof -
    show one: "1 \<le> bitlen n" using that by (simp add: bitlen_alt_def)
    from bitlen_bounds [OF that] have "of_int (2 ^ nat (bitlen n - 1)) \<le> (of_int n :: rat)" "(of_int n :: rat) < of_int (2 ^ nat (bitlen n))"
      unfolding of_int_le_iff of_int_less_iff by blast+
    then show "2 powi (bitlen n - 1) \<le> (of_int n :: rat)" "(of_int n :: rat) < 2 powi bitlen n"
      using one by (simp_all add: power_int_nonneg_exp)
  qed
  let ?e = "bitlen a - bitlen b"
  have "x * 2 powi (bitlen b - 1) \<le> x * of_int b" "x * of_int b \<le> x * 2 powi bitlen b"
    using bl(2,3) [OF b] assms by (simp_all add: mult_left_mono less_imp_le)
  moreover have "x * of_int b = of_int a" using x b by simp
  ultimately have "x * 2 powi (bitlen b - 1) < 2 powi bitlen a" "2 powi (bitlen a - 1) \<le> x * 2 powi bitlen b"
    using bl(2,3) [OF a] by linarith+
  then have "x < 2 powi bitlen a / 2 powi (bitlen b - 1)" "2 powi (bitlen a - 1) / 2 powi bitlen b \<le> x"
    by (simp_all add: pos_less_divide_eq pos_divide_le_eq)
  then have u: "x < 2 powi (?e + 1)" and l: "2 powi (?e - 1) \<le> x"
    by (simp_all add: power_int_diff [symmetric] algebra_simps)
  have "ilog2 x = (if 2 powi ?e \<le> x then ?e else ?e - 1)" by (simp add: ilog2_def q)
  then show "2 powi ilog2 x \<le> x" "x < 2 powi (ilog2 x + 1)" using u l by auto
qed

lemma fl_ulp_pos: "0 < fl_ulp fm x"
  by (cases fm) (simp add: fl_ulp_def)

lemma fl_round_finite:
  assumes "\<bar>x\<bar> + fl_ulp fm x / 2 < 2 powi (snd (snd fm) + 1)"
  obtains r where "fl_round fm x = Fin r" "\<bar>r - x\<bar> \<le> fl_ulp fm x / 2"
proof (cases "x = 0")
  case False
  let ?u = "fl_ulp fm x"
  let ?r = "of_int (round_even (x / ?u)) * ?u"
  have "?r - x = (of_int (round_even (x / ?u)) - x / ?u) * ?u" using fl_ulp_pos [of fm x] by (simp add: left_diff_distrib)
  then have "\<bar>?r - x\<bar> = \<bar>of_int (round_even (x / ?u)) - x / ?u\<bar> * ?u" using fl_ulp_pos [of fm x] by (simp add: abs_mult)
  also have "\<dots> \<le> 1 / 2 * ?u" using fl_ulp_pos [of fm x] round_even_error [of "x / ?u"] by (intro mult_right_mono) simp_all
  finally have e: "\<bar>?r - x\<bar> \<le> ?u / 2" by simp
  then have "\<not> 2 powi (snd (snd fm) + 1) \<le> \<bar>?r\<bar>" using assms by linarith
  then show thesis using that [of ?r] e False by (simp add: fl_round_def Let_def)
next
  case True
  then show thesis using that [of 0] fl_ulp_pos [of fm x] by (simp add: fl_round_def)
qed

lemma fl_round_nonneg:
  assumes "0 \<le> x"
  obtains r where "0 \<le> r" "fl_round fm x = Fin r" | "fl_round fm x = Infinite False"
proof -
  have "0 \<le> of_int (round_even (x / fl_ulp fm x)) * fl_ulp fm x"
    using assms fl_ulp_pos [of fm x] by (intro mult_nonneg_nonneg) (simp_all add: round_even_nonneg)
  moreover have "fl_round fm x = Fin 0 \<or> fl_round fm x = Infinite False
      \<or> fl_round fm x = Fin (of_int (round_even (x / fl_ulp fm x)) * fl_ulp fm x)"
    using assms by (simp add: fl_round_def Let_def)
  ultimately show thesis using that by auto
qed

text \<open>Numbers of the format are not changed.\<close>

lemma fl_round_exact:
  assumes "\<bar>m\<bar> < 2 ^ p" and "lo - int p + 1 \<le> k" and "k + int p \<le> hi + 1"
  shows "fl_round (p, lo, hi) (of_int m * 2 powi k) = Fin (of_int m * 2 powi k)"
proof (cases "m = 0")
  case False
  let ?x = "of_int m * 2 powi k :: rat"
  have m: "of_int \<bar>m\<bar> < (of_int (2 ^ p) :: rat)" using assms(1) unfolding of_int_less_iff .
  have "\<bar>?x\<bar> = of_int \<bar>m\<bar> * 2 powi k" by (simp add: abs_mult)
  also have "\<dots> < 2 ^ p * 2 powi k" using m by (intro mult_strict_right_mono) simp_all
  also have "\<dots> = 2 powi (int p + k)" by (simp add: power_int_add)
  finally have less: "\<bar>?x\<bar> < 2 powi (int p + k)" .
  have pos: "0 < \<bar>?x\<bar>" using False by simp
  have "2 powi ilog2 \<bar>?x\<bar> < (2 powi (int p + k) :: rat)" using ilog2_bounds(1) [OF pos] less by (rule le_less_trans)
  then have "ilog2 \<bar>?x\<bar> < int p + k"
    using power_int_increasing [of "int p + k" "ilog2 \<bar>?x\<bar>" "2 :: rat"] by (intro notI not_le_imp_less) simp
  then have e: "max lo (ilog2 \<bar>?x\<bar>) - int p + 1 \<le> k" using assms(2) by simp
  then obtain d where d: "k = max lo (ilog2 \<bar>?x\<bar>) - int p + 1 + int d" by (metis zle_iff_zadd)
  define u where "u = fl_ulp (p, lo, hi) ?x"
  have u: "0 < u" "2 powi k = u * 2 ^ d"
    by (simp add: u_def fl_ulp_pos) (simp only: u_def fl_ulp_def prod.case, subst (1) d, simp add: power_int_add)
  have "of_int m * (u * 2 ^ d) / u = of_int (m * 2 ^ d)" using u(1) by simp
  then have r: "of_int (round_even (?x / u)) * u = ?x" unfolding u(2) by (simp only: round_even_of_int) simp
  have "2 powi (int p + k) \<le> (2 powi (hi + 1) :: rat)" using assms(3) by (intro power_int_increasing) simp_all
  then have "\<not> 2 powi (hi + 1) \<le> \<bar>?x\<bar>" using less by linarith
  then show ?thesis using False r by (simp add: fl_round_def Let_def u_def)
qed (simp add: fl_round_def)

lemma fl_of_int_exact: "\<bar>i\<bar> < 2 ^ 24 \<Longrightarrow> fl_of_int float32 i = Fin (of_int i)"
  using fl_round_exact [of i 24 "-126" 0 127] by (simp add: fl_of_int_def float32_def)

text \<open>The number of pieces of size \<open>c\<close> of \<open>n\<close> bytes, as the code computes it: exact for every \<open>n\<close>
  below \<open>2 ^ 40\<close>.\<close>

lemma fl_ulp_le:
  assumes "0 < x" and "x < 2 powi k" and "lo < k"
  shows "fl_ulp (p, lo, hi) x \<le> 2 powi (k - int p)"
proof -
  have "2 powi ilog2 x < (2 powi k :: rat)" using ilog2_bounds(1) [OF assms(1)] assms(2) by (rule le_less_trans)
  then have "ilog2 x < k" using power_int_increasing [of k "ilog2 x" "2 :: rat"] by (intro notI not_le_imp_less) simp
  then show ?thesis using assms by (simp add: fl_ulp_def power_int_increasing)
qed

lemma fl_ceil_quotient:
  fixes n c :: nat
  assumes "n < 2 ^ 40" and "0 < c" and "c < 2 ^ 12"
  shows "fl_ceil (fl_div float64 (fl_of_int float64 (int n)) (fl_of_int float64 (int c)))
    = Fin (of_nat (n div c + (if n mod c = 0 then 0 else 1)))"
proof -
  let ?x = "of_nat n / of_nat c :: rat"
  have ex: "fl_of_int float64 i = Fin (of_int i)" if "\<bar>i\<bar> < 2 ^ 53" for i
    using fl_round_exact [of i 53 "-1022" 0 1023] that by (simp add: fl_of_int_def float64_def)
  have "fl_div float64 (fl_of_int float64 (int n)) (fl_of_int float64 (int c)) = fl_round float64 ?x"
    using assms by (simp add: ex)
  moreover have "fl_ceil (fl_round float64 ?x) = Fin (of_nat (n div c + (if n mod c = 0 then 0 else 1)))"
  proof (cases "n mod c = 0")
    case True
    then have "?x = of_int (int (n div c)) * 2 powi 0" using assms(2) by (auto simp: of_nat_div elim!: dvdE)
    moreover have "n div c < 2 ^ 53" using order.strict_trans1 [OF div_le_dividend [of n c] assms(1)] by simp
    ultimately have "fl_round float64 ?x = Fin ?x"
      using fl_round_exact [of "int (n div c)" 53 "-1022" 0 1023] by (simp add: float64_def)
    then show ?thesis using True assms(2) by (auto simp: elim!: dvdE)
  next
    case False
    let ?q = "n div c" and ?r = "n mod c"
    have x: "?x = of_nat ?q + of_nat ?r / of_nat c"
    proof -
      have "of_nat n = (of_nat ?q * of_nat c + of_nat ?r :: rat)" by (metis div_mult_mod_eq of_nat_add of_nat_mult)
      then show ?thesis using assms(2) by (simp add: add_divide_distrib)
    qed
    have c: "0 < (of_nat c :: rat)" "(of_nat c :: rat) < 2 ^ 12"
      using assms(2,3) of_nat_less_iff [of c "2 ^ 12", where 'a = rat] by simp_all
    have "1 \<le> (of_nat ?r :: rat)" "(of_nat ?r :: rat) \<le> of_nat c - 1"
      using False assms(2) mod_less_divisor [OF assms(2), of n] of_nat_le_iff [of "Suc ?r" c, where 'a = rat] by simp_all
    then have "1 / of_nat c \<le> (of_nat ?r / of_nat c :: rat)" "of_nat ?r / of_nat c \<le> (1 - 1 / of_nat c :: rat)"
      using c(1) by (simp_all add: divide_simps)
    moreover have "1 / 2 ^ 12 < (1 / of_nat c :: rat)" using c by (simp add: divide_simps)
    ultimately have b: "1 / 2 ^ 12 < ?x - of_nat ?q" "1 / 2 ^ 12 < of_nat ?q + 1 - ?x" unfolding x by linarith+
    have pos: "0 < ?x" using False assms(2) by (cases "n = 0") simp_all
    have "1 \<le> (of_nat c :: rat)" using assms(2) by simp
    then have "?x \<le> of_nat n" using c(1) by (simp add: pos_divide_le_eq mult_le_cancel_left1)
    also have "\<dots> < (2 ^ 40 :: rat)" using assms(1) of_nat_less_iff [of n "2 ^ 40", where 'a = rat] by simp
    finally have lt: "?x < 2 ^ 40" .
    have u: "fl_ulp float64 ?x \<le> 1 / 2 ^ 13"
      using fl_ulp_le [OF pos, of 40 "-1022" 53 1023] lt by (simp add: float64_def power_int_minus_divide)
    have "(2 :: rat) ^ 41 \<le> 2 ^ 1024" by (rule power_increasing) simp_all
    then have "\<bar>?x\<bar> + fl_ulp float64 ?x / 2 < 2 powi (snd (snd float64) + 1)"
      using lt u pos by (simp add: float64_def)
    then obtain y where y: "fl_round float64 ?x = Fin y" "\<bar>y - ?x\<bar> \<le> fl_ulp float64 ?x / 2" by (rule fl_round_finite)
    moreover have "fl_ulp float64 ?x / 2 \<le> 1 / 2 ^ 12" using u by simp
    ultimately have "\<bar>y - ?x\<bar> \<le> 1 / 2 ^ 12" by (intro order_trans [OF y(2)])
    then have "of_nat ?q < y" "y \<le> of_nat ?q + 1" using b unfolding abs_le_iff by linarith+
    then have "\<lceil>y\<rceil> = int ?q + 1" by (intro ceiling_unique) simp_all
    then show ?thesis using y(1) False by simp
  qed
  ultimately show ?thesis by simp
qed

text \<open>A \<open>float32\<close> of a number of this century's seconds is a multiple of 128, and so is the difference of
  two of them.\<close>

lemma fl_of_int_seconds:
  assumes "2 ^ 30 \<le> t" and "t < 2 ^ 31"
  obtains k where "fl_of_int float32 t = Fin (of_int k * 2 powi 7)" "2 ^ 23 \<le> k" "k \<le> 2 ^ 24"
    "\<bar>k * 128 - t\<bar> \<le> 64"
proof -
  let ?x = "of_int t :: rat"
  have x: "2 ^ 30 \<le> ?x" "?x < 2 ^ 31" using assms of_int_le_iff [of "2 ^ 30" t, where 'a = rat] of_int_less_iff [of t "2 ^ 31", where 'a = rat]
    by simp_all
  have "2 powi ilog2 ?x < (2 powi 31 :: rat)" "(2 powi 30 :: rat) < 2 powi (ilog2 ?x + 1)"
    using ilog2_bounds [of ?x] x by simp_all
  then have "ilog2 ?x < 31" "30 < ilog2 ?x + 1"
    using power_int_increasing [of 31 "ilog2 ?x" "2 :: rat"] power_int_increasing [of "ilog2 ?x + 1" 30 "2 :: rat"]
    by (intro notI not_le_imp_less; simp)+
  then have il: "ilog2 ?x = 30" by simp
  have u: "fl_ulp float32 ?x = 2 powi 7" using x(1) by (simp add: fl_ulp_def float32_def il)
  let ?k = "round_even (?x / 128)"
  have k: "\<bar>of_int ?k - ?x / 128\<bar> \<le> 1 / 2" by (rule round_even_error)
  have x': "1073741824 \<le> ?x" "?x < 2147483648" using x by simp_all
  have kb: "8388608 \<le> (of_int ?k + 1 / 2 :: rat)" "(of_int ?k :: rat) \<le> 16777216 + 1 / 2"
    using k x' unfolding abs_le_iff by linarith+
  have "2 ^ 23 \<le> ?k" "?k \<le> 2 ^ 24"
  proof -
    show "2 ^ 23 \<le> ?k"
    proof (rule ccontr)
      assume "\<not> 2 ^ 23 \<le> ?k"
      then have "?k + 1 \<le> 2 ^ 23" by simp
      then have "of_int (?k + 1) \<le> (of_int (2 ^ 23) :: rat)" unfolding of_int_le_iff .
      then have "(of_int ?k :: rat) + 1 \<le> 8388608" by simp
      then show False using kb(1) by linarith
    qed
    show "?k \<le> 2 ^ 24"
    proof (rule ccontr)
      assume "\<not> ?k \<le> 2 ^ 24"
      then have "2 ^ 24 + 1 \<le> ?k" by simp
      then have "of_int (2 ^ 24 + 1) \<le> (of_int ?k :: rat)" unfolding of_int_le_iff .
      then have "16777217 \<le> (of_int ?k :: rat)" by simp
      then show False using kb(2) by linarith
    qed
  qed
  moreover have "\<bar>?k * 128 - t\<bar> \<le> 64"
  proof -
    have "\<bar>of_int ?k * 128 - ?x\<bar> \<le> 64" using k unfolding abs_le_iff by linarith
    then have "(of_int \<bar>?k * 128 - t\<bar> :: rat) \<le> of_int 64" by simp
    then show ?thesis unfolding of_int_le_iff .
  qed
  moreover have "fl_of_int float32 t = Fin (of_int ?k * 2 powi 7)"
  proof -
    have "(of_int ?k :: rat) \<le> of_int (2 ^ 24)" "0 \<le> (of_int ?k :: rat)" using calculation(1,2) unfolding of_int_le_iff by simp_all
    then have "\<not> 2 powi 128 \<le> \<bar>of_int ?k * 128 :: rat\<bar>" by simp
    then show ?thesis using x(1) by (simp add: fl_of_int_def fl_round_def u) (simp add: float32_def)
  qed
  ultimately show thesis by (intro that)
qed

lemma fl_seconds_difference:
  assumes "2 ^ 30 \<le> s" and "s < 2 ^ 31" and "2 ^ 30 \<le> t" and "t < 2 ^ 31"
  obtains k where "fl_sub float32 (fl_of_int float32 t) (fl_of_int float32 s) = Fin (of_int (128 * k))"
    "\<bar>128 * k - (t - s)\<bar> \<le> 128"
proof -
  obtain a where a: "fl_of_int float32 t = Fin (of_int a * 2 powi 7)" "2 ^ 23 \<le> a" "a \<le> 2 ^ 24" "\<bar>a * 128 - t\<bar> \<le> 64"
    by (rule fl_of_int_seconds [OF assms(3,4)])
  obtain b where b: "fl_of_int float32 s = Fin (of_int b * 2 powi 7)" "2 ^ 23 \<le> b" "b \<le> 2 ^ 24" "\<bar>b * 128 - s\<bar> \<le> 64"
    by (rule fl_of_int_seconds [OF assms(1,2)])
  have "fl_round float32 (of_int (a - b) * 2 powi 7) = Fin (of_int (a - b) * 2 powi 7)"
    unfolding float32_def by (rule fl_round_exact) (use a(2,3) b(2,3) in simp_all)
  then have "fl_sub float32 (fl_of_int float32 t) (fl_of_int float32 s) = Fin (of_int (128 * (a - b)))"
    using a(1) b(1) by (simp add: fl_sub_def algebra_simps)
  moreover have "\<bar>128 * (a - b) - (t - s)\<bar> \<le> 128" using a(4) b(4) unfolding abs_le_iff right_diff_distrib by linarith
  ultimately show thesis by (rule that)
qed

end
