(* ===== verification/Go_Loop.thy ===== *)
theory Go_Loop
  imports Prelude
begin

text \<open>
  Loops that need not end: \<open>go_loop body s\<close> runs \<open>body\<close> until it panics or breaks; \<open>None\<close> is a loop
  that never ends. The results of code with such loops are of type \<open>'a go option\<close>.
\<close>

datatype ('s, 'r) loop_exit = Again 's | Break 'r

partial_function (option) go_loop :: "('s \<Rightarrow> ('s, 'r) loop_exit go) \<Rightarrow> 's \<Rightarrow> 'r go option" where
  "go_loop body s = (case body s of
       Inl p \<Rightarrow> Some (Inl p)
     | Inr (Break r) \<Rightarrow> Some (Inr r)
     | Inr (Again s') \<Rightarrow> go_loop body s')"

definition run_then :: "'a go option \<Rightarrow> ('a \<Rightarrow> 'b go option) \<Rightarrow> 'b go option" where
  "run_then m f = (case m of None \<Rightarrow> None | Some (Inl p) \<Rightarrow> Some (Inl p) | Some (Inr x) \<Rightarrow> f x)"

lemma run_then_simps [simp]:
  "run_then None f = None" "run_then (Some (Inl p)) f = Some (Inl p)" "run_then (Some (Inr x)) f = f x"
  by (simp_all add: run_then_def)

lemma run_then_SomeD:
  assumes "run_then m f = Some (Inr y)"
  obtains x where "m = Some (Inr x)" "f x = Some (Inr y)"
  using assms by (auto simp: run_then_def split: option.splits sum.splits)

lemma go_loop_simps:
  "body s = Inl p \<Longrightarrow> go_loop body s = Some (Inl p)"
  "body s = Inr (Break r) \<Longrightarrow> go_loop body s = Some (Inr r)"
  "body s = Inr (Again s') \<Longrightarrow> go_loop body s = go_loop body s'"
  by (simp_all add: go_loop.simps)

text \<open>A loop whose body keeps returning to a state of a set never ends.\<close>

lemma go_loop_diverges:
  assumes closed: "\<And>s. P s \<Longrightarrow> \<exists>s'. body s = Inr (Again s') \<and> P s'" and "P s"
  shows "go_loop body s = None"
proof (rule ccontr)
  assume "go_loop body s \<noteq> None"
  then obtain r where r: "go_loop body s = Some r" by blast
  have "body = body \<longrightarrow> \<not> P s"
  proof (rule go_loop.raw_induct [where P = "\<lambda>b s r. b = body \<longrightarrow> \<not> P s", OF _ r])
    fix loop b s r
    assume IH: "\<And>b s r. loop b s = Some r \<Longrightarrow> b = body \<longrightarrow> \<not> P s"
      and step: "(case b s of Inl p \<Rightarrow> Some (Inl p) | Inr (Again s') \<Rightarrow> loop b s' | Inr (Break r) \<Rightarrow> Some (Inr r)) = Some r"
    show "b = body \<longrightarrow> \<not> P s"
    proof (intro impI notI)
      assume b: "b = body" and "P s"
      then obtain s' where s': "body s = Inr (Again s')" "P s'" using closed by blast
      then have "loop b s' = Some r" using step b by simp
      then show False using IH b s'(2) by blast
    qed
  qed
  then show False using assms(2) by simp
qed

text \<open>A loop whose body makes a measure smaller, under an invariant, ends.\<close>

lemma go_loop_ends:
  assumes body: "\<And>s. I s \<Longrightarrow> (\<exists>p. body s = Inl p) \<or> (\<exists>r. body s = Inr (Break r) \<and> Q r)
      \<or> (\<exists>s'. body s = Inr (Again s') \<and> I s' \<and> m s' < (m s :: nat))"
    and "I s"
  shows "(\<exists>p. go_loop body s = Some (Inl p)) \<or> (\<exists>r. go_loop body s = Some (Inr r) \<and> Q r)"
  using assms(2)
proof (induction "m s" arbitrary: s rule: less_induct)
  case less
  from body [OF less.prems] show ?case
  proof (elim disjE exE conjE)
    fix s' assume s': "body s = Inr (Again s')" "I s'" "m s' < m s"
    show ?thesis using less.hyps [OF s'(3) s'(2)] go_loop_simps(3) [of body s s', OF s'(1)] by simp
  qed (auto simp: go_loop_simps)
qed

text \<open>What holds for the result of a loop that ends.\<close>

lemma go_loop_result:
  fixes body :: "'s \<Rightarrow> ('s, 'r) loop_exit go"
  assumes r: "go_loop body s = Some (Inr r)"
    and again: "\<And>s s'. P s \<Longrightarrow> body s = Inr (Again s') \<Longrightarrow> P s'"
    and exit: "\<And>s r. P s \<Longrightarrow> body s = Inr (Break r) \<Longrightarrow> Q r"
    and "P s"
  shows "Q r"
proof -
  have "body = body \<longrightarrow> P s \<longrightarrow> (\<forall>x. (Inr r :: 'r go) = Inr x \<longrightarrow> Q x)"
  proof (rule go_loop.raw_induct [where P = "\<lambda>b s r. b = body \<longrightarrow> P s \<longrightarrow> (\<forall>x. r = Inr x \<longrightarrow> Q x)", OF _ r])
    fix loop b s r
    assume IH: "\<And>b s r. loop b s = Some r \<Longrightarrow> b = body \<longrightarrow> P s \<longrightarrow> (\<forall>x. r = Inr x \<longrightarrow> Q x)"
      and step: "(case b s of Inl p \<Rightarrow> Some (Inl p) | Inr (Again s') \<Rightarrow> loop b s' | Inr (Break r) \<Rightarrow> Some (Inr r)) = Some r"
    show "b = body \<longrightarrow> P s \<longrightarrow> (\<forall>x. r = Inr x \<longrightarrow> Q x)"
    proof (intro impI allI)
      fix x assume b: "b = body" and "P s" and "r = Inr x"
      show "Q x"
      proof (cases "body s")
        case (Inl p)
        then show ?thesis using step b \<open>r = Inr x\<close> by simp
      next
        case (Inr e)
        then show ?thesis
        proof (cases e)
          case (Again s')
          then have "loop b s' = Some r" using step b Inr by simp
          then show ?thesis using IH b again [OF \<open>P s\<close>] Inr Again \<open>r = Inr x\<close> by blast
        next
          case (Break y)
          then show ?thesis using step b Inr exit [OF \<open>P s\<close>] \<open>r = Inr x\<close> by simp
        qed
      qed
    qed
  qed
  then show ?thesis using assms(4) by simp
qed

end
