(* ===== verification/Go_Timer.thy ===== *)
theory Go_Timer
  imports Prelude
begin

text \<open>
  The retransmission timer of \<open>src/src/common/timer.go\<close>: \<open>Start\<close> runs a goroutine that waits for the
  cancellation of its context or for its \<open>time.Timer\<close>, and puts its number on a channel when the
  time is up. One step is one case of its \<open>select\<close>, or the delivery of the number.
\<close>

datatype timer_run = TimerIdle | TimerWaiting | TimerTelling | TimerReturned

text \<open>\<open>gt_timer\<close> is the time that the inner timer is armed with; \<open>gt_done\<close> says that the context is cancelled.\<close>

record go_timer =
  gt_id :: u32
  gt_timer :: "i64 option"
  gt_duration :: i64
  gt_done :: bool
  gt_run :: timer_run

definition NewTimer :: "u32 \<Rightarrow> bool \<Rightarrow> go_timer" where
  "NewTimer i parentDone = \<lparr>gt_id = i, gt_timer = None, gt_duration = 0, gt_done = parentDone, gt_run = TimerIdle\<rparr>"

definition timer_Start :: "i64 \<Rightarrow> go_timer \<Rightarrow> go_timer" where
  "timer_Start du tm = tm\<lparr>gt_timer := Some du, gt_run := TimerWaiting\<rparr>"

definition timer_GetDuration :: "go_timer \<Rightarrow> i64" where
  "timer_GetDuration tm = gt_duration tm"

definition timer_Stop :: "go_timer \<Rightarrow> go_timer" where
  "timer_Stop tm = tm\<lparr>gt_done := True\<rparr>"

datatype timer_event = TmStop | TmDone | TmFire | TmTell

text \<open>The cases of \<open>run\<close>: the context is done, the inner timer fires (once, it is not armed again), the
  channel takes the number.\<close>

fun timer_step :: "timer_event \<Rightarrow> go_timer \<Rightarrow> u32 list \<times> go_timer" where
  "timer_step TmStop tm = ([], timer_Stop tm)"
| "timer_step TmDone tm = ([], if gt_run tm = TimerWaiting \<and> gt_done tm
     then tm\<lparr>gt_timer := None, gt_run := TimerReturned\<rparr> else tm)"
| "timer_step TmFire tm = ([], if gt_run tm = TimerWaiting \<and> gt_timer tm \<noteq> None
     then tm\<lparr>gt_timer := None, gt_run := TimerTelling\<rparr> else tm)"
| "timer_step TmTell tm = (if gt_run tm = TimerTelling
     then ([gt_id tm], tm\<lparr>gt_run := TimerWaiting\<rparr>) else ([], tm))"

fun timer_steps :: "timer_event list \<Rightarrow> go_timer \<Rightarrow> u32 list \<times> go_timer" where
  "timer_steps [] tm = ([], tm)"
| "timer_steps (ev # evs) tm = (let (out, tm') = timer_step ev tm; (outs, tm'') = timer_steps evs tm' in (out @ outs, tm''))"

text \<open>How often the timer can still tell its number.\<close>

definition timer_left :: "go_timer \<Rightarrow> nat" where
  "timer_left tm = (if gt_run tm = TimerTelling \<or> gt_run tm = TimerWaiting \<and> gt_timer tm \<noteq> None then 1 else 0)"

lemma timer_step_left:
  assumes "timer_step ev tm = (out, tm')" and "gt_run tm = TimerTelling \<longrightarrow> gt_timer tm = None"
  shows "length out + timer_left tm' \<le> timer_left tm" and "set out \<subseteq> {gt_id tm}" and "gt_id tm' = gt_id tm"
    and "gt_duration tm' = gt_duration tm" and "gt_run tm' = TimerTelling \<longrightarrow> gt_timer tm' = None"
  using assms by (cases ev; auto simp: timer_left_def timer_Stop_def split: if_splits)+

lemma timer_steps_left:
  "(gt_run tm = TimerTelling \<longrightarrow> gt_timer tm = None) \<Longrightarrow> timer_steps evs tm = (outs, tm')
    \<Longrightarrow> length outs \<le> timer_left tm \<and> set outs \<subseteq> {gt_id tm} \<and> gt_duration tm' = gt_duration tm"
proof (induction evs arbitrary: tm outs)
  case (Cons ev evs)
  obtain out tm1 where s: "timer_step ev tm = (out, tm1)" by fastforce
  obtain outs1 where r: "timer_steps evs tm1 = (outs1, tm')" "outs = out @ outs1"
    using Cons.prems(2) by (auto simp: s split: prod.splits)
  note t = timer_step_left [OF s Cons.prems(1)]
  show ?case using Cons.IH [OF t(5) r(1)] t(1-4) r(2) by auto
qed simp

text \<open>A started timer tells its number at most once, whatever happens, and \<open>GetDuration\<close> is 0 whatever
  it was started with: the duration is never stored, so that the code that doubles it for the next
  retransmission doubles 0.\<close>
theorem timer_tells_at_most_once:
  "(fst (timer_steps evs (timer_Start du (NewTimer i d))) = []
      \<or> fst (timer_steps evs (timer_Start du (NewTimer i d))) = [i])
    \<and> timer_GetDuration (snd (timer_steps evs (timer_Start du (NewTimer i d)))) * 2 = 0"
proof -
  let ?t = "timer_Start du (NewTimer i d)"
  have c: "gt_run ?t = TimerTelling \<longrightarrow> gt_timer ?t = None" by (simp add: timer_Start_def)
  obtain outs t' where r: "timer_steps evs ?t = (outs, t')" by fastforce
  then have o: "length outs \<le> 1" "set outs \<subseteq> {i}" "gt_duration t' = 0"
    using timer_steps_left [OF c r] by (simp_all add: timer_Start_def NewTimer_def timer_left_def)
  then have "outs = [] \<or> outs = [i]" by (cases outs) auto
  then show ?thesis using o(3) by (simp add: r timer_GetDuration_def)
qed

end
