(* ===== verification/Multi_Pack.thy ===== *)
theory Multi_Pack
  imports Looped_Queue Messages Float_Arith Go_Loop Go_Timer
begin

text \<open>
  The reliable transport of \<open>src/src/net/multipack.go\<close> (\<open>NaiveMultiPackHandler\<close>): data are cut into
  fragments, sent in a window with acknowledgements and retransmissions, and put together again at
  the other end. The state of the congestion window and the round trip times are \<open>float32\<close> numbers.
  Messages to send are shared objects, the queues hold their addresses; queues, lists, the timer map
  and the status timer are pointers, which the constructor leaves nil. The clock (\<open>time.Now().Unix()\<close>,
  read once per step) and the result of conversions that do not fit an integer are arguments.
\<close>

subsection \<open>State\<close>

definition TimerAlpha :: fl where "TimerAlpha = Fin (1 / 8)"
definition TimerBeta :: fl where "TimerBeta = Fin (1 / 4)"
definition TimerMu :: fl where "TimerMu = Fin 1"
definition TimerDet :: fl where "TimerDet = Fin 4"

datatype multi_state = ST_SLOW_START | ST_CONG_AVOID

datatype multi_cond = EVENT_ACK | EVENT_NAK | EVENT_TIMEOUT

record mp_handler =
  mh_srcID :: node_id
  mh_dstID :: node_id
  mh_sendChan :: "nat list"
  mh_sendingQueue :: "nat looped_queue option"
  mh_receiveQueue :: "multipack_msg looped_queue option"
  mh_waitingList :: "nat list option"
  mh_partialDataList :: "multipack_msg list option"
  mh_maxWaitingListLen :: fl
  mh_slowStartThreshold :: fl
  mh_statusTimer :: "i64 option option"
  mh_retransmitTimerMap :: "(u32 \<rightharpoonup> go_timer) option"
  mh_packID :: u32
  mh_rto :: fl
  mh_srtt :: fl
  mh_devrtt :: fl
  mh_state :: multi_state
  mh_cancelled :: bool
  mh_heap :: "nat \<Rightarrow> multipack_msg"
  mh_next :: nat
  mh_tasks :: "u8 list list"

text \<open>What the world gives to a step.\<close>

record mp_world =
  mw_now :: i64
  mw_i64 :: "fl \<Rightarrow> i64"
  mw_u32 :: "fl \<Rightarrow> u32"

datatype mp_output = MpNet net_msg | MpAssembled "u8 list"

definition NewNaiveMultiPackHandler :: "node_id \<Rightarrow> node_id \<Rightarrow> mp_handler" where
  "NewNaiveMultiPackHandler srcID dstID =
     \<lparr>mh_srcID = srcID, mh_dstID = dstID, mh_sendChan = [], mh_sendingQueue = None, mh_receiveQueue = None,
      mh_waitingList = None, mh_partialDataList = None, mh_maxWaitingListLen = Fin 0, mh_slowStartThreshold = Fin 0,
      mh_statusTimer = None, mh_retransmitTimerMap = None, mh_packID = 0, mh_rto = Fin 0, mh_srtt = Fin 0,
      mh_devrtt = Fin 0, mh_state = ST_SLOW_START, mh_cancelled = False,
      mh_heap = (\<lambda>_. \<lparr>mp_State = \<lparr>ms_StateMap = 0, ms_MapStSeq = 0, ms_ExpectSeq = 0, ms_MaxExpectCnt = 0\<rparr>,
         mp_Info = \<lparr>pi_PackID = 0, pi_PackSeq = 0, pi_SubPackCnt = 0, pi_Seq = 0, pi_SendTime = 0\<rparr>, mp_Data = []\<rparr>),
      mh_next = 0, mh_tasks = []\<rparr>"

definition mp_Init :: "mp_handler \<Rightarrow> mp_handler" where
  "mp_Init h = h\<lparr>mh_statusTimer := Some None\<rparr>"

definition reset_status :: "i64 \<Rightarrow> mp_handler \<Rightarrow> mp_handler go" where
  "reset_status du h = and_then (go_deref (mh_statusTimer h)) (\<lambda>_. Inr (h\<lparr>mh_statusTimer := Some (Some du)\<rparr>))"

definition mp_Start :: "mp_handler \<Rightarrow> mp_handler go" where
  "mp_Start h = reset_status (seconds 10) h"

subsection \<open>Cutting data\<close>

definition fl_to_u32 :: "mp_world \<Rightarrow> fl \<Rightarrow> u32" where
  "fl_to_u32 w a = (case a of
       Fin x \<Rightarrow> if 0 \<le> rat_trunc x \<and> rat_trunc x < 2 ^ 32 then word_of_int (rat_trunc x) else mw_u32 w a
     | _ \<Rightarrow> mw_u32 w a)"

text \<open>A message with zero state and only the fields of \<open>info\<close> that the code sets.\<close>

definition fragment :: "u32 \<Rightarrow> u32 \<Rightarrow> u32 \<Rightarrow> u8 list \<Rightarrow> multipack_msg" where
  "fragment packID packSeq subpackCnt data =
     \<lparr>mp_State = \<lparr>ms_StateMap = 0, ms_MapStSeq = 0, ms_ExpectSeq = 0, ms_MaxExpectCnt = 0\<rparr>,
      mp_Info = \<lparr>pi_PackID = packID, pi_PackSeq = packSeq, pi_SubPackCnt = subpackCnt, pi_Seq = 0, pi_SendTime = 0\<rparr>,
      mp_Data = data\<rparr>"

text \<open>\<open>Send\<close>: the messages that it puts on \<open>sendChan\<close> one after the other.\<close>

definition mp_Send :: "mp_world \<Rightarrow> u8 list \<Rightarrow> mp_handler \<Rightarrow> multipack_msg list \<times> mp_handler" where
  "mp_Send w data h =
     (let packNum = length data div MULTIPACK_DATA_SIZE;
          remBytes = length data mod MULTIPACK_DATA_SIZE;
          subpackCnt = fl_to_u32 w (fl_ceil (fl_div float64 (fl_of_int float64 (int (length data)))
            (fl_of_int float64 (int MULTIPACK_DATA_SIZE))));
          h' = h\<lparr>mh_packID := mh_packID h + 1\<rparr>
      in (map (\<lambda>i. fragment (mh_packID h') (word_of_nat i) subpackCnt
              (take MULTIPACK_DATA_SIZE (drop (i * MULTIPACK_DATA_SIZE) data))) [0..<packNum]
          @ (if 0 < remBytes
             then [fragment (mh_packID h') (word_of_nat packNum) subpackCnt (drop (packNum * MULTIPACK_DATA_SIZE) data)]
             else []), h'))"

text \<open>One put on \<open>sendChan\<close>, which has room for 10; \<open>False\<close> is a sender that waits.\<close>

definition mp_put :: "multipack_msg \<Rightarrow> mp_handler \<Rightarrow> bool \<times> mp_handler" where
  "mp_put msg h = (if length (mh_sendChan h) < 10
     then (True, h\<lparr>mh_heap := (mh_heap h)(mh_next h := msg), mh_sendChan := mh_sendChan h @ [mh_next h],
                  mh_next := Suc (mh_next h)\<rparr>)
     else (False, h))"

subsection \<open>The state that is sent\<close>

text \<open>The loop over the first 8 sequence numbers of the receive queue.\<close>

function state_map :: "'a looped_queue \<Rightarrow> u32 \<Rightarrow> nat \<Rightarrow> u8 \<Rightarrow> u8 go" where
  "state_map lq st k stateMap =
     (if 8 \<le> k \<or> st + word_of_nat k = GetEnSeq lq then Inr stateMap
      else and_then (GetBySeq lq (st + word_of_nat k)) (\<lambda>x.
        state_map lq st (Suc k) (if x \<noteq> None then stateMap OR push_bit k 1 else stateMap)))"
  by pat_completeness auto
termination
  by (relation "measure (\<lambda>(lq, st, k, stateMap). 8 - k)") auto

declare state_map.simps [simp del]

definition mp_getState :: "mp_handler \<Rightarrow> multipack_state go" where
  "mp_getState h =
     and_then (go_deref (mh_receiveQueue h)) (\<lambda>receiveQueue.
     and_then (state_map receiveQueue (GetStSeq receiveQueue) 0 0) (\<lambda>stateMap.
     and_then (lq_Length receiveQueue) (\<lambda>l.
       Inr \<lparr>ms_StateMap = stateMap, ms_MapStSeq = GetStSeq receiveQueue, ms_ExpectSeq = GetEnSeq receiveQueue,
            ms_MaxExpectCnt = lq_Size receiveQueue - l\<rparr>)))"

subsection \<open>Round trip times and the window\<close>

definition calcRTT :: "fl \<Rightarrow> mp_handler \<Rightarrow> mp_handler" where
  "calcRTT rtt h =
     (let h1 = (if mh_srtt h = Fin 0
         then h\<lparr>mh_srtt := rtt, mh_devrtt := fl_div float32 rtt (Fin 2)\<rparr>
         else
           (let srtt = fl_add float32 (mh_srtt h) (fl_mul float32 TimerAlpha (fl_sub float32 rtt (mh_srtt h)))
            in h\<lparr>mh_srtt := srtt, mh_devrtt := fl_add float32 (fl_mul float32 (Fin (3 / 4)) (mh_devrtt h))
                 (fl_mul float32 TimerBeta (fl_conv float32 (fl_abs (fl_sub float64 rtt srtt))))\<rparr>))
      in h1\<lparr>mh_rto := fl_add float32 (fl_mul float32 (mh_srtt h1) TimerMu) (fl_mul float32 (mh_devrtt h1) TimerDet)\<rparr>)"

fun calcCwnd :: "multi_cond \<Rightarrow> mp_handler \<Rightarrow> mp_handler" where
  "calcCwnd EVENT_ACK h = (case mh_state h of
       ST_SLOW_START \<Rightarrow>
         (let h' = h\<lparr>mh_maxWaitingListLen := fl_add float32 (mh_maxWaitingListLen h) (Fin 1)\<rparr>
          in if fl_ge (mh_maxWaitingListLen h') (mh_slowStartThreshold h') then h'\<lparr>mh_state := ST_CONG_AVOID\<rparr> else h')
     | ST_CONG_AVOID \<Rightarrow> h\<lparr>mh_maxWaitingListLen :=
         fl_add float32 (mh_maxWaitingListLen h) (fl_div float32 (Fin 1) (mh_maxWaitingListLen h))\<rparr>)"
| "calcCwnd EVENT_NAK h =
     (let len = fl_div float32 (mh_maxWaitingListLen h) (Fin 2)
      in h\<lparr>mh_maxWaitingListLen := len, mh_slowStartThreshold := len, mh_state := ST_CONG_AVOID\<rparr>)"
| "calcCwnd EVENT_TIMEOUT h =
     h\<lparr>mh_slowStartThreshold := fl_div float32 (mh_maxWaitingListLen h) (Fin 2), mh_maxWaitingListLen := Fin 1,
       mh_state := ST_SLOW_START\<rparr>"

subsection \<open>Sending\<close>

text \<open>\<open>send(msg)\<close> with the address of a message, or nil for the state alone. The timer of an earlier
  transmission is stopped when a new one takes its place in the map.\<close>

definition mp_send :: "mp_world \<Rightarrow> nat option \<Rightarrow> mp_handler \<Rightarrow> (mp_output list \<times> mp_handler) go" where
  "mp_send w msg h =
     and_then (mp_getState h) (\<lambda>state.
     and_then (case msg of
         None \<Rightarrow> and_then (encode_with multipack_state_c state) (\<lambda>data. Inr (data, h))
       | Some p \<Rightarrow>
           (let m = mh_heap h p; m' = m\<lparr>mp_State := state, mp_Info := (mp_Info m)\<lparr>pi_SendTime := mw_now w\<rparr>\<rparr>;
                seq = pi_Seq (mp_Info m')
            in and_then (encode_with multipack_msg_c m') (\<lambda>data.
               let duration = (case mh_retransmitTimerMap h of
                       None \<Rightarrow> fl_to_i64 (mw_i64 w) (mh_rto h)
                     | Some tmap \<Rightarrow> (case tmap seq of
                         None \<Rightarrow> fl_to_i64 (mw_i64 w) (mh_rto h) | Some tm \<Rightarrow> timer_GetDuration tm * 2));
                   timer = timer_Start duration (NewTimer seq (mh_cancelled h))
               in (case mh_retransmitTimerMap h of
                   None \<Rightarrow> Inl NilMapWrite
                 | Some tmap \<Rightarrow> Inr (data, h\<lparr>mh_heap := (mh_heap h)(p := m'),
                                         mh_retransmitTimerMap := Some (tmap(seq \<mapsto> timer))\<rparr>))))) (\<lambda>(data, h').
     and_then (reset_status (seconds 5) h') (\<lambda>h''.
       Inr ([MpNet \<lparr>nm_SrcId = mh_srcID h, nm_DstId = mh_dstID h, nm_Type = MSG_MULTI, nm_Data = data, nm_TTL = MAX_TTL\<rparr>], h''))))"

subsection \<open>Acknowledgements\<close>

definition timer_of :: "mp_handler \<Rightarrow> u32 \<Rightarrow> go_timer option" where
  "timer_of h seq = (case mh_retransmitTimerMap h of None \<Rightarrow> None | Some tmap \<Rightarrow> tmap seq)"

definition queued_msg :: "u32 \<Rightarrow> mp_handler \<Rightarrow> nat go" where
  "queued_msg seq h = and_then (go_deref (mh_sendingQueue h)) (\<lambda>sq. and_then (GetBySeq sq seq) go_assert)"

text \<open>A packet arrived: its timer is stopped and forgotten, the round trip time and the window follow.\<close>

definition mp_acked :: "mp_world \<Rightarrow> u32 \<Rightarrow> mp_handler \<Rightarrow> mp_handler go" where
  "mp_acked w seq h = (if timer_of h seq = None then Inr h
     else and_then (queued_msg seq h) (\<lambda>p.
       let rtt = fl_sub float32 (fl_of_int float32 (sint (mw_now w)))
             (fl_of_int float32 (sint (pi_SendTime (mp_Info (mh_heap h p)))))
       in Inr (calcCwnd EVENT_ACK (calcRTT rtt
            (h\<lparr>mh_retransmitTimerMap := map_option (\<lambda>tmap. tmap(seq := None)) (mh_retransmitTimerMap h)\<rparr>)))))"

text \<open>The first loop of \<open>syncState\<close>, which pops what lies before \<open>stSeq\<close>.\<close>

definition ack_body :: "mp_world \<Rightarrow> u32 \<Rightarrow> mp_handler \<Rightarrow> (mp_handler, mp_handler) loop_exit go" where
  "ack_body w seq h =
     and_then (go_deref (mh_sendingQueue h)) (\<lambda>sq.
       if GetStSeq sq = seq then Inr (Break h)
       else and_then (mp_acked w (GetStSeq sq) h) (\<lambda>h1.
            and_then (PopFront sq) (\<lambda>(_, sq'). Inr (Again (h1\<lparr>mh_sendingQueue := Some sq'\<rparr>)))))"

text \<open>The second loop: the 8 packets of the map.\<close>

function resend_map :: "mp_world \<Rightarrow> multipack_state \<Rightarrow> nat \<Rightarrow> mp_handler \<Rightarrow> (mp_output list \<times> mp_handler) go" where
  "resend_map w state k h =
     (let i = ms_MapStSeq state + word_of_nat k in
      if 8 \<le> k \<or> i = ms_ExpectSeq state then Inr ([], h)
      else and_then (go_deref (mh_sendingQueue h)) (\<lambda>sq.
        and_then (IsValidSeq sq i) (\<lambda>v.
          if \<not> v then Inr ([], h)
          else and_then
            (if ms_StateMap state AND push_bit k 1 = 0
             then and_then (queued_msg i h) (\<lambda>p. mp_send w (Some p) (calcCwnd EVENT_NAK h))
             else and_then (mp_acked w i h) (\<lambda>h'. Inr ([], h'))) (\<lambda>(out, h').
          and_then (resend_map w state (Suc k) h') (\<lambda>(outs, h''). Inr (out @ outs, h''))))))"
  by pat_completeness auto
termination
  by (relation "measure (\<lambda>(w, state, k, h). 8 - k)") auto

declare resend_map.simps [simp del]

text \<open>The third loop: what the receiver has room for. A packet that was sent is sent again when it is
  due, otherwise the next one of the waiting list or of \<open>sendChan\<close> enters the window.\<close>

definition next_packet :: "mp_handler \<Rightarrow> (nat \<times> mp_handler) option go" where
  "next_packet h =
     and_then (go_deref (mh_waitingList h)) (\<lambda>waiting. case waiting of
         p # ps \<Rightarrow> Inr (Some (p, h\<lparr>mh_waitingList := Some ps\<rparr>))
       | [] \<Rightarrow> (case mh_sendChan h of [] \<Rightarrow> Inr None | p # ps \<Rightarrow> Inr (Some (p, h\<lparr>mh_sendChan := ps\<rparr>))))"

definition due_again :: "mp_world \<Rightarrow> nat \<Rightarrow> mp_handler \<Rightarrow> bool" where
  "due_again w p h \<longleftrightarrow> sint (fl_to_i64 (mw_i64 w) (mh_srtt h))
     \<le> sint (2 * (mw_now w - pi_SendTime (mp_Info (mh_heap h p))))"

definition set_seq :: "nat \<Rightarrow> u32 \<Rightarrow> mp_handler \<Rightarrow> mp_handler" where
  "set_seq p seq h = (let m = mh_heap h p
     in h\<lparr>mh_heap := (mh_heap h)(p := m\<lparr>mp_Info := (mp_Info m)\<lparr>pi_Seq := seq\<rparr>\<rparr>)\<rparr>)"

definition window_body :: "mp_world \<Rightarrow> u32 \<Rightarrow> mp_handler \<Rightarrow> (mp_output list \<times> mp_handler) option go" where
  "window_body w seq h =
     and_then (go_deref (mh_sendingQueue h)) (\<lambda>sq.
     and_then (IsValidSeq sq seq) (\<lambda>v.
       if v then and_then (queued_msg seq h) (\<lambda>p.
         if due_again w p h then and_then (mp_send w (Some p) h) (\<lambda>r. Inr (Some r)) else Inr (Some ([], h)))
       else if seq \<noteq> GetEnSeq sq then Inr None
       else and_then (lq_Full sq) (\<lambda>full.
         if full then Inr None
         else and_then (next_packet h) (\<lambda>next. case next of
             None \<Rightarrow> Inr None
           | Some (p, h1) \<Rightarrow> and_then (PushBack sq (Some p)) (\<lambda>(_, sq').
               and_then (mp_send w (Some p) ((set_seq p seq h1)\<lparr>mh_sendingQueue := Some sq'\<rparr>)) (\<lambda>r. Inr (Some r)))))))"

function fill_window :: "mp_world \<Rightarrow> multipack_state \<Rightarrow> nat \<Rightarrow> mp_handler \<Rightarrow> (mp_output list \<times> mp_handler) go" where
  "fill_window w state i h =
     (if unat (ms_MaxExpectCnt state) \<le> i then Inr ([], h)
      else and_then (window_body w (ms_ExpectSeq state + word_of_nat i) h) (\<lambda>next. case next of
          None \<Rightarrow> Inr ([], h)
        | Some (out, h') \<Rightarrow> and_then (fill_window w state (Suc i) h') (\<lambda>(outs, h''). Inr (out @ outs, h''))))"
  by pat_completeness auto
termination
  by (relation "measure (\<lambda>(w, state, i, h). unat (ms_MaxExpectCnt state) - i)") auto

declare fill_window.simps [simp del]

fun refill_waiting :: "int \<Rightarrow> nat list \<Rightarrow> nat list \<Rightarrow> nat list \<times> nat list" where
  "refill_waiting cap waiting [] = (waiting, [])"
| "refill_waiting cap waiting (p # ps) =
     (if int (length waiting) < cap then refill_waiting cap (waiting @ [p]) ps else (waiting, p # ps))"

definition mp_refill :: "mp_world \<Rightarrow> mp_handler \<Rightarrow> mp_handler go" where
  "mp_refill w h = and_then (go_deref (mh_waitingList h)) (\<lambda>waiting.
     let (waiting', chan) = refill_waiting (sint (fl_to_i64 (mw_i64 w) (mh_maxWaitingListLen h))) waiting (mh_sendChan h)
     in Inr (h\<lparr>mh_waitingList := Some waiting', mh_sendChan := chan\<rparr>))"

definition syncState :: "mp_world \<Rightarrow> multipack_state \<Rightarrow> mp_handler \<Rightarrow> (mp_output list \<times> mp_handler) go option" where
  "syncState w state h =
     run_then (Some (and_then (go_deref (mh_sendingQueue h)) (\<lambda>sq. IsValidSeq sq (ms_MapStSeq state)))) (\<lambda>v.
     run_then (if v then go_loop (ack_body w (ms_MapStSeq state)) h else Some (Inr h)) (\<lambda>h1.
     Some (and_then (resend_map w state 0 h1) (\<lambda>(outs2, h2).
           and_then (fill_window w state 0 h2) (\<lambda>(outs3, h3).
           and_then (mp_refill w h3) (\<lambda>h4. Inr (outs2 @ outs3, h4)))))))"

subsection \<open>Putting data together\<close>

fun push_nil :: "nat \<Rightarrow> 'a looped_queue \<Rightarrow> 'a looped_queue go" where
  "push_nil 0 q = Inr q"
| "push_nil (Suc n) q = and_then (PushBack q None) (\<lambda>(_, q'). push_nil n q')"

text \<open>The first half of \<open>handlePackReceive\<close>; \<open>None\<close> is its early return.\<close>

definition store_packet :: "multipack_msg \<Rightarrow> multipack_msg looped_queue \<Rightarrow> multipack_msg looped_queue option go" where
  "store_packet msg q =
     (let seq = pi_Seq (mp_Info msg) in
      and_then (IsValidSeq q seq) (\<lambda>v.
        if v then and_then (SetBySeq q seq (Some msg)) (\<lambda>q'. Inr (Some q'))
        else if lq_Size q \<le> seq - GetStSeq q then Inr None
        else and_then (push_nil (unat (seq - GetEnSeq q)) q) (\<lambda>q1.
             and_then (PushBack q1 (Some msg)) (\<lambda>(_, q'). Inr (Some q')))))"

definition pop_received :: "mp_handler \<Rightarrow> (mp_handler, mp_handler) loop_exit go" where
  "pop_received h =
     and_then (go_deref (mh_receiveQueue h)) (\<lambda>q.
     and_then (PopFront q) (\<lambda>(_, q').
     and_then (lq_Length q') (\<lambda>l.
       let h' = h\<lparr>mh_receiveQueue := Some q'\<rparr> in Inr (if l = 0 then Break h' else Again h'))))"

text \<open>The loop over the received packets. The number of the first one is given to \<open>Get\<close> as an index, and
  \<open>continue\<close> looks at the same packet again.\<close>

definition assemble_body :: "mp_handler \<Rightarrow> (mp_handler, mp_handler) loop_exit go" where
  "assemble_body h =
     and_then (go_deref (mh_receiveQueue h)) (\<lambda>q.
     and_then (lq_Get q (GetStSeq q)) (\<lambda>x.
     and_then (go_assert x) (\<lambda>m.
     and_then (go_deref (mh_partialDataList h)) (\<lambda>partial.
       if partial = [] then
         (if pi_PackSeq (mp_Info m) \<noteq> 0 then Inr (Again h)
          else pop_received (h\<lparr>mh_partialDataList := Some [m]\<rparr>))
       else if pi_PackSeq (mp_Info m) \<noteq> pi_PackSeq (mp_Info (last partial)) + 1 then
         Inr (Again (h\<lparr>mh_partialDataList := Some []\<rparr>))
       else if pi_PackSeq (mp_Info m) = pi_SubPackCnt (mp_Info m) - 1 then
         pop_received (h\<lparr>mh_partialDataList := Some [], mh_tasks := mh_tasks h @ [concat (map mp_Data (partial @ [m]))]\<rparr>)
       else pop_received (h\<lparr>mh_partialDataList := Some (partial @ [m])\<rparr>)))))"

definition handlePackReceive :: "multipack_msg \<Rightarrow> mp_handler \<Rightarrow> mp_handler go option" where
  "handlePackReceive msg h =
     run_then (Some (and_then (go_deref (mh_receiveQueue h)) (store_packet msg))) (\<lambda>stored. case stored of
         None \<Rightarrow> Some (Inr h)
       | Some q \<Rightarrow> run_then (Some (lq_Length q)) (\<lambda>l.
           let h' = h\<lparr>mh_receiveQueue := Some q\<rparr>
           in if 0 < l then go_loop assemble_body h' else Some (Inr h')))"

subsection \<open>The loop\<close>

text \<open>\<open>MpTimeout\<close>: a timer told its number; one that was stopped after its time was up can still do so.\<close>

datatype mp_event = MpPut multipack_msg | MpStatus | MpData "u8 list" | MpTimeout u32 | MpCtrl | MpTask nat

fun mp_step :: "mp_world \<Rightarrow> mp_event \<Rightarrow> mp_handler \<Rightarrow> (mp_output list \<times> mp_handler) go option" where
  "mp_step w (MpPut msg) h = Some (Inr ([], snd (mp_put msg h)))"
| "mp_step w MpStatus h = (case mh_statusTimer h of
       Some (Some _) \<Rightarrow> Some (and_then (mp_send w None (h\<lparr>mh_statusTimer := Some None\<rparr>)) (\<lambda>(outs, h').
         and_then (reset_status (seconds 5) h') (\<lambda>h''. Inr (outs, h''))))
     | _ \<Rightarrow> Some (Inr ([], h)))"
| "mp_step w (MpData data) h =
     (if length data = MP_STATE_SIZE then
        run_then (Some (decode_with multipack_state_c data)) (\<lambda>state. syncState w state h)
      else
        run_then (Some (decode_with multipack_msg_c data)) (\<lambda>msg.
        run_then (syncState w (mp_State msg) h) (\<lambda>(outs, h1).
        run_then (handlePackReceive msg h1) (\<lambda>h2. Some (Inr (outs, h2))))))"
| "mp_step w (MpTimeout seq) h =
     Some (and_then (queued_msg seq h) (\<lambda>p. mp_send w (Some p) (calcCwnd EVENT_TIMEOUT h)))"
| "mp_step w MpCtrl h = Some (and_then (go_deref (mh_statusTimer h)) (\<lambda>_. Inr ([],
     h\<lparr>mh_statusTimer := Some None, mh_cancelled := True,
       mh_retransmitTimerMap := map_option (\<lambda>tmap seq. map_option timer_Stop (tmap seq)) (mh_retransmitTimerMap h)\<rparr>)))"
| "mp_step w (MpTask n) h = Some (Inr (if n < length (mh_tasks h)
     then ([MpAssembled (mh_tasks h ! n)], h\<lparr>mh_tasks := take n (mh_tasks h) @ drop (Suc n) (mh_tasks h)\<rparr>)
     else ([], h)))"

end
