(* ===== verification/Pack_Transport.thy ===== *)
theory Pack_Transport
  imports Multi_Pack
begin

text \<open>
  What the transport of \<open>src/src/net/multipack.go\<close> does: which data arrive, which packets panic or hang
  the receiver, when an acknowledgement panics the sender, how the window moves, and how coarse the
  round trip times are.
\<close>

subsection \<open>The receive queue\<close>

text \<open>What storing packets leaves alone in the queue.\<close>

definition same_front :: "'a looped_queue \<Rightarrow> 'a looped_queue \<Rightarrow> bool" where
  "same_front q q' \<longleftrightarrow> queueSt q' = queueSt q \<and> stSeq q' = stSeq q \<and> lq_size q' = lq_size q"

lemma lq_Get_front:
  assumes "lq_inv q" and "0 < lq_len q"
  shows "lq_Get q (queueSt q) = Inr (hd (lq_list q))"
proof -
  have "lq_occupied q (queueSt q)" using assms lq_inv_le [OF assms(1)] by (simp add: lq_occupied_def)
  then show ?thesis using assms lq_Get_eq [OF assms(1), of "queueSt q"] lq_list_nonempty [OF assms]
    by (simp add: lq_inv_def)
qed

lemma push_nil_spec:
  assumes "lq_inv q" and "lq_len q + n \<le> lq_cap q"
  obtains q' where "push_nil n q = Inr q'" "lq_inv q'" "lq_list q' = lq_list q @ replicate n None" "same_front q q'"
  using assms
proof (induction n arbitrary: q thesis)
  case 0
  show ?case by (rule "0.prems"(1) [of q]) (use "0.prems"(2) in \<open>simp_all add: same_front_def\<close>)
next
  case (Suc n)
  let ?q = "lq_pushed q None"
  have room: "lq_len q < lq_cap q" using Suc.prems(3) by simp
  have "lq_inv ?q" "lq_len ?q + n \<le> lq_cap ?q"
    using Suc.prems(3) lq_pushed_inv [OF Suc.prems(2) room] lq_pushed_len [OF Suc.prems(2) room] by simp_all
  then obtain q' where q': "push_nil n ?q = Inr q'" "lq_inv q'" "lq_list q' = lq_list ?q @ replicate n None" "same_front ?q q'"
    using Suc.IH by blast
  have "push_nil (Suc n) q = Inr q'" using q'(1) PushBack_ok [OF Suc.prems(2) room] by simp
  moreover have "lq_list q' = lq_list q @ replicate (Suc n) None"
    using q'(3) lq_pushed_list [OF Suc.prems(2) room] by (simp add: replicate_append_same)
  moreover have "same_front q q'" using q'(4) by (simp add: same_front_def lq_pushed_def)
  ultimately show ?case using Suc.prems(1) q'(2) by blast
qed

text \<open>A packet that is \<open>k\<close> ahead of the first number that an empty queue expects.\<close>

lemma store_ahead:
  fixes m :: multipack_msg
  assumes "lq_inv q" and "lq_len q = 0" and "k < lq_cap q" and "pi_Seq (mp_Info m) = stSeq q + word_of_nat k"
  obtains q' where "store_packet m q = Inr (Some q')" "lq_inv q'" "lq_list q' = replicate k None @ [Some m]" "same_front q q'"
proof -
  have k: "k < 2 ^ 31" using assms(1,3) by (simp add: lq_inv_def lq_cap_def)
  then have uk: "unat (word_of_nat k :: u32) = k" by (intro unat_word_of_nat) simp
  have en: "enSeq q = stSeq q" using assms(1,2) by (simp add: lq_inv_def)
  have nil: "lq_list q = []" using assms(2) by (simp add: lq_list_def)
  obtain q1 where q1: "push_nil k q = Inr q1" "lq_inv q1" "lq_list q1 = replicate k None" "same_front q q1"
    using push_nil_spec [of q k] assms(1-3) nil by auto
  have "lq_cap q1 = lq_cap q" using q1(4) by (simp add: same_front_def lq_cap_def)
  moreover have "lq_len q1 = k" using q1(3) by (metis length_replicate lq_length_list)
  ultimately have room: "lq_len q1 < lq_cap q1" using assms(3) by simp
  let ?q' = "lq_pushed q1 (Some m)"
  have "IsValidSeq q (stSeq q + word_of_nat k) = Inr False" using assms(1,2) by (simp add: IsValidSeq_eq)
  moreover have "\<not> lq_Size q \<le> word_of_nat k" using assms(3) uk by (simp add: lq_Size_def lq_cap_def word_le_nat_alt)
  ultimately have "store_packet m q = Inr (Some ?q')"
    using assms(4) q1(1) PushBack_ok [OF q1(2) room] uk
    by (simp add: store_packet_def Let_def GetStSeq_def GetEnSeq_def en)
  then show thesis
    by (rule that) (use lq_pushed_inv [OF q1(2) room] lq_pushed_list [OF q1(2) room] q1(3,4) in
      \<open>simp_all add: same_front_def lq_pushed_def\<close>)
qed

text \<open>Then the loop over the received packets runs.\<close>

lemma handlePackReceive_loop:
  fixes m :: multipack_msg
  assumes "mh_receiveQueue h = Some q" and "store_packet m q = Inr (Some q')" and "lq_inv q'" and "lq_list q' \<noteq> []"
  shows "handlePackReceive m h = go_loop assemble_body (h\<lparr>mh_receiveQueue := Some q'\<rparr>)"
proof -
  have "0 < lq_len q'" using assms(4) by (metis length_greater_0_conv lq_length_list)
  then have "0 < (word_of_nat (lq_len q') :: u32)" using lq_Length_eq(2) [OF assms(3)] by (simp add: word_less_nat_alt)
  then show ?thesis
    using assms(1,2) lq_Length_eq(1) [OF assms(3)] by (simp add: handlePackReceive_def go_deref_def Let_def)
qed

subsection \<open>Packets that panic or hang the receiver\<close>

text \<open>The first number and the first index go together while the numbers count from 0.\<close>

definition lq_aligned :: "'a looped_queue \<Rightarrow> bool" where
  "lq_aligned q \<longleftrightarrow> unat (stSeq q) mod (unat (lq_size q) + 1) = unat (queueSt q)"

lemma aligned_front:
  assumes "lq_inv q" and "lq_aligned q" and "stSeq q \<le> lq_size q"
  shows "stSeq q = queueSt q"
  using assms by (simp add: lq_aligned_def word_le_nat_alt word_unat_eq_iff)

lemma lq_Get_late:
  assumes "lq_inv q" and "lq_aligned q" and "lq_size q < stSeq q" and "unat (stSeq q) < 2 ^ 31" and "0 < lq_len q"
  shows "lq_Get q (stSeq q) = Inl IndexOutOfRange"
proof (rule lq_Get_out_of_range [OF assms(1,3)])
  let ?s = "unat (lq_size q)" and ?i = "unat (stSeq q)" and ?b = "unat (queueSt q)"
  have le: "?b \<le> ?i" using assms(2) mod_less_eq_dividend [of ?i "?s + 1"] by (simp add: lq_aligned_def)
  have "stSeq q - queueSt q + lq_size q + 1 = word_of_nat (?i - ?b + ?s + 1)" using le by (simp add: of_nat_diff)
  moreover have "?i - ?b + ?s + 1 < 2 ^ LENGTH(32)"
  proof -
    have "?s < 2147483648" "?i - ?b < 2147483648" using assms(1,4) by (simp_all add: lq_inv_def)
    then show ?thesis by simp
  qed
  ultimately have "unat (stSeq q - queueSt q + lq_size q + 1) = ?i - ?b + ?s + 1" by (metis unat_word_of_nat)
  then have "unat (stSeq q - queueSt q + lq_size q + 1) = ?i - ?b + (?s + 1)" by simp
  then have "unat ((stSeq q - queueSt q + lq_size q + 1) mod (lq_size q + 1)) = (?i - ?b) mod (?s + 1)"
    by (simp only: unat_mod lq_inv_le(4) [OF assms(1)] mod_add_self2)
  also have "?i - ?b = ?i div (?s + 1) * (?s + 1)"
    using assms(2) minus_mod_eq_div_mult [of ?i "?s + 1"] unfolding lq_aligned_def by (simp only:)
  also have "\<dots> mod (?s + 1) = 0" by (rule mod_mult_self2_is_0)
  finally have "unat ((stSeq q - queueSt q + lq_size q + 1) mod (lq_size q + 1)) = 0" by simp
  then show "(stSeq q - queueSt q + lq_size q + 1) mod (lq_size q + 1) < word_of_nat (lq_len q)"
    using assms(5) lq_Length_eq(2) [OF assms(1)] by (simp add: word_less_nat_alt)
qed

text \<open>C26: A packet that arrives before the one that is expected crashes the receiver: the empty slots in front
  of it are nil, and the loop asserts the type of the first one.\<close>
theorem gap_panics_receiver:
  fixes m :: multipack_msg
  assumes "mh_receiveQueue h = Some q" and "lq_inv q" and "lq_len q = 0" and "lq_aligned q" and "stSeq q \<le> lq_size q"
    and "0 < k" and "k < lq_cap q" and "pi_Seq (mp_Info m) = stSeq q + word_of_nat k"
  shows "handlePackReceive m h = Some (Inl BadTypeAssertion)"
proof -
  obtain q' where q': "store_packet m q = Inr (Some q')" "lq_inv q'" "lq_list q' = replicate k None @ [Some m]" "same_front q q'"
    by (rule store_ahead [OF assms(2,3,7,8)])
  have "0 < lq_len q'" using q'(3) by (metis length_greater_0_conv lq_length_list append_is_Nil_conv not_Cons_self2)
  moreover have "stSeq q' = queueSt q'" using aligned_front [OF assms(2,4,5)] q'(4) by (simp add: same_front_def)
  moreover have "hd (lq_list q') = None" using q'(3) assms(6) by (cases k) simp_all
  ultimately have "lq_Get q' (GetStSeq q') = Inr None" using lq_Get_front [OF q'(2)] by (simp add: GetStSeq_def)
  then have "assemble_body (h\<lparr>mh_receiveQueue := Some q'\<rparr>) = Inl BadTypeAssertion"
    by (simp add: assemble_body_def go_deref_def go_assert_def)
  then show ?thesis using handlePackReceive_loop [OF assms(1) q'(1,2)] q'(3) go_loop_simps(1) by simp
qed

text \<open>C27: The receiver only lives for the first \<open>size + 1\<close> packets: after them the number of the first packet,
  which is used as an index, is beyond the buffer, and the next packet panics.\<close>
theorem receiver_exhausted:
  fixes m :: multipack_msg
  assumes "mh_receiveQueue h = Some q" and "lq_inv q" and "lq_len q = 0" and "lq_aligned q" and "lq_size q < stSeq q"
    and "unat (stSeq q) < 2 ^ 31" and "k < lq_cap q" and "pi_Seq (mp_Info m) = stSeq q + word_of_nat k"
  shows "handlePackReceive m h = Some (Inl IndexOutOfRange)"
proof -
  obtain q' where q': "store_packet m q = Inr (Some q')" "lq_inv q'" "lq_list q' = replicate k None @ [Some m]" "same_front q q'"
    by (rule store_ahead [OF assms(2,3,7,8)])
  have "0 < lq_len q'" using q'(3) by (metis length_greater_0_conv lq_length_list append_is_Nil_conv not_Cons_self2)
  moreover have "lq_aligned q'" "lq_size q' < stSeq q'" "unat (stSeq q') < 2 ^ 31"
    using assms(4-6) q'(4) by (simp_all add: same_front_def lq_aligned_def)
  ultimately have "lq_Get q' (GetStSeq q') = Inl IndexOutOfRange"
    using lq_Get_late [OF q'(2)] by (simp add: GetStSeq_def)
  then have "assemble_body (h\<lparr>mh_receiveQueue := Some q'\<rparr>) = Inl IndexOutOfRange"
    by (simp add: assemble_body_def go_deref_def)
  then show ?thesis using handlePackReceive_loop [OF assms(1) q'(1,2)] q'(3) go_loop_simps(1) by simp
qed

text \<open>C28: A packet in order that is neither the first fragment nor the one that continues the data received so
  far hangs the receiver: \<open>continue\<close> reads the same packet again and again.\<close>
theorem stray_fragment_hangs_receiver:
  fixes m :: multipack_msg
  assumes "mh_receiveQueue h = Some q" and "lq_inv q" and "lq_len q = 0" and "lq_aligned q" and "stSeq q \<le> lq_size q"
    and "0 < lq_cap q" and "pi_Seq (mp_Info m) = stSeq q" and "mh_partialDataList h = Some partial"
    and "pi_PackSeq (mp_Info m) \<noteq> 0"
    and "partial = [] \<or> pi_PackSeq (mp_Info m) \<noteq> pi_PackSeq (mp_Info (last partial)) + 1"
  shows "handlePackReceive m h = None"
proof -
  obtain q' where q': "store_packet m q = Inr (Some q')" "lq_inv q'" "lq_list q' = replicate 0 None @ [Some m]" "same_front q q'"
    using store_ahead [OF assms(2,3,6), of m] assms(7) by auto
  have "0 < lq_len q'" using q'(3) by (metis length_greater_0_conv lq_length_list append_is_Nil_conv not_Cons_self2)
  moreover have "stSeq q' = queueSt q'" using aligned_front [OF assms(2,4,5)] q'(4) by (simp add: same_front_def)
  ultimately have get: "lq_Get q' (GetStSeq q') = Inr (Some m)" using lq_Get_front [OF q'(2)] q'(3) by (simp add: GetStSeq_def)
  let ?h = "h\<lparr>mh_receiveQueue := Some q'\<rparr>"
  let ?P = "\<lambda>s. mh_receiveQueue s = Some q' \<and> (mh_partialDataList s = Some []
    \<or> mh_partialDataList s = Some partial \<and> partial \<noteq> [] \<and> pi_PackSeq (mp_Info m) \<noteq> pi_PackSeq (mp_Info (last partial)) + 1)"
  have "go_loop assemble_body ?h = None"
  proof (rule go_loop_diverges [of ?P])
    show "?P ?h" using assms(8,10) by (cases "partial = []") simp_all
    show "\<exists>s'. assemble_body s = Inr (Again s') \<and> ?P s'" if "?P s" for s
      using that get assms(9) by (auto simp: assemble_body_def go_deref_def go_assert_def)
  qed
  then show ?thesis using handlePackReceive_loop [OF assms(1) q'(1,2)] q'(3) by simp
qed

subsection \<open>Data that arrive in order\<close>

lemma mult_size_lt: "0 < MULTIPACK_DATA_SIZE" "MULTIPACK_DATA_SIZE < 2 ^ 12"
  by (simp_all add: size_constants)

text \<open>What \<open>Send\<close> cuts data into.\<close>

definition pieces :: "u8 list \<Rightarrow> nat" where
  "pieces data = length data div MULTIPACK_DATA_SIZE + (if length data mod MULTIPACK_DATA_SIZE = 0 then 0 else 1)"

lemma concat_pieces: "concat (map (\<lambda>i. take c (drop (i * c) xs)) [0..<k]) = take (k * c) xs"
  by (induction k) (simp_all add: take_add [symmetric] add.commute)

lemma rat_trunc_of_nat [simp]: "rat_trunc (of_nat n) = int n"
  by (simp add: rat_trunc_def)

lemma mp_Send_spec:
  assumes "length data < 2 ^ 40"
  obtains msgs s' where "mp_Send w data s = (msgs, s')" "length msgs = pieces data" "concat (map mp_Data msgs) = data"
    "\<And>i. i < pieces data \<Longrightarrow> pi_PackSeq (mp_Info (msgs ! i)) = word_of_nat i
      \<and> pi_SubPackCnt (mp_Info (msgs ! i)) = word_of_nat (pieces data)"
proof -
  let ?S = "MULTIPACK_DATA_SIZE"
  let ?n = "length data div ?S" and ?r = "length data mod ?S" and ?id = "mh_packID s + 1"
  have "pieces data \<le> length data div ?S + 1" by (simp add: pieces_def)
  also have "\<dots> < 2 ^ 32"
  proof -
    have "length data div ?S * ?S \<le> length data" "512 \<le> ?S"
      by simp (simp add: size_constants)
    then have "length data div ?S * 512 \<le> length data" by (meson mult_le_mono2 order_trans)
    then show ?thesis using assms by simp
  qed
  finally have small: "pieces data < 2 ^ 32" .
  have cnt: "fl_to_u32 w (fl_ceil (fl_div float64 (fl_of_int float64 (int (length data))) (fl_of_int float64 (int ?S))))
      = word_of_nat (pieces data)"
    unfolding fl_ceil_quotient [OF assms mult_size_lt] using small
    by (simp add: fl_to_u32_def pieces_def [symmetric] del: of_nat_add)
  let ?msgs = "map (\<lambda>i. fragment ?id (word_of_nat i) (word_of_nat (pieces data)) (take ?S (drop (i * ?S) data))) [0..<?n]
    @ (if 0 < ?r then [fragment ?id (word_of_nat ?n) (word_of_nat (pieces data)) (drop (?n * ?S) data)] else [])"
  have "mp_Send w data s = (?msgs, s\<lparr>mh_packID := ?id\<rparr>)" by (simp add: mp_Send_def Let_def cnt)
  moreover have "length ?msgs = pieces data" by (simp add: pieces_def)
  moreover have "concat (map mp_Data ?msgs) = data"
  proof -
    have "concat (map mp_Data ?msgs) = take (?n * ?S) data @ (if 0 < ?r then drop (?n * ?S) data else [])"
      using concat_pieces [of ?S data ?n] by (simp add: fragment_def comp_def)
    moreover have "?r = 0 \<Longrightarrow> length data \<le> ?n * ?S" using div_mult_mod_eq [of "length data" ?S] by simp
    ultimately show ?thesis by simp
  qed
  moreover have "pi_PackSeq (mp_Info (?msgs ! i)) = word_of_nat i \<and> pi_SubPackCnt (mp_Info (?msgs ! i)) = word_of_nat (pieces data)"
    if "i < pieces data" for i
  proof (cases "i < ?n")
    case False
    then have "i = ?n" "0 < ?r" using that by (auto simp: pieces_def split: if_splits)
    then show ?thesis by (simp add: nth_append fragment_def)
  qed (simp add: nth_append fragment_def)
  ultimately show thesis by (rule that)
qed

text \<open>One packet in order, which the loop takes from the queue at once.\<close>

definition take_packet :: "multipack_msg \<Rightarrow> multipack_msg list \<Rightarrow> mp_handler \<Rightarrow> mp_handler" where
  "take_packet m partial h =
     (if partial \<noteq> [] \<and> pi_PackSeq (mp_Info m) = pi_SubPackCnt (mp_Info m) - 1
      then h\<lparr>mh_partialDataList := Some [], mh_tasks := mh_tasks h @ [concat (map mp_Data (partial @ [m]))]\<rparr>
      else h\<lparr>mh_partialDataList := Some (partial @ [m])\<rparr>)"

lemma receive_in_order:
  fixes m :: multipack_msg
  assumes "mh_receiveQueue h = Some q" and "lq_inv q" and "lq_len q = 0" and "lq_aligned q" and "stSeq q \<le> lq_size q"
    and "0 < lq_cap q" and "pi_Seq (mp_Info m) = stSeq q" and "mh_partialDataList h = Some partial"
    and "pi_PackSeq (mp_Info m) = (if partial = [] then 0 else pi_PackSeq (mp_Info (last partial)) + 1)"
  obtains q2 where "handlePackReceive m h = Some (Inr ((take_packet m partial h)\<lparr>mh_receiveQueue := Some q2\<rparr>))"
    "lq_inv q2" "lq_len q2 = 0" "lq_aligned q2" "stSeq q2 = stSeq q + 1" "lq_size q2 = lq_size q"
proof -
  obtain q' where q': "store_packet m q = Inr (Some q')" "lq_inv q'" "lq_list q' = replicate 0 None @ [Some m]" "same_front q q'"
    using store_ahead [OF assms(2,3,6), of m] assms(7) by auto
  have len: "lq_len q' = 1" using q'(3) by (metis append_Nil length_Cons length_0_conv lq_length_list One_nat_def replicate_0)
  then have pos: "0 < lq_len q'" by simp
  have "stSeq q' = queueSt q'" using aligned_front [OF assms(2,4,5)] q'(4) by (simp add: same_front_def)
  then have get: "lq_Get q' (GetStSeq q') = Inr (Some m)" using lq_Get_front [OF q'(2) pos] q'(3) by (simp add: GetStSeq_def)
  let ?q2 = "lq_popped q'"
  have inv2: "lq_inv ?q2" and len2: "lq_len ?q2 = 0"
    using lq_popped_inv [OF q'(2) pos] lq_popped_len [OF q'(2) pos] len by simp_all
  have pop: "PopFront q' = Inr (Some m, ?q2)" using PopFront_ok [OF q'(2) pos] q'(3) by simp
  have "pop_received g = Inr (Break (g\<lparr>mh_receiveQueue := Some ?q2\<rparr>))" if "mh_receiveQueue g = Some q'" for g
    using that pop lq_Length_eq(1) [OF inv2] len2 by (simp add: pop_received_def go_deref_def Let_def)
  then have "assemble_body (h\<lparr>mh_receiveQueue := Some q'\<rparr>)
      = Inr (Break ((take_packet m partial h)\<lparr>mh_receiveQueue := Some ?q2\<rparr>))"
    using get assms(8,9)
    by (cases "partial = []") (simp_all add: assemble_body_def go_deref_def go_assert_def take_packet_def)
  then have "handlePackReceive m h = Some (Inr ((take_packet m partial h)\<lparr>mh_receiveQueue := Some ?q2\<rparr>))"
    using handlePackReceive_loop [OF assms(1) q'(1,2)] q'(3) go_loop_simps(2) by simp
  moreover have "stSeq ?q2 = stSeq q + 1" "lq_size ?q2 = lq_size q" using q'(4) by (simp_all add: lq_popped_def same_front_def)
  moreover have "lq_aligned ?q2"
  proof -
    have "unat (stSeq q) < 2 ^ 31" using assms(2,5) by (simp add: lq_inv_def word_le_nat_alt)
    then have "unat (stSeq q + 1) = unat (stSeq q) + 1" by (rule succ_no_wrap(1))
    moreover have "unat ((queueSt q + 1) mod (lq_size q + 1)) = (unat (queueSt q) + 1) mod (unat (lq_size q) + 1)"
      using assms(2) by (intro ring_step) (simp_all add: lq_inv_def)
    moreover have "(unat (queueSt q) + 1) mod (unat (lq_size q) + 1) = (unat (stSeq q) + 1) mod (unat (lq_size q) + 1)"
      using assms(4) mod_add_left_eq [of "unat (stSeq q)" "unat (lq_size q) + 1" 1] unfolding lq_aligned_def by (simp only:)
    ultimately show ?thesis using q'(4) by (simp add: lq_aligned_def lq_popped_def same_front_def)
  qed
  ultimately show thesis using that inv2 len2 by blast
qed

lemma new_queue [simp]:
  "lq_len (NewLoopedQueue n 0) = 0" "lq_aligned (NewLoopedQueue n 0)" "stSeq (NewLoopedQueue n 0) = 0"
  "lq_size (NewLoopedQueue n 0) = n" "queueSt (NewLoopedQueue n 0) = 0"
  by (simp_all add: lq_len_def lq_aligned_def NewLoopedQueue_def)

fun receive_all :: "multipack_msg list \<Rightarrow> mp_handler \<Rightarrow> mp_handler go option" where
  "receive_all [] h = Some (Inr h)"
| "receive_all (m # ms) h = run_then (handlePackReceive m h) (receive_all ms)"

text \<open>The packets of one piece of data, numbered from 0.\<close>

definition pack_list :: "multipack_msg list \<Rightarrow> bool" where
  "pack_list ms \<longleftrightarrow> (\<forall>i < length ms. pi_Seq (mp_Info (ms ! i)) = word_of_nat i
     \<and> pi_PackSeq (mp_Info (ms ! i)) = word_of_nat i \<and> pi_SubPackCnt (mp_Info (ms ! i)) = word_of_nat (length ms))"

lemma receive_packs:
  fixes ms :: "multipack_msg list"
  assumes "pack_list (done @ ms)" and "length (done @ ms) \<le> unat (lq_size q) + 1" and "0 < lq_cap q"
    and "mh_receiveQueue h = Some q" and "lq_inv q" and "lq_len q = 0" and "lq_aligned q"
    and "stSeq q = word_of_nat (length done)" and "mh_partialDataList h = Some done"
    and "ms = [] \<longrightarrow> length done \<le> 1"
  shows "\<exists>h'. receive_all ms h = Some (Inr h')
    \<and> mh_tasks h' = mh_tasks h @ (if 1 < length (done @ ms) then [concat (map mp_Data (done @ ms))] else [])"
  using assms
proof (induction ms arbitrary: "done" q h)
  case Nil
  then show ?case by simp
next
  case (Cons m ms)
  let ?k = "length done" and ?N = "length (done @ m # ms)"
  have s: "unat (lq_size q) < 2 ^ 31" using Cons.prems(5) by (simp add: lq_inv_def)
  then have N: "?N \<le> 2 ^ 31" using Cons.prems(2) by simp
  have k: "unat (word_of_nat ?k :: u32) = ?k" using N by (intro unat_word_of_nat) simp
  have "(done @ m # ms) ! ?k = m" "?k < ?N" by simp_all
  then have m: "pi_Seq (mp_Info m) = word_of_nat ?k" "pi_PackSeq (mp_Info m) = word_of_nat ?k"
      "pi_SubPackCnt (mp_Info m) = word_of_nat ?N"
    using Cons.prems(1) unfolding pack_list_def by metis+
  have le: "stSeq q \<le> lq_size q" using k Cons.prems(2,8) by (simp add: word_le_nat_alt)
  have seq: "pi_Seq (mp_Info m) = stSeq q" using m(1) Cons.prems(8) by simp
  have cont: "pi_PackSeq (mp_Info m) = (if done = [] then 0 else pi_PackSeq (mp_Info (last done)) + 1)"
  proof (cases "done = []")
    case False
    then have "(done @ m # ms) ! (?k - 1) = last done" "?k - 1 < ?N" by (simp_all add: nth_append last_conv_nth)
    then have "pi_PackSeq (mp_Info (last done)) = word_of_nat (?k - 1)" using Cons.prems(1) unfolding pack_list_def by metis
    then show ?thesis using m(2) False by (simp add: of_nat_diff Suc_leI)
  qed (use m(2) in simp)
  obtain q2 where r: "handlePackReceive m h = Some (Inr ((take_packet m done h)\<lparr>mh_receiveQueue := Some q2\<rparr>))"
    "lq_inv q2" "lq_len q2 = 0" "lq_aligned q2" "stSeq q2 = stSeq q + 1" "lq_size q2 = lq_size q"
    by (rule receive_in_order [OF Cons.prems(4-7) le Cons.prems(3) seq Cons.prems(9) cont])
  let ?h1 = "(take_packet m done h)\<lparr>mh_receiveQueue := Some q2\<rparr>"
  have eqN: "(word_of_nat ?k :: u32) = word_of_nat ?N - 1 \<longleftrightarrow> ms = []"
  proof -
    have "(word_of_nat ?N :: u32) - 1 = word_of_nat (?N - 1)" by simp
    moreover have "unat (word_of_nat (?N - 1) :: u32) = ?N - 1" using N by (intro unat_word_of_nat) simp
    ultimately have "(word_of_nat ?k :: u32) = word_of_nat ?N - 1 \<longleftrightarrow> ?k = ?N - 1" using k by (metis word_unat_eq_iff)
    then show ?thesis by simp
  qed
  show ?case
  proof (cases "ms = []")
    case True
    then show ?thesis using r(1) m(2,3) eqN by (auto simp: take_packet_def)
  next
    case False
    then have t: "take_packet m done h = h\<lparr>mh_partialDataList := Some (done @ [m])\<rparr>" using m(2,3) eqN by (simp add: take_packet_def)
    have "\<exists>h'. receive_all ms ?h1 = Some (Inr h') \<and> mh_tasks h'
        = mh_tasks ?h1 @ (if 1 < length ((done @ [m]) @ ms) then [concat (map mp_Data ((done @ [m]) @ ms))] else [])"
      by (rule Cons.IH [where q = q2]) (use Cons.prems(1-3,8) r(2-6) False in \<open>simp_all add: t lq_cap_def\<close>)
    then show ?thesis using r(1) False by (simp add: t)
  qed
qed

text \<open>Fragments that arrive in order, numbered from 0, at a new receiver with room for all of them are put
  together to the data that were sent, exactly once; but data that fit one fragment are never
  delivered, since only a fragment that continues others can complete them.\<close>
theorem data_reassembled:
  assumes "length data < 2 ^ 40" and "mp_Send w data s = (msgs, s')"
    and "length arrived = length msgs"
    and "\<forall>i < length msgs. mp_Data (arrived ! i) = mp_Data (msgs ! i)
          \<and> pi_PackSeq (mp_Info (arrived ! i)) = pi_PackSeq (mp_Info (msgs ! i))
          \<and> pi_SubPackCnt (mp_Info (arrived ! i)) = pi_SubPackCnt (mp_Info (msgs ! i))
          \<and> pi_Seq (mp_Info (arrived ! i)) = word_of_nat i"
    and "mh_receiveQueue h = Some (NewLoopedQueue n 0)" and "mh_partialDataList h = Some []"
    and "0 < unat n" and "unat n < 2 ^ 31" and "length msgs \<le> unat n + 1"
  shows "\<exists>h'. receive_all arrived h = Some (Inr h')
    \<and> mh_tasks h' = mh_tasks h @ (if MULTIPACK_DATA_SIZE < length data then [data] else [])"
proof -
  obtain msgs0 s0 where sent: "mp_Send w data s = (msgs0, s0)" "length msgs0 = pieces data" "concat (map mp_Data msgs0) = data"
    "\<And>i. i < pieces data \<Longrightarrow> pi_PackSeq (mp_Info (msgs0 ! i)) = word_of_nat i
      \<and> pi_SubPackCnt (mp_Info (msgs0 ! i)) = word_of_nat (pieces data)"
    by (rule mp_Send_spec [OF assms(1)]) blast
  have eq: "msgs0 = msgs" using sent(1) assms(2) by simp
  have "map mp_Data arrived = map mp_Data msgs" using assms(3,4) by (intro nth_equalityI) simp_all
  then have "concat (map mp_Data arrived) = data" using sent(3) eq by simp
  moreover have "1 < length arrived \<longleftrightarrow> MULTIPACK_DATA_SIZE < length data"
  proof -
    have "1 < pieces data \<longleftrightarrow> MULTIPACK_DATA_SIZE < length data"
    proof (cases "length data < MULTIPACK_DATA_SIZE")
      case True
      then show ?thesis by (simp add: pieces_def)
    next
      case False
      show ?thesis
      proof (cases "length data = MULTIPACK_DATA_SIZE")
        case True
        then show ?thesis using mult_size_lt(1) by (simp add: pieces_def)
      next
        case less: False
        have "0 < (length data - MULTIPACK_DATA_SIZE) div MULTIPACK_DATA_SIZE + (if (length data - MULTIPACK_DATA_SIZE) mod MULTIPACK_DATA_SIZE = 0 then 0 else 1)"
          using False less mult_size_lt(1) dvd_imp_le [of MULTIPACK_DATA_SIZE "length data - MULTIPACK_DATA_SIZE"]
          by (auto simp: div_greater_zero_iff mod_eq_0_iff_dvd)
        then show ?thesis using False less mult_size_lt(1) by (simp add: pieces_def le_div_geq le_mod_geq)
      qed
    qed
    then show ?thesis using assms(3) sent(2) eq by simp
  qed
  moreover have "pack_list ([] @ arrived)"
    using assms(3,4) sent(2,4) eq by (simp add: pack_list_def)
  then have "\<exists>h'. receive_all arrived h = Some (Inr h') \<and> mh_tasks h' = mh_tasks h
      @ (if 1 < length ([] @ arrived) then [concat (map mp_Data ([] @ arrived))] else [])"
    by (rule receive_packs [where q = "NewLoopedQueue n 0"])
      (use assms(3,5-9) in \<open>simp_all add: new_queue lq_inv_New lq_cap_New\<close>)
  ultimately show ?thesis unfolding append_Nil by (cases "MULTIPACK_DATA_SIZE < length data") simp_all
qed

subsection \<open>The state that is reported\<close>

lemma state_map_spec:
  assumes "lq_inv q" and "queueSt q = 0" and "k \<le> lq_len q" and "k \<le> 8"
  shows "\<exists>b. state_map q (stSeq q) k acc = Inr b
    \<and> (\<forall>n < 8. bit b n \<longleftrightarrow> bit acc n \<or> k \<le> n \<and> n < lq_len q \<and> lq_list q ! n \<noteq> None)"
  using assms(3,4)
proof (induction "8 - k" arbitrary: k acc)
  case 0
  then have "k = 8" by simp
  then show ?case by (subst state_map.simps) auto
next
  case (Suc d)
  then have k: "k < 8" by simp
  have len: "unat (word_of_nat (lq_len q) :: u32) = lq_len q" by (rule lq_Length_eq(2) [OF assms(1)])
  have en: "GetEnSeq q = stSeq q + word_of_nat (lq_len q)" using assms(1) by (simp add: lq_inv_def GetEnSeq_def algebra_simps)
  have uk: "unat (word_of_nat k :: u32) = k" using k by (intro unat_word_of_nat) simp
  have stop: "stSeq q + word_of_nat k = GetEnSeq q \<longleftrightarrow> k = lq_len q"
    unfolding en add_left_cancel using len uk by (metis)
  show ?case
  proof (cases "k = lq_len q")
    case True
    then show ?thesis using stop by (subst state_map.simps) auto
  next
    case False
    have d: "d = 8 - Suc k" using Suc.hyps(2) by simp
    let ?acc = "if lq_list q ! k \<noteq> None then acc OR push_bit k 1 else acc"
    have "GetBySeq q (stSeq q + word_of_nat k) = Inr (lq_list q ! k)"
      using GetBySeq_aligned [OF assms(1,2), of "stSeq q + word_of_nat k"] uk False Suc.prems(1) by simp
    then have "state_map q (stSeq q) k acc = state_map q (stSeq q) (Suc k) ?acc"
      using False k stop by (subst state_map.simps) simp
    moreover obtain b where "state_map q (stSeq q) (Suc k) ?acc = Inr b"
      "\<forall>n < 8. bit b n \<longleftrightarrow> bit ?acc n \<or> Suc k \<le> n \<and> n < lq_len q \<and> lq_list q ! n \<noteq> None"
      using Suc.hyps(1) [of "Suc k" ?acc] d Suc.prems(1) False k by fastforce
    moreover have "bit ?acc n \<longleftrightarrow> bit acc n \<or> n = k \<and> lq_list q ! k \<noteq> None" if "n < 8" for n
      using that by (auto simp: bit_or_iff bit_push_bit_iff bit_1_iff bit_exp_iff)
    ultimately show ?thesis using False Suc.prems(1) by (intro exI [of _ b]) (auto simp: Suc_le_eq le_less)
  qed
qed

text \<open>What a receiver reports while nothing has been popped: bit \<open>n\<close> of the map is set exactly when the
  packet \<open>n\<close> after the first missing one has arrived, and the count is the room that is left.\<close>
theorem reported_state:
  assumes "mh_receiveQueue h = Some q" and "lq_inv q" and "queueSt q = 0"
  shows "\<exists>b. mp_getState h = Inr \<lparr>ms_StateMap = b, ms_MapStSeq = stSeq q, ms_ExpectSeq = stSeq q + word_of_nat (lq_len q),
        ms_MaxExpectCnt = word_of_nat (lq_cap q - lq_len q)\<rparr>
    \<and> (\<forall>n < 8. bit b n \<longleftrightarrow> n < lq_len q \<and> lq_list q ! n \<noteq> None)"
proof -
  obtain b where b: "state_map q (stSeq q) 0 0 = Inr b" "\<forall>n < 8. bit b n \<longleftrightarrow> n < lq_len q \<and> lq_list q ! n \<noteq> None"
    using state_map_spec [OF assms(2,3), of 0 0] by auto
  have "GetEnSeq q = stSeq q + word_of_nat (lq_len q)" using assms(2) by (simp add: lq_inv_def GetEnSeq_def algebra_simps)
  moreover have "lq_Size q - word_of_nat (lq_len q) = word_of_nat (lq_cap q - lq_len q)"
    using lq_len_le [of q] by (simp add: of_nat_diff lq_Size_def)
  ultimately show ?thesis using b assms(1) lq_Length_eq(1) [OF assms(2)]
    by (simp add: mp_getState_def go_deref_def GetStSeq_def)
qed

subsection \<open>Acknowledgements\<close>

text \<open>C29: An acknowledgement that comes after packets have been popped panics the sender: the packet that it
  looks up for the round trip time is at another place than it reads.\<close>
theorem later_ack_panics_sender:
  assumes "mh_sendingQueue h = Some sq" and "lq_inv sq" and "0 < queueSt sq" and "queueSt sq < queueEn sq"
    and "timer_of h (stSeq sq) \<noteq> None" and "IsValidSeq sq (ms_MapStSeq state) = Inr True" and "ms_MapStSeq state \<noteq> stSeq sq"
  shows "syncState w state h = Some (Inl BadTypeAssertion)"
proof -
  have "0 < lq_len sq" using lq_empty_iff [OF assms(2)] assms(4) by fastforce
  then have "GetBySeq sq (stSeq sq) = Inr None" using GetBySeq_shifted_loses_front [OF assms(2)] assms(3,4) by blast
  moreover obtain tm where "timer_of h (stSeq sq) = Some tm" using assms(5) by blast
  ultimately have ack: "ack_body w (ms_MapStSeq state) h = Inl BadTypeAssertion"
    using assms(1,7) by (simp add: ack_body_def mp_acked_def queued_msg_def go_deref_def go_assert_def GetStSeq_def)
  then show ?thesis using assms(1,6) go_loop_simps(1) [of "ack_body w (ms_MapStSeq state)" h, OF ack] by (simp add: syncState_def go_deref_def)
qed

subsection \<open>Round trip times and the window\<close>

lemma calcCwnd_times [simp]:
  "mh_srtt (calcCwnd c h) = mh_srtt h" "mh_rto (calcCwnd c h) = mh_rto h" "mh_devrtt (calcCwnd c h) = mh_devrtt h"
  by (cases c; cases "mh_state h"; simp add: Let_def)+

text \<open>C30: The first round trip time is a multiple of 128 seconds, off by up to 128 seconds: the seconds since
  1970 are rounded to \<open>float32\<close> before they are subtracted.\<close>
theorem rtt_in_steps_of_128_seconds:
  assumes "timer_of h seq \<noteq> None" and "queued_msg seq h = Inr p" and "mh_srtt h = Fin 0"
    and "sent = sint (pi_SendTime (mp_Info (mh_heap h p)))" and "2 ^ 30 \<le> sent" and "sent < 2 ^ 31"
    and "2 ^ 30 \<le> sint (mw_now w)" and "sint (mw_now w) < 2 ^ 31"
  shows "\<exists>h' k. mp_acked w seq h = Inr h' \<and> mh_srtt h' = Fin (of_int (128 * k))
    \<and> \<bar>128 * k - (sint (mw_now w) - sent)\<bar> \<le> 128"
proof -
  obtain k where k: "fl_sub float32 (fl_of_int float32 (sint (mw_now w))) (fl_of_int float32 sent) = Fin (of_int (128 * k))"
    "\<bar>128 * k - (sint (mw_now w) - sent)\<bar> \<le> 128"
    by (rule fl_seconds_difference [OF assms(5-8)])
  let ?h = "h\<lparr>mh_retransmitTimerMap := map_option (\<lambda>tmap. tmap(seq := None)) (mh_retransmitTimerMap h)\<rparr>"
  let ?h' = "calcCwnd EVENT_ACK (calcRTT (Fin (of_int (128 * k))) ?h)"
  obtain tm where "timer_of h seq = Some tm" using assms(1) by blast
  then have "mp_acked w seq h = Inr ?h'" using assms(2,4) k(1) by (simp add: mp_acked_def Let_def del: calcCwnd.simps)
  moreover have "mh_srtt ?h' = Fin (of_int (128 * k))" using assms(3) by (simp add: calcRTT_def Let_def del: calcCwnd.simps)
  ultimately show ?thesis using k(2) by blast
qed

fun window_ok :: "fl \<Rightarrow> bool" where
  "window_ok (Fin x) \<longleftrightarrow> 0 \<le> x" | "window_ok (Infinite b) \<longleftrightarrow> \<not> b" | "window_ok NaN \<longleftrightarrow> False"

lemma window_ok_round: "0 \<le> x \<Longrightarrow> window_ok (fl_round fm x)"
  by (rule fl_round_nonneg [of x fm]) auto

lemma window_ok_add: "window_ok a \<Longrightarrow> window_ok b \<Longrightarrow> window_ok (fl_add fm a b)"
  by (cases a; cases b) (simp_all add: window_ok_round)

lemma window_ok_half: "window_ok a \<Longrightarrow> window_ok (fl_div fm a (Fin 2))"
  by (cases a) (simp_all add: window_ok_round)

lemma window_ok_inverse: "window_ok a \<Longrightarrow> window_ok (fl_div fm (Fin 1) a)"
  by (cases a) (simp_all add: window_ok_round)

lemma calcCwnd_ok:
  assumes "window_ok (mh_maxWaitingListLen h)" and "window_ok (mh_slowStartThreshold h)"
  shows "window_ok (mh_maxWaitingListLen (calcCwnd c h)) \<and> window_ok (mh_slowStartThreshold (calcCwnd c h))"
  using assms by (cases c; cases "mh_state h"; simp add: Let_def window_ok_add window_ok_half window_ok_inverse)

definition window_after :: "node_id \<Rightarrow> node_id \<Rightarrow> multi_cond list \<Rightarrow> mp_handler" where
  "window_after src dst conds = foldl (\<lambda>h c. calcCwnd c h) (NewNaiveMultiPackHandler src dst) conds"

text \<open>Whatever acknowledgements, losses and timeouts come, the window and the threshold of the handler are
  never negative and always numbers, and after a timeout the window is 1 and grows slowly again; but
  the window can be infinite, which it is when a loss and then an acknowledgement come first.\<close>
theorem window_stays_sane:
  "window_ok (mh_maxWaitingListLen (window_after src dst conds)) \<and> window_ok (mh_slowStartThreshold (window_after src dst conds))
    \<and> mh_maxWaitingListLen (window_after src dst (conds @ [EVENT_TIMEOUT])) = Fin 1 \<and> mh_state (window_after src dst (conds @ [EVENT_TIMEOUT])) = ST_SLOW_START
    \<and> mh_maxWaitingListLen (window_after src dst [EVENT_NAK, EVENT_ACK]) = Infinite False"
proof -
  have "window_ok (mh_maxWaitingListLen (foldl (\<lambda>h c. calcCwnd c h) h conds))
      \<and> window_ok (mh_slowStartThreshold (foldl (\<lambda>h c. calcCwnd c h) h conds))"
    if "window_ok (mh_maxWaitingListLen h)" "window_ok (mh_slowStartThreshold h)" for h
    using that by (induction conds arbitrary: h) (use calcCwnd_ok in auto)
  then have "window_ok (mh_maxWaitingListLen (window_after src dst conds)) \<and> window_ok (mh_slowStartThreshold (window_after src dst conds))"
    by (simp add: window_after_def NewNaiveMultiPackHandler_def)
  moreover have "mh_maxWaitingListLen (window_after src dst [EVENT_NAK, EVENT_ACK]) = Infinite False"
    by (simp add: window_after_def NewNaiveMultiPackHandler_def Let_def fl_round_def)
  ultimately show ?thesis by (simp add: window_after_def)
qed

subsection \<open>The handler as it is constructed\<close>

text \<open>The constructor leaves the queues, lists and the timer map nil and nothing sets them, so a started
  handler panics on its first status timer, on every packet that arrives and on every timeout.\<close>
theorem unconfigured_handler_panics:
  "\<exists>h. mp_Start (mp_Init (NewNaiveMultiPackHandler srcID dstID)) = Inr h
    \<and> mp_step w MpStatus h = Some (Inl NilDereference) \<and> mp_step w (MpData data) h = Some (Inl NilDereference)
    \<and> mp_step w (MpTimeout seq) h = Some (Inl NilDereference)"
proof -
  let ?h = "(mp_Init (NewNaiveMultiPackHandler srcID dstID))\<lparr>mh_statusTimer := Some (Some (seconds 10))\<rparr>"
  have nil: "mh_sendingQueue ?h = None" "mh_receiveQueue ?h = None" "mh_statusTimer ?h = Some (Some (seconds 10))"
    by (simp_all add: mp_Init_def NewNaiveMultiPackHandler_def)
  have "mp_Start (mp_Init (NewNaiveMultiPackHandler srcID dstID)) = Inr ?h"
    by (simp add: mp_Start_def reset_status_def mp_Init_def go_deref_def)
  moreover have sync: "syncState w st ?h = Some (Inl NilDereference)" for st
    using nil by (simp add: syncState_def go_deref_def)
  moreover have "mp_step w (MpData data) ?h = Some (Inl NilDereference)"
    using multipack_state.decode_total [of data] multipack_msg.decode_total [of data] sync by auto
  moreover have "mp_step w MpStatus ?h = Some (Inl NilDereference)"
    using nil by (simp add: mp_send_def mp_getState_def go_deref_def)
  moreover have "mp_step w (MpTimeout seq) ?h = Some (Inl NilDereference)"
    using nil by (simp add: queued_msg_def go_deref_def)
  ultimately show ?thesis by blast
qed

subsection \<open>Witnesses\<close>

definition demo_receiver :: "multipack_msg looped_queue \<Rightarrow> mp_handler" where
  "demo_receiver q = (NewNaiveMultiPackHandler (replicate 20 1) (replicate 20 2))
     \<lparr>mh_receiveQueue := Some q, mh_partialDataList := Some []\<rparr>"

definition demo_packet :: "u32 \<Rightarrow> u32 \<Rightarrow> multipack_msg" where
  "demo_packet seq packSeq = (let m = fragment 1 packSeq 3 [7] in m\<lparr>mp_Info := (mp_Info m)\<lparr>pi_Seq := seq\<rparr>\<rparr>)"

lemma demo_packet_sel [simp]:
  "pi_Seq (mp_Info (demo_packet q p)) = q" "pi_PackSeq (mp_Info (demo_packet q p)) = p"
  "mh_receiveQueue (demo_receiver lq) = Some lq" "mh_partialDataList (demo_receiver lq) = Some []"
  "mh_tasks (demo_receiver lq) = []"
  by (simp_all add: demo_packet_def fragment_def demo_receiver_def NewNaiveMultiPackHandler_def Let_def)

lemma queue4: "lq_inv (NewLoopedQueue 4 q)" "lq_cap (NewLoopedQueue 4 q) = 4"
  using lq_inv_New [of 4 q] by (simp_all add: lq_cap_New)

lemma gap_panics_receiver_witness:
  "handlePackReceive (demo_packet 2 0) (demo_receiver (NewLoopedQueue 4 0)) = Some (Inl BadTypeAssertion)"
  using gap_panics_receiver [of "demo_receiver (NewLoopedQueue 4 0)" "NewLoopedQueue 4 0" 2 "demo_packet 2 0"]
  by (simp add: queue4)

lemma receiver_exhausted_witness:
  "handlePackReceive (demo_packet 5 0) (demo_receiver (NewLoopedQueue 4 5)) = Some (Inl IndexOutOfRange)"
proof -
  let ?q = "NewLoopedQueue 4 5 :: multipack_msg looped_queue"
  have "lq_len ?q = 0" "lq_aligned ?q" "lq_size ?q < stSeq ?q" "unat (stSeq ?q) < 2 ^ 31" "stSeq ?q = 5"
    by (simp_all add: lq_len_def lq_aligned_def NewLoopedQueue_def)
  then show ?thesis
    using receiver_exhausted [of "demo_receiver ?q" ?q 0 "demo_packet 5 0"] by (simp add: queue4)
qed

lemma stray_fragment_hangs_receiver_witness:
  "handlePackReceive (demo_packet 0 1) (demo_receiver (NewLoopedQueue 4 0)) = None"
  using stray_fragment_hangs_receiver [of "demo_receiver (NewLoopedQueue 4 0)" "NewLoopedQueue 4 0" "demo_packet 0 1" "[]"]
  by (simp add: queue4)

lemma data_reassembled_witness:
  "\<exists>arrived h'. receive_all arrived (demo_receiver (NewLoopedQueue 4 0)) = Some (Inr h') \<and> mh_tasks h' = [replicate 1000 7]"
proof -
  let ?w = "\<lparr>mw_now = 0, mw_i64 = (\<lambda>_. 0), mw_u32 = (\<lambda>_. 0)\<rparr>" and ?data = "replicate 1000 7 :: u8 list"
  have len: "length ?data < 2 ^ 40" by (simp only: length_replicate) simp
  have p: "pieces ?data = 2" by (simp add: pieces_def size_constants)
  obtain msgs s' where sent: "mp_Send ?w ?data (NewNaiveMultiPackHandler [] []) = (msgs, s')" "length msgs = 2"
    by (rule mp_Send_spec [OF len, of ?w "NewNaiveMultiPackHandler [] []"]) (use p in simp)
  let ?arrived = "map (\<lambda>i. (msgs ! i)\<lparr>mp_Info := (mp_Info (msgs ! i))\<lparr>pi_Seq := word_of_nat i\<rparr>\<rparr>) [0..<length msgs]"
  have "MULTIPACK_DATA_SIZE < length ?data" by (simp add: size_constants)
  then show ?thesis
    using data_reassembled [OF len sent(1), of ?arrived "demo_receiver (NewLoopedQueue 4 0)" 4] sent(2)
    by (simp del: replicate.simps upt_Suc) blast
qed

lemma reported_state_witness:
  "\<exists>b. mp_getState (demo_receiver (lq_pushed (NewLoopedQueue 4 0) (Some (demo_packet 0 0))))
      = Inr \<lparr>ms_StateMap = b, ms_MapStSeq = 0, ms_ExpectSeq = 1, ms_MaxExpectCnt = 3\<rparr> \<and> bit b 0 \<and> \<not> bit b 1"
proof -
  let ?e = "NewLoopedQueue 4 0 :: multipack_msg looped_queue"
  let ?q = "lq_pushed ?e (Some (demo_packet 0 0))"
  have room: "lq_len ?e < lq_cap ?e" by (simp add: queue4)
  have "lq_inv ?q" "lq_len ?q = 1" "lq_list ?q = [Some (demo_packet 0 0)]" "queueSt ?q = 0" "stSeq ?q = 0"
    using lq_pushed_inv [OF queue4(1) room] lq_pushed_len [OF queue4(1) room] lq_pushed_list [OF queue4(1) room]
    by (simp_all add: lq_list_New) (simp_all add: lq_pushed_def NewLoopedQueue_def)
  then show ?thesis using reported_state [of "demo_receiver ?q" ?q] by (auto simp: queue4)
qed

definition demo_sender :: "nat looped_queue \<Rightarrow> u32 \<Rightarrow> i64 \<Rightarrow> mp_handler" where
  "demo_sender q seq sent = (NewNaiveMultiPackHandler (replicate 20 1) (replicate 20 2))
     \<lparr>mh_sendingQueue := Some q, mh_retransmitTimerMap := Some [seq \<mapsto> NewTimer seq False],
      mh_heap := (\<lambda>_. (fragment 1 0 3 [7])\<lparr>mp_Info := \<lparr>pi_PackID = 1, pi_PackSeq = 0, pi_SubPackCnt = 3, pi_Seq = seq,
        pi_SendTime = sent\<rparr>\<rparr>)\<rparr>"

lemma demo_sender_sel [simp]:
  "mh_sendingQueue (demo_sender q seq t) = Some q" "timer_of (demo_sender q seq t) seq = Some (NewTimer seq False)"
  "mh_srtt (demo_sender q seq t) = Fin 0" "pi_SendTime (mp_Info (mh_heap (demo_sender q seq t) p)) = t"
  by (simp_all add: demo_sender_def timer_of_def NewNaiveMultiPackHandler_def)

lemma later_ack_panics_sender_witness:
  "syncState \<lparr>mw_now = 0, mw_i64 = (\<lambda>_. 0), mw_u32 = (\<lambda>_. 0)\<rparr>
      \<lparr>ms_StateMap = 0, ms_MapStSeq = 2, ms_ExpectSeq = 2, ms_MaxExpectCnt = 4\<rparr>
      (demo_sender (lq_popped (lq_pushed (lq_pushed (lq_pushed (NewLoopedQueue 4 0) (Some 0)) (Some 1)) (Some 2))) 1 0)
    = Some (Inl BadTypeAssertion)"
proof -
  let ?e = "NewLoopedQueue 4 0 :: nat looped_queue"
  let ?q1 = "lq_pushed ?e (Some 0)"
  let ?q2 = "lq_pushed ?q1 (Some 1)"
  let ?q3 = "lq_pushed ?q2 (Some 2)"
  let ?q = "lq_popped ?q3"
  have r0: "lq_len ?e < lq_cap ?e" by (simp add: queue4)
  have i1: "lq_inv ?q1" and l1: "lq_len ?q1 = 1" using lq_pushed_inv [OF queue4(1) r0] lq_pushed_len [OF queue4(1) r0] by simp_all
  have r1: "lq_len ?q1 < lq_cap ?q1" using l1 by (simp add: queue4)
  have i2: "lq_inv ?q2" and l2: "lq_len ?q2 = 2" using lq_pushed_inv [OF i1 r1] lq_pushed_len [OF i1 r1] l1 by simp_all
  have r2: "lq_len ?q2 < lq_cap ?q2" using l2 by (simp add: queue4)
  have i3: "lq_inv ?q3" and l3: "lq_len ?q3 = 3" using lq_pushed_inv [OF i2 r2] lq_pushed_len [OF i2 r2] l2 by simp_all
  have i: "lq_inv ?q" and l: "lq_len ?q = 2" using lq_popped_inv [OF i3] lq_popped_len [OF i3] l3 by simp_all
  have st: "stSeq ?q = 1" "queueSt ?q = 1" "queueEn ?q = 3" by (simp_all add: lq_popped_def lq_pushed_def NewLoopedQueue_def)
  have "IsValidSeq ?q 2 = Inr True" using IsValidSeq_eq [OF i] l st(1) by simp
  then show ?thesis using later_ack_panics_sender [of "demo_sender ?q 1 0" ?q] i st by simp
qed

lemma rtt_in_steps_of_128_seconds_witness:
  "\<exists>h' k. mp_acked \<lparr>mw_now = 1700000003, mw_i64 = (\<lambda>_. 0), mw_u32 = (\<lambda>_. 0)\<rparr> 0
      (demo_sender (lq_pushed (NewLoopedQueue 4 0) (Some 0)) 0 1700000000) = Inr h'
    \<and> mh_srtt h' = Fin (of_int (128 * k)) \<and> \<bar>128 * k - 3\<bar> \<le> 128"
proof -
  let ?e = "NewLoopedQueue 4 0 :: nat looped_queue"
  let ?q = "lq_pushed ?e (Some 0)"
  have room: "lq_len ?e < lq_cap ?e" by (simp add: queue4)
  have q: "lq_inv ?q" "lq_len ?q = 1" "lq_list ?q = [Some 0]" "queueSt ?q = 0" "stSeq ?q = 0"
    using lq_pushed_inv [OF queue4(1) room] lq_pushed_len [OF queue4(1) room] lq_pushed_list [OF queue4(1) room]
    by (simp_all add: lq_list_New) (simp_all add: lq_pushed_def NewLoopedQueue_def)
  have "queued_msg 0 (demo_sender ?q 0 1700000000) = Inr 0"
    using GetBySeq_aligned [OF q(1,4), of 0] q by (simp add: queued_msg_def go_deref_def go_assert_def)
  then show ?thesis
    using rtt_in_steps_of_128_seconds [of "demo_sender ?q 0 1700000000" 0 0 1700000000
        "\<lparr>mw_now = 1700000003, mw_i64 = (\<lambda>_. 0), mw_u32 = (\<lambda>_. 0)\<rparr>"] by simp
qed

end
