(* ===== verification/Pack_End_To_End.thy ===== *)
theory Pack_End_To_End
  imports Pack_Transport
begin

text \<open>
  The transport of \<open>src/src/net/multipack.go\<close> from one end to the other: data are cut, queued, let into
  the window by the receiver's report, encoded, decoded and put together.
\<close>

subsection \<open>Runs\<close>

fun mp_run :: "mp_world \<Rightarrow> mp_event list \<Rightarrow> mp_handler \<Rightarrow> (mp_output list \<times> mp_handler) go option" where
  "mp_run w [] h = Some (Inr ([], h))"
| "mp_run w (ev # evs) h = run_then (mp_step w ev h) (\<lambda>(out, h1).
     run_then (mp_run w evs h1) (\<lambda>(outs, h2). Some (Inr (out @ outs, h2))))"

lemma mp_run_append:
  assumes "mp_run w evs h = Some (Inr (outs, h1))" and "mp_run w evs' h1 = Some (Inr (outs', h2))"
  shows "mp_run w (evs @ evs') h = Some (Inr (outs @ outs', h2))"
  using assms(1)
proof (induction evs arbitrary: h outs)
  case Nil
  then show ?case using assms(2) by simp
next
  case (Cons ev evs)
  obtain out h' where s: "mp_step w ev h = Some (Inr (out, h'))"
    using Cons.prems by (auto elim!: run_then_SomeD split: prod.splits)
  obtain outs0 where r: "mp_run w evs h' = Some (Inr (outs0, h1))" "outs = out @ outs0"
    using Cons.prems s by (auto elim!: run_then_SomeD split: prod.splits)
  show ?case using Cons.IH [OF r(1)] s r(2) by simp
qed

text \<open>A handler whose queues are set up and empty.\<close>

definition mp_ready :: "u32 \<Rightarrow> mp_handler \<Rightarrow> bool" where
  "mp_ready n h \<longleftrightarrow> mh_sendingQueue h = Some (NewLoopedQueue n 0) \<and> mh_receiveQueue h = Some (NewLoopedQueue n 0)
     \<and> mh_waitingList h = Some [] \<and> mh_partialDataList h = Some [] \<and> mh_sendChan h = []
     \<and> mh_retransmitTimerMap h \<noteq> None \<and> (\<exists>d. mh_statusTimer h = Some (Some d))"

definition new_report :: "u32 \<Rightarrow> multipack_state" where
  "new_report n = \<lparr>ms_StateMap = 0, ms_MapStSeq = 0, ms_ExpectSeq = 0, ms_MaxExpectCnt = n\<rparr>"

lemma getState_new:
  assumes "mh_receiveQueue h = Some (NewLoopedQueue n 0)" and "unat n < 2 ^ 31"
  shows "mp_getState h = Inr (new_report n)"
proof -
  let ?q = "NewLoopedQueue n 0 :: multipack_msg looped_queue"
  have "GetEnSeq ?q = 0" "GetStSeq ?q = 0" "lq_Size ?q = n"
    by (simp_all add: GetEnSeq_def GetStSeq_def lq_Size_def NewLoopedQueue_def)
  moreover have "lq_Length ?q = Inr 0" using lq_Length_eq(1) [OF lq_inv_New [OF assms(2), of 0]] by simp
  ultimately show ?thesis
    by (simp add: mp_getState_def assms(1) go_deref_def state_map.simps [of _ _ 0] new_report_def)
qed

subsection \<open>The receiver\<close>

text \<open>Nothing to send: the report of the other end changes nothing.\<close>

definition mp_idle :: "mp_handler \<Rightarrow> bool" where
  "mp_idle h \<longleftrightarrow> (\<exists>q. mh_sendingQueue h = Some q \<and> lq_inv q \<and> lq_len q = 0) \<and> mh_waitingList h = Some [] \<and> mh_sendChan h = []"

lemma sync_idle:
  assumes "mp_idle h" and "ms_MapStSeq st = ms_ExpectSeq st"
  shows "syncState w st h = Some (Inr ([], h))"
proof -
  obtain q where q: "mh_sendingQueue h = Some q" "lq_inv q" "lq_len q = 0" and wl: "mh_waitingList h = Some []" "mh_sendChan h = []"
    using assms(1) by (auto simp: mp_idle_def)
  have valid: "IsValidSeq q s = Inr False" for s using q(2,3) by (simp add: IsValidSeq_eq)
  have "next_packet h = Inr None" using wl by (simp add: next_packet_def go_deref_def)
  then have "window_body w s h = Inr None" for s
    using q valid lq_Full_eq [OF q(2)] by (simp add: window_body_def go_deref_def)
  then have "fill_window w st 0 h = Inr ([], h)" by (subst fill_window.simps) simp
  moreover have "resend_map w st 0 h = Inr ([], h)" using assms(2) by (subst resend_map.simps) simp
  moreover have "mp_refill w h = Inr h" using wl by (cases h) (simp add: mp_refill_def go_deref_def)
  ultimately show ?thesis using q(1) valid by (simp add: syncState_def go_deref_def)
qed

definition same_sending :: "mp_handler \<Rightarrow> mp_handler \<Rightarrow> bool" where
  "same_sending h h' \<longleftrightarrow> mh_sendingQueue h' = mh_sendingQueue h \<and> mh_waitingList h' = mh_waitingList h \<and> mh_sendChan h' = mh_sendChan h"

lemma pop_received_same: "pop_received h = Inr x \<Longrightarrow> (\<exists>h'. (x = Again h' \<or> x = Break h') \<and> same_sending h h')"
  by (auto simp: pop_received_def and_then_Inr_iff Let_def same_sending_def split: prod.splits)

lemma assemble_body_same:
  assumes "assemble_body h = Inr x"
  shows "\<exists>h'. (x = Again h' \<or> x = Break h') \<and> same_sending h h'"
proof -
  obtain m partial where "(if partial = [] then
         (if pi_PackSeq (mp_Info m) \<noteq> 0 then Inr (Again h)
          else pop_received (h\<lparr>mh_partialDataList := Some [m]\<rparr>))
       else if pi_PackSeq (mp_Info m) \<noteq> pi_PackSeq (mp_Info (last partial)) + 1 then
         Inr (Again (h\<lparr>mh_partialDataList := Some []\<rparr>))
       else if pi_PackSeq (mp_Info m) = pi_SubPackCnt (mp_Info m) - 1 then
         pop_received (h\<lparr>mh_partialDataList := Some [], mh_tasks := mh_tasks h @ [concat (map mp_Data (partial @ [m]))]\<rparr>)
       else pop_received (h\<lparr>mh_partialDataList := Some (partial @ [m])\<rparr>)) = Inr x"
    using assms unfolding assemble_body_def by (auto simp: and_then_Inr_iff)
  then have "x = Again h \<or> x = Again (h\<lparr>mh_partialDataList := Some []\<rparr>) \<or> (\<exists>p. pop_received (h\<lparr>mh_partialDataList := p\<rparr>) = Inr x)
      \<or> (\<exists>p t. pop_received (h\<lparr>mh_partialDataList := p, mh_tasks := t\<rparr>) = Inr x)"
    by (auto split: if_splits)
  moreover have "\<exists>h'. (x = Again h' \<or> x = Break h') \<and> same_sending h h'"
    if "pop_received g = Inr x" "same_sending h g" for g
    using pop_received_same [OF that(1)] that(2) by (auto simp: same_sending_def)
  ultimately show ?thesis by (fastforce simp: same_sending_def)
qed

lemma handlePackReceive_same:
  assumes "handlePackReceive msg h = Some (Inr h')"
  shows "same_sending h h'"
proof -
  obtain stored where s: "(case stored of None \<Rightarrow> Some (Inr h) | Some q \<Rightarrow> run_then (Some (lq_Length q)) (\<lambda>l.
           let h' = h\<lparr>mh_receiveQueue := Some q\<rparr>
           in if 0 < l then go_loop assemble_body h' else Some (Inr h'))) = Some (Inr h')"
    using assms unfolding handlePackReceive_def by (elim run_then_SomeD)
  show ?thesis
  proof (cases stored)
    case None
    then show ?thesis using s by (simp add: same_sending_def)
  next
    case (Some q)
    let ?h = "h\<lparr>mh_receiveQueue := Some q\<rparr>"
    have "go_loop assemble_body ?h = Some (Inr h') \<or> h' = ?h"
      using s Some by (auto elim!: run_then_SomeD simp: Let_def split: if_splits)
    then show ?thesis
    proof
      assume "go_loop assemble_body ?h = Some (Inr h')"
      then show ?thesis
      proof (rule go_loop_result [where P = "same_sending h"])
        show "same_sending h s'" if "same_sending h s" "assemble_body s = Inr (Again s')" for s s'
          using that assemble_body_same [of s] by (fastforce simp: same_sending_def)
        show "same_sending h r" if "same_sending h s" "assemble_body s = Inr (Break r)" for s r
          using that assemble_body_same [of s] by (fastforce simp: same_sending_def)
      qed (simp add: same_sending_def)
    qed (simp add: same_sending_def)
  qed
qed

text \<open>Packets of a sender that has received nothing.\<close>

lemma receive_packets:
  assumes "mp_idle h" and "receive_all ms h = Some (Inr h')"
    and "list_all2 (\<lambda>m d. decode_with multipack_msg_c d = Inr m \<and> length d \<noteq> MP_STATE_SIZE
           \<and> ms_MapStSeq (mp_State m) = ms_ExpectSeq (mp_State m)) ms ds"
  shows "mp_run w (map MpData ds) h = Some (Inr ([], h'))"
  using assms
proof (induction ms arbitrary: h ds)
  case (Cons m ms)
  obtain d ds' where ds: "ds = d # ds'" "decode_with multipack_msg_c d = Inr m" "length d \<noteq> MP_STATE_SIZE"
      "ms_MapStSeq (mp_State m) = ms_ExpectSeq (mp_State m)"
      "list_all2 (\<lambda>m d. decode_with multipack_msg_c d = Inr m \<and> length d \<noteq> MP_STATE_SIZE
           \<and> ms_MapStSeq (mp_State m) = ms_ExpectSeq (mp_State m)) ms ds'"
    using Cons.prems(3) by (auto simp: list_all2_Cons1)
  obtain h1 where h1: "handlePackReceive m h = Some (Inr h1)" "receive_all ms h1 = Some (Inr h')"
    using Cons.prems(2) by (auto elim: run_then_SomeD)
  have "mp_idle h1" using Cons.prems(1) handlePackReceive_same [OF h1(1)] by (simp add: mp_idle_def same_sending_def)
  then have "mp_run w (map MpData ds') h1 = Some (Inr ([], h'))" using Cons.IH h1(2) ds(5) by blast
  then show ?case using ds(1-3) sync_idle [OF Cons.prems(1) ds(4)] h1(1) by simp
qed simp

subsection \<open>The sender\<close>

lemma run_puts:
  "length (mh_sendChan h) + length msgs \<le> 10 \<Longrightarrow> mp_run w (map MpPut msgs) h = Some (Inr ([],
     h\<lparr>mh_heap := (\<lambda>p. if mh_next h \<le> p \<and> p < mh_next h + length msgs then msgs ! (p - mh_next h) else mh_heap h p),
       mh_sendChan := mh_sendChan h @ [mh_next h..<mh_next h + length msgs], mh_next := mh_next h + length msgs\<rparr>))"
proof (induction msgs arbitrary: h)
  case Nil
  have "(\<lambda>p. if mh_next h \<le> p \<and> p < mh_next h + length ([] :: multipack_msg list) then [] ! (p - mh_next h) else mh_heap h p) = mh_heap h"
    by (rule ext) (auto dest: leD)
  then show ?case by simp
next
  case (Cons m msgs)
  let ?h1 = "h\<lparr>mh_heap := (mh_heap h)(mh_next h := m), mh_sendChan := mh_sendChan h @ [mh_next h], mh_next := Suc (mh_next h)\<rparr>"
  let ?heap = "\<lambda>p. if mh_next ?h1 \<le> p \<and> p < mh_next ?h1 + length msgs then msgs ! (p - mh_next ?h1) else mh_heap ?h1 p"
  have put: "mp_step w (MpPut m) h = Some (Inr ([], ?h1))" using Cons.prems by (simp add: mp_put_def)
  have rest: "mp_run w (map MpPut msgs) ?h1 = Some (Inr ([], ?h1\<lparr>mh_heap := ?heap,
      mh_sendChan := mh_sendChan ?h1 @ [mh_next ?h1..<mh_next ?h1 + length msgs], mh_next := mh_next ?h1 + length msgs\<rparr>))"
    by (rule Cons.IH) (use Cons.prems in simp)
  have heap: "?heap = (\<lambda>p. if mh_next h \<le> p \<and> p < mh_next h + length (m # msgs) then (m # msgs) ! (p - mh_next h) else mh_heap h p)"
    by (rule ext) (auto simp: nth_Cons' Suc_diff_Suc)
  have chan: "mh_next h # [Suc (mh_next h)..<mh_next h + length (m # msgs)] = [mh_next h..<mh_next h + length (m # msgs)]"
    by (rule upt_conv_Cons [symmetric]) simp
  have "S = T" if "S = Some (Inr ([], ?h1\<lparr>mh_heap := ?heap,
      mh_sendChan := mh_sendChan ?h1 @ [mh_next ?h1..<mh_next ?h1 + length msgs], mh_next := mh_next ?h1 + length msgs\<rparr>))"
    and "T = Some (Inr ([], h\<lparr>mh_heap := (\<lambda>p. if mh_next h \<le> p \<and> p < mh_next h + length (m # msgs) then (m # msgs) ! (p - mh_next h) else mh_heap h p),
       mh_sendChan := mh_sendChan h @ [mh_next h..<mh_next h + length (m # msgs)], mh_next := mh_next h + length (m # msgs)\<rparr>))"
    for S T :: "(mp_output list \<times> mp_handler) go option"
    unfolding that(1) that(2) heap chan [symmetric] by simp
  then show ?case using put rest by simp
qed

text \<open>One packet on the wire.\<close>

definition sent_msg :: "mp_world \<Rightarrow> u32 \<Rightarrow> multipack_msg \<Rightarrow> nat \<Rightarrow> multipack_msg" where
  "sent_msg w n m i = m\<lparr>mp_State := new_report n, mp_Info := (mp_Info m)\<lparr>pi_Seq := word_of_nat i, pi_SendTime := mw_now w\<rparr>\<rparr>"

definition carries :: "net_msg \<Rightarrow> multipack_msg \<Rightarrow> bool" where
  "carries p m \<longleftrightarrow> decode_with multipack_msg_c (nm_Data p) = Inr m \<and> length (nm_Data p) \<noteq> MP_STATE_SIZE"

definition sending_ok :: "u32 \<Rightarrow> mp_handler \<Rightarrow> bool" where
  "sending_ok n h \<longleftrightarrow> mh_receiveQueue h = Some (NewLoopedQueue n 0) \<and> mh_waitingList h = Some []
     \<and> mh_retransmitTimerMap h \<noteq> None \<and> (\<exists>d. mh_statusTimer h = Some d)"

lemma send_packet:
  assumes "sending_ok n h" and "unat n < 2 ^ 31" and "length (mp_Data (mh_heap h p)) < 2 ^ 32"
    and "pi_Seq (mp_Info (mh_heap h p)) = word_of_nat i"
  obtains pkt h' where "mp_send w (Some p) h = Inr ([MpNet pkt], h')" "carries pkt (sent_msg w n (mh_heap h p) i)"
    "sending_ok n h'" "mh_sendingQueue h' = mh_sendingQueue h" "mh_sendChan h' = mh_sendChan h"
    "\<And>q. q \<noteq> p \<Longrightarrow> mh_heap h' q = mh_heap h q"
proof -
  let ?m = "sent_msg w n (mh_heap h p) i"
  have wf: "c_wf multipack_msg_c ?m" using assms(3) by (simp add: sent_msg_def)
  obtain bs where bs: "encode_with multipack_msg_c ?m = Inr bs" "decode_with multipack_msg_c bs = Inr ?m"
    using multipack_msg.encode_total [OF wf] by blast
  have len: "length bs \<noteq> MP_STATE_SIZE"
    using encode_with_length [OF multipack_msg_lawful wf bs(1)] by (simp add: vlen_multipack_msg MP_STATE_SIZE_def)
  obtain tmap d where t: "mh_retransmitTimerMap h = Some tmap" "mh_statusTimer h = Some d"
    using assms(1) by (auto simp: sending_ok_def)
  have st: "mp_getState h = Inr (new_report n)" using getState_new [of h n] assms(1,2) by (simp add: sending_ok_def)
  have m: "(mh_heap h p)\<lparr>mp_State := new_report n, mp_Info := (mp_Info (mh_heap h p))\<lparr>pi_SendTime := mw_now w\<rparr>\<rparr> = ?m"
    using assms(4) by (cases "mh_heap h p"; cases "mp_Info (mh_heap h p)") (simp add: sent_msg_def)
  let ?pkt = "\<lparr>nm_SrcId = mh_srcID h, nm_DstId = mh_dstID h, nm_Type = MSG_MULTI, nm_Data = bs, nm_TTL = MAX_TTL\<rparr>"
  obtain tmap' where "mp_send w (Some p) h = Inr ([MpNet ?pkt], h\<lparr>mh_heap := (mh_heap h)(p := ?m),
      mh_retransmitTimerMap := Some tmap', mh_statusTimer := Some (Some (seconds 5))\<rparr>)"
    using st m bs(1) t by (simp add: mp_send_def Let_def reset_status_def go_deref_def)
  then show thesis
    by (rule that) (use bs(2) len assms(1) in \<open>simp_all add: carries_def sending_ok_def\<close>)
qed

definition window_at :: "u32 \<Rightarrow> nat list \<Rightarrow> multipack_msg list \<Rightarrow> nat \<Rightarrow> mp_handler \<Rightarrow> bool" where
  "window_at n addrs msgs i h \<longleftrightarrow> sending_ok n h \<and> mh_sendChan h = drop i addrs
     \<and> (\<exists>q. mh_sendingQueue h = Some q \<and> lq_inv q \<and> lq_len q = i \<and> stSeq q = 0 \<and> lq_size q = n)
     \<and> (\<forall>j. i \<le> j \<and> j < length msgs \<longrightarrow> mh_heap h (addrs ! j) = msgs ! j)"

lemma window_step:
  assumes "window_at n addrs msgs i h" and "i < length msgs" and "length msgs \<le> unat n" and "unat n < 2 ^ 31"
    and "length addrs = length msgs" and "distinct addrs" and "\<forall>m \<in> set msgs. length (mp_Data m) < 2 ^ 32"
  obtains pkt h' where "window_body w (ms_ExpectSeq (new_report n) + word_of_nat i) h = Inr (Some ([MpNet pkt], h'))"
    "carries pkt (sent_msg w n (msgs ! i) i)" "window_at n addrs msgs (Suc i) h'"
proof -
  obtain q where q: "mh_sendingQueue h = Some q" "lq_inv q" "lq_len q = i" "stSeq q = 0" "lq_size q = n"
    using assms(1) by (auto simp: window_at_def)
  let ?p = "addrs ! i"
  have i: "unat (word_of_nat i :: u32) = i" using lq_Length_eq(2) [OF q(2)] q(3) by simp
  have room: "lq_len q < lq_cap q" using q(3,5) assms(2,3) by (simp add: lq_cap_def)
  have en: "GetEnSeq q = word_of_nat i" using q(2-4) by (simp add: GetEnSeq_def lq_inv_def)
  have valid: "IsValidSeq q (word_of_nat i) = Inr False" using q(3,4) i by (simp add: IsValidSeq_eq [OF q(2)])
  have chan: "mh_sendChan h = ?p # drop (Suc i) addrs" and wl: "mh_waitingList h = Some []"
    using assms(1,2,5) by (simp_all add: window_at_def sending_ok_def Cons_nth_drop_Suc)
  let ?h1 = "h\<lparr>mh_sendChan := drop (Suc i) addrs\<rparr>"
  let ?h2 = "(set_seq ?p (word_of_nat i) ?h1)\<lparr>mh_sendingQueue := Some (lq_pushed q (Some ?p))\<rparr>"
  have heap: "mh_heap h ?p = msgs ! i" using assms(1,2) by (simp add: window_at_def)
  have m2: "mh_heap ?h2 ?p = (msgs ! i)\<lparr>mp_Info := (mp_Info (msgs ! i))\<lparr>pi_Seq := word_of_nat i\<rparr>\<rparr>"
    using heap by (simp add: set_seq_def Let_def)
  have other: "mh_heap ?h2 x = mh_heap h x" if "x \<noteq> ?p" for x using that by (simp add: set_seq_def Let_def)
  have ok2: "sending_ok n ?h2" using assms(1) by (simp add: window_at_def sending_ok_def set_seq_def Let_def)
  have len2: "length (mp_Data (mh_heap ?h2 ?p)) < 2 ^ 32" and seq2: "pi_Seq (mp_Info (mh_heap ?h2 ?p)) = word_of_nat i"
    unfolding m2 using assms(2,7) by simp_all
  obtain pkt h' where s: "mp_send w (Some ?p) ?h2 = Inr ([MpNet pkt], h')" "carries pkt (sent_msg w n (mh_heap ?h2 ?p) i)"
    "sending_ok n h'" "mh_sendingQueue h' = mh_sendingQueue ?h2" "mh_sendChan h' = mh_sendChan ?h2"
    "\<And>x. x \<noteq> ?p \<Longrightarrow> mh_heap h' x = mh_heap ?h2 x"
    by (rule send_packet [OF ok2 assms(4) len2 seq2]) blast
  have "next_packet h = Inr (Some (?p, ?h1))" using chan wl by (simp add: next_packet_def go_deref_def)
  then have "window_body w (ms_ExpectSeq (new_report n) + word_of_nat i) h = Inr (Some ([MpNet pkt], h'))"
    using q(1) valid en lq_Full_eq [OF q(2)] room PushBack_ok [OF q(2) room] s(1)
    by (simp add: window_body_def go_deref_def new_report_def)
  moreover have "carries pkt (sent_msg w n (msgs ! i) i)" using s(2) unfolding m2 by (simp add: sent_msg_def)
  moreover have "window_at n addrs msgs (Suc i) h'"
  proof -
    have "mh_heap h' (addrs ! j) = msgs ! j" if "Suc i \<le> j" "j < length msgs" for j
    proof -
      have "addrs ! j \<noteq> ?p" using that assms(2,5,6) by (simp add: nth_eq_iff_index_eq)
      then show ?thesis using s(6) other assms(1) that by (simp add: window_at_def)
    qed
    moreover have "mh_sendingQueue h' = Some (lq_pushed q (Some ?p))" "mh_sendChan h' = drop (Suc i) addrs"
      using s(4,5) by (simp_all add: set_seq_def Let_def)
    ultimately show ?thesis using s(3) q lq_pushed_inv [OF q(2) room] lq_pushed_len [OF q(2) room]
      by (simp add: window_at_def lq_pushed_def)
  qed
  ultimately show thesis by (rule that)
qed

lemma fill_all:
  assumes "window_at n addrs msgs i h" and "i \<le> length msgs" and "length msgs \<le> unat n" and "unat n < 2 ^ 31"
    and "length addrs = length msgs" and "distinct addrs" and "\<forall>m \<in> set msgs. length (mp_Data m) < 2 ^ 32"
  shows "\<exists>packets h'. fill_window w (new_report n) i h = Inr (map MpNet packets, h')
    \<and> list_all2 carries packets (map (\<lambda>j. sent_msg w n (msgs ! j) j) [i..<length msgs]) \<and> window_at n addrs msgs (length msgs) h'"
  using assms(1,2)
proof (induction "length msgs - i" arbitrary: i h)
  case 0
  then have i: "i = length msgs" by simp
  obtain q where q: "mh_sendingQueue h = Some q" "lq_inv q" "lq_len q = i" "stSeq q = 0" "lq_size q = n"
    using "0.prems"(1) by (auto simp: window_at_def)
  have "unat (word_of_nat i :: u32) = i" using lq_Length_eq(2) [OF q(2)] q(3) by simp
  then have valid: "IsValidSeq q (word_of_nat i) = Inr False" using q(3,4) by (simp add: IsValidSeq_eq [OF q(2)])
  have "next_packet h = Inr None"
    using "0.prems"(1) i assms(5) by (simp add: window_at_def sending_ok_def next_packet_def go_deref_def)
  then have "window_body w (word_of_nat i) h = Inr None"
    using q(1) valid lq_Full_eq [OF q(2)] by (simp add: window_body_def go_deref_def)
  then have "fill_window w (new_report n) i h = Inr ([], h)" by (subst fill_window.simps) (simp add: new_report_def)
  then show ?case using "0.prems"(1) i by (intro exI [of _ "[]"] exI [of _ h]) simp
next
  case (Suc d)
  then have i: "i < length msgs" by simp
  obtain pkt h1 where b: "window_body w (ms_ExpectSeq (new_report n) + word_of_nat i) h = Inr (Some ([MpNet pkt], h1))"
    "carries pkt (sent_msg w n (msgs ! i) i)" "window_at n addrs msgs (Suc i) h1"
    by (rule window_step [OF Suc.prems(1) i assms(3-7)]) blast
  have d: "d = length msgs - Suc i" using Suc.hyps(2) by simp
  obtain packets h' where r: "fill_window w (new_report n) (Suc i) h1 = Inr (map MpNet packets, h')"
    "list_all2 carries packets (map (\<lambda>j. sent_msg w n (msgs ! j) j) [Suc i..<length msgs])" "window_at n addrs msgs (length msgs) h'"
    using Suc.hyps(1) [OF d b(3)] i by auto
  have "\<not> unat (ms_MaxExpectCnt (new_report n)) \<le> i" using i assms(3) by (simp add: new_report_def)
  then have "fill_window w (new_report n) i h = Inr (map MpNet (pkt # packets), h')"
    using b(1) r(1) by (subst fill_window.simps) simp
  moreover have "list_all2 carries (pkt # packets) (map (\<lambda>j. sent_msg w n (msgs ! j) j) [i..<length msgs])"
    using b(2) r(2) i by (simp add: upt_conv_Cons)
  ultimately show ?case using r(3) by blast
qed

text \<open>What a ready sender does with a new receiver's report.\<close>

lemma sync_sends:
  assumes "window_at n addrs msgs 0 h" and "length msgs \<le> unat n" and "unat n < 2 ^ 31"
    and "length addrs = length msgs" and "distinct addrs" and "\<forall>m \<in> set msgs. length (mp_Data m) < 2 ^ 32"
  obtains packets h' where "syncState w (new_report n) h = Some (Inr (map MpNet packets, h'))"
    "list_all2 carries packets (map (\<lambda>j. sent_msg w n (msgs ! j) j) [0..<length msgs])"
proof -
  obtain q where q: "mh_sendingQueue h = Some q" "lq_inv q" "lq_len q = 0"
    using assms(1) by (auto simp: window_at_def)
  obtain packets h' where f: "fill_window w (new_report n) 0 h = Inr (map MpNet packets, h')"
    "list_all2 carries packets (map (\<lambda>j. sent_msg w n (msgs ! j) j) [0..<length msgs])" "window_at n addrs msgs (length msgs) h'"
    using fill_all [OF assms(1) _ assms(2-6)] by blast
  have "mh_waitingList h' = Some []" "mh_sendChan h' = []" using f(3) assms(4) by (simp_all add: window_at_def sending_ok_def)
  then have "mp_refill w h' = Inr h'" by (cases h') (simp add: mp_refill_def go_deref_def)
  moreover have "resend_map w (new_report n) 0 h = Inr ([], h)" by (subst resend_map.simps) (simp add: new_report_def)
  moreover have "IsValidSeq q s = Inr False" for s using q(2,3) by (simp add: IsValidSeq_eq)
  ultimately have "syncState w (new_report n) h = Some (Inr (map MpNet packets, h'))"
    using q(1) f(1) by (simp add: syncState_def go_deref_def)
  then show thesis using f(2) by (rule that)
qed

subsection \<open>From one end to the other\<close>

text \<open>C25: Data go from one end to the other: a sender whose queues are set up cuts the data and queues the
  fragments, the report of the receiver lets all of them into the window in order, and the packets
  that the sender writes are decoded and put together to the data by the receiver, without a panic.
  The fragments must fit \<open>sendChan\<close> and the window; data of only one fragment are not delivered.\<close>
theorem transport_end_to_end:
  assumes "mp_ready n S" and "mp_ready n R" and "unat n < 2 ^ 31" and "0 < unat n"
    and "length data \<le> 10 * MULTIPACK_DATA_SIZE" and "length data \<le> unat n * MULTIPACK_DATA_SIZE"
  shows "\<exists>msgs S1 report R1 packets S2 R2. mp_Send w data S = (msgs, S1)
    \<and> mp_step w' MpStatus R = Some (Inr ([MpNet report], R1))
    \<and> mp_run w (map MpPut msgs @ [MpData (nm_Data report)]) S1 = Some (Inr (map MpNet packets, S2))
    \<and> mp_run w' (map (\<lambda>p. MpData (nm_Data p)) packets) R1 = Some (Inr ([], R2))
    \<and> mh_tasks R2 = mh_tasks R @ (if MULTIPACK_DATA_SIZE < length data then [data] else [])"
proof -
  have few: "pieces data \<le> k" if "length data \<le> k * MULTIPACK_DATA_SIZE" for k
  proof (cases "length data mod MULTIPACK_DATA_SIZE = 0")
    case True
    then show ?thesis using that mult_size_lt(1) by (auto simp: pieces_def elim!: dvdE)
  next
    case False
    then have "length data \<noteq> k * MULTIPACK_DATA_SIZE" by auto
    then have "length data < k * MULTIPACK_DATA_SIZE" using that by simp
    then have "length data div MULTIPACK_DATA_SIZE < k" by (simp add: less_mult_imp_div_less)
    then show ?thesis using False by (simp add: pieces_def)
  qed
  have N: "pieces data \<le> 10" "pieces data \<le> unat n" using few assms(5,6) by blast+
  have len: "length data < 2 ^ 15" using assms(5) by (simp add: size_constants)
  then have len40: "length data < 2 ^ 40" by simp
  obtain msgs S1 where sent: "mp_Send w data S = (msgs, S1)" "length msgs = pieces data" "concat (map mp_Data msgs) = data"
    by (rule mp_Send_spec [OF len40])
  have S1: "S1 = S\<lparr>mh_packID := mh_packID S + 1\<rparr>" using sent(1) by (simp add: mp_Send_def Let_def)
  have short: "\<forall>m \<in> set msgs. length (mp_Data m) < 2 ^ 32"
  proof
    fix m assume "m \<in> set msgs"
    then have "length (mp_Data m) \<le> length (concat (map mp_Data msgs))"
      by (induction msgs) auto
    then show "length (mp_Data m) < 2 ^ 32" using sent(3) len by simp
  qed
  obtain bs where bs: "encode_with multipack_state_c (new_report n) = Inr bs" "decode_with multipack_state_c bs = Inr (new_report n)"
    using multipack_state.encode_total [of "new_report n"] by auto
  have bs_len: "length bs = MP_STATE_SIZE"
    using encode_with_length [OF multipack_state_lawful _ bs(1)] by (simp add: MP_STATE_SIZE_def)
  let ?report = "\<lparr>nm_SrcId = mh_srcID R, nm_DstId = mh_dstID R, nm_Type = MSG_MULTI, nm_Data = bs, nm_TTL = MAX_TTL\<rparr>"
  let ?R1 = "R\<lparr>mh_statusTimer := Some (Some (seconds 5))\<rparr>"
  have "mp_getState R = Inr (new_report n)" using getState_new [of R n] assms(2,3) by (simp add: mp_ready_def)
  then have "mp_getState (R\<lparr>mh_statusTimer := Some None\<rparr>) = Inr (new_report n)" by (simp add: mp_getState_def)
  then have report: "mp_step w' MpStatus R = Some (Inr ([MpNet ?report], ?R1))"
    using assms(2) bs(1) by (auto simp: mp_ready_def mp_send_def reset_status_def go_deref_def)
  let ?addrs = "[mh_next S1..<mh_next S1 + length msgs]"
  obtain S2 where puts: "mp_run w (map MpPut msgs) S1 = Some (Inr ([], S2))" and win: "window_at n ?addrs msgs 0 S2"
  proof (rule that [OF run_puts])
    show "length (mh_sendChan S1) + length msgs \<le> 10" using assms(1) N(1) sent(2) by (simp add: S1 mp_ready_def)
    have "lq_inv (NewLoopedQueue n 0 :: nat looped_queue)" by (rule lq_inv_New [OF assms(3)])
    then show "window_at n ?addrs msgs 0 (S1\<lparr>mh_heap := (\<lambda>p. if mh_next S1 \<le> p \<and> p < mh_next S1 + length msgs
          then msgs ! (p - mh_next S1) else mh_heap S1 p),
        mh_sendChan := mh_sendChan S1 @ ?addrs, mh_next := mh_next S1 + length msgs\<rparr>)"
      using assms(1) by (auto simp: window_at_def sending_ok_def mp_ready_def S1)
  qed
  obtain packets S3 where sync: "syncState w (new_report n) S2 = Some (Inr (map MpNet packets, S3))"
    "list_all2 carries packets (map (\<lambda>j. sent_msg w n (msgs ! j) j) [0..<length msgs])"
    by (rule sync_sends [OF win _ assms(3) _ _ short]) (use N(2) sent(2) in simp_all)
  have "mp_run w [MpData (nm_Data ?report)] S2 = Some (Inr (map MpNet packets, S3))"
    using bs(2) bs_len sync(1) by simp
  with puts have run: "mp_run w (map MpPut msgs @ [MpData (nm_Data ?report)]) S1 = Some (Inr (map MpNet packets, S3))"
    using mp_run_append by fastforce
  let ?arrived = "map (\<lambda>j. sent_msg w n (msgs ! j) j) [0..<length msgs]"
  have "mh_receiveQueue ?R1 = Some (NewLoopedQueue n 0)" "mh_partialDataList ?R1 = Some []" using assms(2) by (simp_all add: mp_ready_def)
  then obtain R2 where all: "receive_all ?arrived ?R1 = Some (Inr R2)"
    "mh_tasks R2 = mh_tasks ?R1 @ (if MULTIPACK_DATA_SIZE < length data then [data] else [])"
    using data_reassembled [OF len40 sent(1), of ?arrived ?R1 n] assms(3,4) N(2) sent(2) by (auto simp: sent_msg_def)
  have "mp_run w' (map MpData (map nm_Data packets)) ?R1 = Some (Inr ([], R2))"
  proof (rule receive_packets [OF _ all(1)])
    show "mp_idle ?R1" using assms(2) lq_inv_New [OF assms(3), of 0] by (auto simp: mp_idle_def mp_ready_def)
    show "list_all2 (\<lambda>m d. decode_with multipack_msg_c d = Inr m \<and> length d \<noteq> MP_STATE_SIZE
           \<and> ms_MapStSeq (mp_State m) = ms_ExpectSeq (mp_State m)) ?arrived (map nm_Data packets)"
      using sync(2) by (auto simp: list_all2_conv_all_nth carries_def sent_msg_def new_report_def)
  qed
  then show ?thesis using sent(1) report run all(2) by (intro exI conjI) (auto simp: comp_def)
qed

definition demo_ready :: "node_id \<Rightarrow> node_id \<Rightarrow> mp_handler" where
  "demo_ready src dst = (NewNaiveMultiPackHandler src dst)
     \<lparr>mh_sendingQueue := Some (NewLoopedQueue 4 0), mh_receiveQueue := Some (NewLoopedQueue 4 0), mh_waitingList := Some [],
      mh_partialDataList := Some [], mh_retransmitTimerMap := Some Map.empty, mh_statusTimer := Some (Some (seconds 10))\<rparr>"

lemma demo_ready: "mp_ready 4 (demo_ready src dst)" "mh_tasks (demo_ready src dst) = []"
  by (simp_all add: mp_ready_def demo_ready_def NewNaiveMultiPackHandler_def)

lemma transport_end_to_end_witness:
  "\<exists>(packets :: net_msg list) R1 R2. mp_run \<lparr>mw_now = 0, mw_i64 = (\<lambda>_. 0), mw_u32 = (\<lambda>_. 0)\<rparr> (map (\<lambda>p. MpData (nm_Data p)) packets) R1 = Some (Inr ([], R2))
    \<and> mh_tasks R2 = [replicate 1000 7]"
proof -
  let ?w = "\<lparr>mw_now = 0, mw_i64 = (\<lambda>_. 0), mw_u32 = (\<lambda>_. 0)\<rparr>" and ?data = "replicate 1000 7 :: u8 list"
  have "length ?data \<le> 10 * MULTIPACK_DATA_SIZE" "length ?data \<le> unat (4 :: u32) * MULTIPACK_DATA_SIZE" and long: "MULTIPACK_DATA_SIZE < length ?data"
    by (simp_all add: size_constants)
  moreover have "unat (4 :: u32) < 2 ^ 31" "0 < unat (4 :: u32)" by simp_all
  ultimately obtain packets :: "net_msg list" and R1 R2 where "mp_run ?w (map (\<lambda>p. MpData (nm_Data p)) packets) R1 = Some (Inr ([], R2))"
    "mh_tasks R2 = mh_tasks (demo_ready [] []) @ (if MULTIPACK_DATA_SIZE < length ?data then [?data] else [])"
    using transport_end_to_end [OF demo_ready(1) [of "[]" "[]"] demo_ready(1) [of "[]" "[]"], where data = ?data and w = ?w and w' = ?w]
    by blast
  then show ?thesis using long by (intro exI conjI) (assumption, simp add: demo_ready(2))
qed

end
