(* ===== verification/Appli_Net.thy ===== *)
theory Appli_Net
  imports Messages
begin

text \<open>
  The application layer of \<open>src/src/net/application.go\<close> (\<open>NaiveAppliNetHandler\<close>, its factory and
  listeners) and the emulated network of \<open>src/src/net/net.go\<close> (\<open>NetHandlerEmulator\<close> over the
  global \<open>EmuChanMap\<close>), on which the file system and the task sessions run. A channel is a
  number; \<open>go func() { c <- v }()\<close> is the output \<open>(c, v)\<close>, and a send on a nil channel, which
  blocks its goroutine for ever, is no output. The delays of the emulator are left out: a message
  is in the receiver's queue once its goroutine has run.
\<close>

subsection \<open>\<open>NaiveAppliNetHandler\<close>\<close>

definition StaticHandlerID :: u16 where "StaticHandlerID = 0"

definition NewAppliNetMsg :: "u16 \<Rightarrow> u16 \<Rightarrow> listener_id \<Rightarrow> u8 list \<Rightarrow> appli_net_msg" where
  "NewAppliNetMsg srcHandlerID dstHandlerID listenerID data =
     \<lparr>an_SrcHandlerID = srcHandlerID, an_DstHandlerID = dstHandlerID,
      an_DstListenerID = listenerID, an_Data = data\<rparr>"

record listener_net_msg =
  ln_FromPeerID :: node_id
  ln_FromHandlerID :: u16
  ln_Data :: "u8 list"

record send_result =
  sd_ID :: u32
  sd_OK :: bool
  sd_DstPeerID :: node_id
  sd_DstHandlerID :: u16
  sd_DstListenerID :: listener_id

record appli_handler =
  ah_id :: u16
  ah_listeners :: "listener_id \<rightharpoonup> chan"

text \<open>The calls a handler makes on its \<open>NetHandler\<close>.\<close>

datatype net_call =
    NetSendTo node_id appli_net_msg
  | NetReliableSendTo node_id appli_net_msg u32 chan
  | NetBroadcast appli_net_msg

definition appli_GetID :: "appli_handler \<Rightarrow> u16" where
  "appli_GetID h = ah_id h"

definition AddListener :: "listener_id \<Rightarrow> chan \<Rightarrow> appli_handler \<Rightarrow> appli_handler" where
  "AddListener l c h = h\<lparr>ah_listeners := (ah_listeners h)(l \<mapsto> c)\<rparr>"

definition RemoveListener :: "listener_id \<Rightarrow> appli_handler \<Rightarrow> appli_handler" where
  "RemoveListener l h = h\<lparr>ah_listeners := (ah_listeners h)(l := None)\<rparr>"

definition appli_SendTo :: "appli_handler \<Rightarrow> node_id \<Rightarrow> u16 \<Rightarrow> listener_id \<Rightarrow> u8 list \<Rightarrow> net_call" where
  "appli_SendTo h peer handlerID listenerID data =
     NetSendTo peer (NewAppliNetMsg (ah_id h) handlerID listenerID data)"

definition appli_ReliableSendTo :: "appli_handler \<Rightarrow> node_id \<Rightarrow> u16 \<Rightarrow> listener_id \<Rightarrow> u8 list
    \<Rightarrow> u32 \<Rightarrow> chan \<Rightarrow> net_call" where
  "appli_ReliableSendTo h peer handlerID listenerID data i resultChan =
     NetReliableSendTo peer (NewAppliNetMsg (ah_id h) handlerID listenerID data) i resultChan"

definition appli_Broadcast :: "appli_handler \<Rightarrow> listener_id \<Rightarrow> u8 list \<Rightarrow> net_call" where
  "appli_Broadcast h listenerID data =
     NetBroadcast (NewAppliNetMsg (ah_id h) StaticHandlerID listenerID data)"

text \<open>\<open>time.Duration(byteCnt) * time.Second\<close>, nanoseconds in an \<open>int64\<close>.\<close>

definition EstimateTimeOut :: "u32 \<Rightarrow> i64" where
  "EstimateTimeOut byteCnt = ucast byteCnt * 1000000000"

definition OnMsgArrive ::
    "appli_handler \<Rightarrow> node_id \<Rightarrow> appli_net_msg \<Rightarrow> (chan \<times> listener_net_msg) option" where
  "OnMsgArrive h from msg = (case ah_listeners h (an_DstListenerID msg) of
       None \<Rightarrow> None
     | Some c \<Rightarrow> Some (c, \<lparr>ln_FromPeerID = from, ln_FromHandlerID = an_SrcHandlerID msg,
                         ln_Data = an_Data msg\<rparr>))"

subsection \<open>\<open>NetHandlerEmulator\<close>\<close>

text \<open>An emulator with its handlers and the contents of its receive channel; \<open>EmuChanMap\<close> maps the
  ids of the running emulators to them.\<close>

record emulator =
  em_handlers :: "u16 \<rightharpoonup> appli_handler"
  em_queue :: "net_msg list"

type_synonym emu_net = "node_id \<rightharpoonup> emulator"

definition NewNetHandlerEmulator :: "node_id \<Rightarrow> emu_net \<Rightarrow> emu_net" where
  "NewNetHandlerEmulator nodeId net = net(nodeId \<mapsto> \<lparr>em_handlers = Map.empty, em_queue = []\<rparr>)"

definition AddAppliHandler :: "appli_handler \<Rightarrow> emulator \<Rightarrow> emulator" where
  "AddAppliHandler h e = e\<lparr>em_handlers := (em_handlers e)(appli_GetID h \<mapsto> h)\<rparr>"

text \<open>The emulator and its clients share the handler objects: a call on the handler with id \<open>i\<close>
  changes what the emulator finds under \<open>i\<close>.\<close>

definition on_handler :: "u16 \<Rightarrow> (appli_handler \<Rightarrow> appli_handler) \<Rightarrow> emulator \<Rightarrow> emulator" where
  "on_handler i f e = e\<lparr>em_handlers := (em_handlers e)(i := map_option f (em_handlers e i))\<rparr>"

definition NewNaiveAppliNetHandler :: "u16 \<Rightarrow> emulator \<Rightarrow> appli_handler \<times> emulator" where
  "NewNaiveAppliNetHandler i e =
     (let h = \<lparr>ah_id = i, ah_listeners = Map.empty\<rparr> in (h, AddAppliHandler h e))"

definition emu_msg :: "node_id \<Rightarrow> node_id \<Rightarrow> u8 list \<Rightarrow> net_msg" where
  "emu_msg src dst data =
     \<lparr>nm_SrcId = src, nm_DstId = dst, nm_Type = 0, nm_Data = data, nm_TTL = 0\<rparr>"

definition emu_put :: "net_msg \<Rightarrow> emulator \<Rightarrow> emulator" where
  "emu_put m e = e\<lparr>em_queue := em_queue e @ [m]\<rparr>"

text \<open>\<open>SendTo\<close>, \<open>ReliableSendTo\<close> and \<open>Broadcast\<close> of the emulator of node \<open>self\<close>. The second component
  is the \<open>SendResult\<close> that \<open>ReliableSendTo\<close> puts on its channel after the message.\<close>

fun emu_call :: "node_id \<Rightarrow> net_call \<Rightarrow> emu_net \<Rightarrow> (emu_net \<times> (chan \<times> send_result) option) go" where
  "emu_call self (NetSendTo peer msg) net =
     and_then (encode_with appli_net_msg_c msg) (\<lambda>data.
       Inr (net(peer := map_option (emu_put (emu_msg self peer data)) (net peer)), None))"
| "emu_call self (NetReliableSendTo peer msg i resultChan) net =
     and_then (encode_with appli_net_msg_c msg) (\<lambda>data.
       Inr (net(peer := map_option (emu_put (emu_msg self peer data)) (net peer)),
            if net peer = None then None
            else Some (resultChan, \<lparr>sd_ID = i, sd_OK = True, sd_DstPeerID = peer,
              sd_DstHandlerID = an_DstHandlerID msg, sd_DstListenerID = an_DstListenerID msg\<rparr>)))"
| "emu_call self (NetBroadcast msg) net =
     and_then (encode_with appli_net_msg_c msg) (\<lambda>data.
       Inr (\<lambda>peer. if peer = self then net peer
                   else map_option (emu_put (emu_msg self peer data)) (net peer), None))"

text \<open>The receive branch of \<open>run\<close> at node \<open>self\<close>: the first queued message is decoded and handed to
  the handler it names; a missing handler is a nil interface, whose method call panics.\<close>

definition emu_recv :: "node_id \<Rightarrow> emu_net \<Rightarrow> (emu_net \<times> (chan \<times> listener_net_msg) option) go" where
  "emu_recv self net = (case net self of None \<Rightarrow> Inr (net, None) | Some e \<Rightarrow>
     (case em_queue e of [] \<Rightarrow> Inr (net, None) | m # ms \<Rightarrow>
       and_then (decode_with appli_net_msg_c (nm_Data m)) (\<lambda>am.
       and_then (go_deref (em_handlers e (an_DstHandlerID am))) (\<lambda>h.
         Inr (net(self \<mapsto> e\<lparr>em_queue := ms\<rparr>), OnMsgArrive h (nm_SrcId m) am)))))"

definition emu_Stop :: "node_id \<Rightarrow> emu_net \<Rightarrow> emu_net" where
  "emu_Stop self net = net(self := None)"

subsection \<open>\<open>NaiveAppliNetHandlerFactory\<close>\<close>

record handler_factory =
  hf_id :: u16

definition NewNaiveAppliNetHandlerFactory :: handler_factory where
  "NewNaiveAppliNetHandlerFactory = \<lparr>hf_id = 0\<rparr>"

definition GetHandler :: "handler_factory \<Rightarrow> emulator \<Rightarrow> appli_handler \<times> handler_factory \<times> emulator" where
  "GetHandler f e = (let f' = f\<lparr>hf_id := hf_id f + 1\<rparr>; (h, e') = NewNaiveAppliNetHandler (hf_id f') e
     in (h, f', e'))"

fun GetHandlers :: "nat \<Rightarrow> handler_factory \<Rightarrow> emulator
    \<Rightarrow> appli_handler list \<times> handler_factory \<times> emulator" where
  "GetHandlers 0 f e = ([], f, e)"
| "GetHandlers (Suc n) f e = (let (hs, f', e') = GetHandlers n f e; (h, f'', e'') = GetHandler f' e'
     in (hs @ [h], f'', e''))"

subsection \<open>Lemmas\<close>

lemma NewAppliNetMsg_sel [simp]:
  "an_SrcHandlerID (NewAppliNetMsg s d l b) = s" "an_DstHandlerID (NewAppliNetMsg s d l b) = d"
  "an_DstListenerID (NewAppliNetMsg s d l b) = l" "an_Data (NewAppliNetMsg s d l b) = b"
  by (simp_all add: NewAppliNetMsg_def)

lemma emu_put_sel [simp]:
  "em_queue (emu_put m e) = em_queue e @ [m]" "em_handlers (emu_put m e) = em_handlers e"
  by (simp_all add: emu_put_def)

lemma emu_msg_sel [simp]: "nm_SrcId (emu_msg s d b) = s" "nm_Data (emu_msg s d b) = b"
  by (simp_all add: emu_msg_def)

text \<open>What \<open>emu_call\<close> queues decodes to the message that was sent.\<close>

lemma appli_encode:
  assumes "length (an_Data m) < 2 ^ 32"
  obtains bs where "encode_with appli_net_msg_c m = Inr bs" "decode_with appli_net_msg_c bs = Inr m"
  using appli_net_msg.encode_total [of m] assms by auto

lemma emu_recv_Cons:
  assumes "net self = Some e" and "em_queue e = m # ms"
    and "decode_with appli_net_msg_c (nm_Data m) = Inr am"
    and "em_handlers e (an_DstHandlerID am) = Some h"
  shows "emu_recv self net = Inr (net(self \<mapsto> e\<lparr>em_queue := ms\<rparr>), OnMsgArrive h (nm_SrcId m) am)"
  using assms by (simp add: emu_recv_def)

lemma word_of_nat_inj_on:
  assumes "(word_of_nat a :: 'a::len word) = word_of_nat b" and "a < 2 ^ LENGTH('a)" and "b < 2 ^ LENGTH('a)"
  shows "a = b"
  using arg_cong [OF assms(1), of unat] assms(2,3) by (simp add: unat_word_of_nat)

text \<open>The handlers after \<open>n\<close> calls: the \<open>j\<close>-th one under id \<open>j + 1\<close>, wrapped at 16 bits.\<close>

definition factory_handlers :: "nat \<Rightarrow> (u16 \<rightharpoonup> appli_handler) \<Rightarrow> u16 \<rightharpoonup> appli_handler" where
  "factory_handlers n hs i = (if \<exists>j<n. i = word_of_nat (Suc j)
     then Some \<lparr>ah_id = i, ah_listeners = Map.empty\<rparr> else hs i)"

lemma factory_handlers_0 [simp]: "factory_handlers 0 hs = hs"
  by (simp add: factory_handlers_def fun_eq_iff)

lemma factory_handlers_Suc [simp]:
  "(factory_handlers n hs)(word_of_nat (Suc n) \<mapsto> \<lparr>ah_id = word_of_nat (Suc n), ah_listeners = Map.empty\<rparr>)
     = factory_handlers (Suc n) hs"
  by (auto simp: factory_handlers_def fun_eq_iff less_Suc_eq simp del: of_nat_Suc)

lemma GetHandlers_spec:
  "GetHandlers n \<lparr>hf_id = 0\<rparr> e =
     (map (\<lambda>i. \<lparr>ah_id = word_of_nat (Suc i), ah_listeners = Map.empty\<rparr>) [0..<n],
      \<lparr>hf_id = word_of_nat n\<rparr>, e\<lparr>em_handlers := factory_handlers n (em_handlers e)\<rparr>)"
proof (induction n)
  case (Suc n)
  have s: "word_of_nat n + 1 = (word_of_nat (Suc n) :: u16)" by (simp add: add.commute)
  show ?case
    unfolding GetHandlers.simps Suc
    by (simp add: GetHandler_def NewNaiveAppliNetHandler_def AddAppliHandler_def appli_GetID_def s
        Let_def del: of_nat_Suc)
qed simp

lemma map_option_eq_self: "net peer = Some e \<Longrightarrow> net(peer \<mapsto> e) = net"
  by auto

lemma emu_SendTo_eq:
  assumes "net peer = Some e" and "encode_with appli_net_msg_c m = Inr bs"
  shows "emu_call self (NetSendTo peer m) net = Inr (net(peer \<mapsto> emu_put (emu_msg self peer bs) e), None)"
  using assms by simp

text \<open>A message that a handler sends to a running node whose receive queue is empty is handed to
  the channel of the addressed listener of the addressed handler, with the sender's node id, the
  sending handler's id and the data unchanged; the network is then as before. Nothing is delivered
  when the addressed handler has no such listener.\<close>
theorem emu_send_delivers:
  assumes "net peer = Some e" and "em_queue e = []" and "em_handlers e hid = Some h'"
    and "length data < 2 ^ 32"
  shows "\<exists>net'. emu_call self (appli_SendTo h peer hid l data) net = Inr (net', None)
    \<and> emu_recv peer net' = Inr (net, (case ah_listeners h' l of None \<Rightarrow> None
        | Some c \<Rightarrow> Some (c, \<lparr>ln_FromPeerID = self, ln_FromHandlerID = appli_GetID h, ln_Data = data\<rparr>)))"
proof -
  let ?m = "NewAppliNetMsg (ah_id h) hid l data"
  obtain bs where bs: "encode_with appli_net_msg_c ?m = Inr bs" "decode_with appli_net_msg_c bs = Inr ?m"
    using appli_encode [of ?m] assms(4) by auto
  let ?net = "net(peer \<mapsto> emu_put (emu_msg self peer bs) e)"
  have e: "e\<lparr>em_queue := []\<rparr> = e" using assms(2) by (metis emulator.surjective emulator.update_convs(2))
  have "emu_recv peer ?net
      = Inr (?net(peer \<mapsto> (emu_put (emu_msg self peer bs) e)\<lparr>em_queue := []\<rparr>), OnMsgArrive h' self ?m)"
    using emu_recv_Cons [of ?net peer "emu_put (emu_msg self peer bs) e" "emu_msg self peer bs" "[]" ?m h']
      assms(2,3) bs(2) by simp
  moreover have "(emu_put (emu_msg self peer bs) e)\<lparr>em_queue := []\<rparr> = e"
    using e by (simp add: emu_put_def)
  ultimately have "emu_recv peer ?net = Inr (net, OnMsgArrive h' self ?m)"
    using assms(1) by (simp add: map_option_eq_self)
  then show ?thesis
    using emu_SendTo_eq [where net = net and m = ?m and self = self, OF assms(1) bs(1)]
    by (auto simp: appli_SendTo_def OnMsgArrive_def appli_GetID_def cong: option.case_cong)
qed

text \<open>\<open>Broadcast\<close> puts exactly one message in the queue of every other running node and none in
  the sender's own; each decodes to the broadcast message, addressed to the static handler 0.\<close>
theorem emu_broadcast_reaches_others:
  assumes "length data < 2 ^ 32"
  shows "\<exists>net' bs. emu_call self (appli_Broadcast h l data) net = Inr (net', None)
    \<and> decode_with appli_net_msg_c bs = Inr (NewAppliNetMsg (appli_GetID h) StaticHandlerID l data)
    \<and> net' self = net self \<and> dom net' = dom net
    \<and> (\<forall>peer e. peer \<noteq> self \<longrightarrow> net peer = Some e \<longrightarrow>
         (\<exists>e'. net' peer = Some e' \<and> em_queue e' = em_queue e @ [emu_msg self peer bs]
           \<and> em_handlers e' = em_handlers e))"
proof -
  let ?m = "NewAppliNetMsg (ah_id h) StaticHandlerID l data"
  obtain bs where bs: "encode_with appli_net_msg_c ?m = Inr bs" "decode_with appli_net_msg_c bs = Inr ?m"
    using appli_encode [of ?m] assms by auto
  show ?thesis
    by (rule exI, rule exI [of _ bs]) (auto simp: appli_Broadcast_def appli_GetID_def bs split: if_splits)
qed

text \<open>C40: The first \<open>n < 65536\<close> handlers of a factory get the ids 1, ..., n, all different and none of
  them the static id 0, each is registered under its id, and the handlers already registered under
  other ids are kept; the next handler's id is \<open>n + 1\<close> at 16 bits, so the 65536th one takes the
  static id and replaces the static handler by one without listeners.\<close>
theorem factory_ids_distinct_until_wrap:
  assumes "n < 65536" and "GetHandlers n NewNaiveAppliNetHandlerFactory e = (hs, f, e')"
  shows "map appli_GetID hs = map word_of_nat [1..<n + 1] \<and> distinct (map appli_GetID hs)
    \<and> StaticHandlerID \<notin> set (map appli_GetID hs)
    \<and> (\<forall>h \<in> set hs. em_handlers e' (appli_GetID h) = Some h)
    \<and> (\<forall>i. i \<notin> set (map appli_GetID hs) \<longrightarrow> em_handlers e' i = em_handlers e i)
    \<and> fst (GetHandler f e') = \<lparr>ah_id = word_of_nat (n + 1), ah_listeners = Map.empty\<rparr>
    \<and> (n = 65535 \<longrightarrow> em_handlers (snd (snd (GetHandler f e'))) StaticHandlerID
          = Some \<lparr>ah_id = StaticHandlerID, ah_listeners = Map.empty\<rparr>)"
proof -
  have r: "hs = map (\<lambda>i. \<lparr>ah_id = word_of_nat (Suc i), ah_listeners = Map.empty\<rparr>) [0..<n]"
    "f = \<lparr>hf_id = word_of_nat n\<rparr>" "e' = e\<lparr>em_handlers := factory_handlers n (em_handlers e)\<rparr>"
    using assms(2) by (simp_all add: NewNaiveAppliNetHandlerFactory_def GetHandlers_spec)
  have ids: "map appli_GetID hs = map word_of_nat [1..<n + 1]"
    by (simp add: r appli_GetID_def comp_def map_Suc_upt [symmetric] del: upt_Suc of_nat_Suc)
  have "inj_on (word_of_nat :: nat \<Rightarrow> u16) {1..<n + 1}"
    using assms(1) by (auto simp: inj_on_def dest!: word_of_nat_inj_on)
  then have d: "distinct (map appli_GetID hs)"
    unfolding ids by (simp add: distinct_map del: upt_Suc)
  have z: "StaticHandlerID \<notin> set (map appli_GetID hs)"
  proof
    assume "StaticHandlerID \<in> set (map appli_GetID hs)"
    then obtain j where "(word_of_nat j :: u16) = word_of_nat 0" "0 < j" "j < n + 1"
      unfolding ids StaticHandlerID_def by auto
    then show False using word_of_nat_inj_on [of j 0, where 'a = 16] assms(1) by simp
  qed
  have reg: "\<forall>h \<in> set hs. em_handlers e' (appli_GetID h) = Some h"
    by (auto simp: r appli_GetID_def factory_handlers_def simp del: of_nat_Suc)
  have old: "\<forall>i. i \<notin> set (map appli_GetID hs) \<longrightarrow> em_handlers e' i = em_handlers e i"
    by (auto simp: r appli_GetID_def factory_handlers_def simp del: of_nat_Suc)
  have nxt: "fst (GetHandler f e') = \<lparr>ah_id = word_of_nat (n + 1), ah_listeners = Map.empty\<rparr>"
    by (simp add: GetHandler_def NewNaiveAppliNetHandler_def r Let_def add.commute)
  have wrap: "em_handlers (snd (snd (GetHandler f e'))) StaticHandlerID
          = Some \<lparr>ah_id = StaticHandlerID, ah_listeners = Map.empty\<rparr>" if "n = 65535"
    by (simp add: GetHandler_def NewNaiveAppliNetHandler_def AddAppliHandler_def appli_GetID_def r
        Let_def that StaticHandlerID_def)
  show ?thesis using ids d z reg old nxt wrap by blast
qed

subsection \<open>Witnesses\<close>

definition demo_emulator :: emulator where
  "demo_emulator = \<lparr>em_handlers = [7 \<mapsto> \<lparr>ah_id = 7, ah_listeners = [2 \<mapsto> 5]\<rparr>], em_queue = []\<rparr>"

lemma emu_send_delivers_witness:
  "\<exists>net'. emu_call [1] (appli_SendTo \<lparr>ah_id = 3, ah_listeners = Map.empty\<rparr> [2] 7 2 [10, 20]) [[2] \<mapsto> demo_emulator]
       = Inr (net', None)
     \<and> emu_recv [2] net' = Inr ([[2] \<mapsto> demo_emulator],
         Some (5, \<lparr>ln_FromPeerID = [1], ln_FromHandlerID = 3, ln_Data = [10, 20]\<rparr>))"
  using emu_send_delivers [of "[[2] \<mapsto> demo_emulator]" "[2]" demo_emulator 7
      "\<lparr>ah_id = 7, ah_listeners = [2 \<mapsto> 5]\<rparr>" "[10, 20]" "[1]" "\<lparr>ah_id = 3, ah_listeners = Map.empty\<rparr>" 2]
  by (simp add: demo_emulator_def appli_GetID_def)

lemma emu_broadcast_reaches_others_witness:
  "\<exists>net' bs. emu_call [1] (appli_Broadcast \<lparr>ah_id = 3, ah_listeners = Map.empty\<rparr> 2 [9]) [[2] \<mapsto> demo_emulator]
       = Inr (net', None)
     \<and> (\<exists>e'. net' [2] = Some e' \<and> em_queue e' = [emu_msg [1] [2] bs])"
proof -
  have "length [9 :: u8] < 2 ^ 32" by simp
  from emu_broadcast_reaches_others [OF this, of "[1]" "\<lparr>ah_id = 3, ah_listeners = Map.empty\<rparr>" 2
      "[[2] \<mapsto> demo_emulator]"]
  obtain net' bs where *: "emu_call [1] (appli_Broadcast \<lparr>ah_id = 3, ah_listeners = Map.empty\<rparr> 2 [9])
      [[2] \<mapsto> demo_emulator] = Inr (net', None)"
    "\<forall>peer e. peer \<noteq> [1] \<longrightarrow> [[2] \<mapsto> demo_emulator] peer = Some e \<longrightarrow>
         (\<exists>e'. net' peer = Some e' \<and> em_queue e' = em_queue e @ [emu_msg [1] peer bs]
           \<and> em_handlers e' = em_handlers e)"
    by blast
  have "\<exists>e'. net' [2] = Some e' \<and> em_queue e' = [emu_msg [1] [2] bs]"
    using *(2) [rule_format, of "[2]" demo_emulator] by (auto simp: demo_emulator_def)
  with *(1) show ?thesis by blast
qed

lemma factory_ids_distinct_until_wrap_witness:
  "map appli_GetID (fst (GetHandlers 3 NewNaiveAppliNetHandlerFactory demo_emulator)) = [1, 2, 3]"
  using factory_ids_distinct_until_wrap [of 3 demo_emulator "fst (GetHandlers 3 NewNaiveAppliNetHandlerFactory demo_emulator)"
      "fst (snd (GetHandlers 3 NewNaiveAppliNetHandlerFactory demo_emulator))"
      "snd (snd (GetHandlers 3 NewNaiveAppliNetHandlerFactory demo_emulator))"]
  by (simp add: upt_rec)

end
