(* ===== verification/Calc_Contract.thy ===== *)
theory Calc_Contract
  imports Common_Defs
begin

text \<open>
  The simulated chain of \<open>src/src/chain\<close>: \<open>chain.go\<close> (results) and \<open>calc_contract.go\<close> (the handler and
  the globals \<open>addressNum\<close> and \<open>calcContracts\<close>, here the state \<open>chain_state\<close>). A nil map of contracts
  reads like an empty one, and \<open>Deploy\<close> creates it before the first write. The goroutine that puts
  a result on a channel is the output \<open>(channel, result)\<close>. \<open>ListenPunish\<close> has an empty body.
\<close>

subsection \<open>Results\<close>

text \<open>The dynamic types that the sources store in \<open>Args []interface{}\<close>.\<close>

datatype arg = ArgTaskID task_id | ArgBytes "u8 list" | ArgHashes "hash_val list" | ArgKey "u8 list"

record deploy_result =
  dr_Address :: contract_address
  dr_Deployer :: node_id
  dr_OK :: bool
  dr_Args :: "arg list"

definition NewDeployResult :: "contract_address \<Rightarrow> node_id \<Rightarrow> bool \<Rightarrow> arg list \<Rightarrow> deploy_result" where
  "NewDeployResult address deployer ok args =
     \<lparr>dr_Address = address, dr_Deployer = deployer, dr_OK = ok, dr_Args = args\<rparr>"

record call_result =
  cl_OK :: bool
  cl_Caller :: node_id
  cl_Args :: "arg list"

definition NewCallResult :: "bool \<Rightarrow> node_id \<Rightarrow> arg list \<Rightarrow> call_result" where
  "NewCallResult ok caller args = \<lparr>cl_OK = ok, cl_Caller = caller, cl_Args = args\<rparr>"

fun as_TaskID :: "arg \<Rightarrow> task_id option" where
  "as_TaskID (ArgTaskID t) = Some t"
| "as_TaskID _ = None"

fun as_Hashes :: "arg \<Rightarrow> hash_val list option" where
  "as_Hashes (ArgHashes hs) = Some hs"
| "as_Hashes _ = None"

definition ResolveDeployArgs :: "arg list \<Rightarrow> task_id go" where
  "ResolveDeployArgs args = and_then (go_index args 0) (\<lambda>a. go_assert (as_TaskID a))"

subsection \<open>The contracts\<close>

record contract_simulator =
  cs_DeployInfo :: deploy_result
  cs_SubmitListeners :: "node_id \<rightharpoonup> chan"

definition NewCalcContractSimulator :: "deploy_result \<Rightarrow> contract_simulator" where
  "NewCalcContractSimulator deployInfo =
     \<lparr>cs_DeployInfo = deployInfo, cs_SubmitListeners = Map.empty\<rparr>"

record chain_state =
  cc_addressNum :: i64
  cc_contracts :: "contract_address \<rightharpoonup> contract_simulator"

definition chain_init :: chain_state where
  "chain_init = \<lparr>cc_addressNum = 0, cc_contracts = Map.empty\<rparr>"

record contract_handler =
  ch_address :: contract_address
  ch_id :: node_id

definition NewNaiveCalcContractHandler :: "node_id \<Rightarrow> contract_handler" where
  "NewNaiveCalcContractHandler i = \<lparr>ch_address = replicate 20 0, ch_id = i\<rparr>"

text \<open>\<open>strconv.Itoa\<close> of a 64-bit \<open>int\<close>.\<close>

fun decimal :: "nat \<Rightarrow> u8 list" where
  "decimal n = (if n < 10 then [word_of_nat (48 + n)]
     else decimal (n div 10) @ [word_of_nat (48 + n mod 10)])"

declare decimal.simps [simp del]

definition Itoa :: "i64 \<Rightarrow> go_string" where
  "Itoa w = (if unat w < 2 ^ 63 then decimal (unat w) else 45 # decimal (2 ^ 64 - unat w))"

definition Deploy :: "task_id \<Rightarrow> contract_handler \<Rightarrow> chain_state
    \<Rightarrow> deploy_result \<times> contract_handler \<times> chain_state" where
  "Deploy taskID h c =
     (let num = cc_addressNum c + 1;
          address = go_copy (ch_address h) (Itoa num);
          resultInfo = NewDeployResult address (ch_id h) True [ArgTaskID taskID]
      in (resultInfo, h\<lparr>ch_address := address\<rparr>,
          \<lparr>cc_addressNum = num,
           cc_contracts = (cc_contracts c)(address \<mapsto> NewCalcContractSimulator resultInfo)\<rparr>))"

definition Validate :: "contract_address \<Rightarrow> contract_handler \<Rightarrow> chain_state
    \<Rightarrow> deploy_result \<times> contract_handler" where
  "Validate address h c =
     (case cc_contracts c address of
        Some simu \<Rightarrow> cs_DeployInfo simu
      | None \<Rightarrow> NewDeployResult (replicate 20 0) (replicate 20 0) False [],
      h\<lparr>ch_address := address\<rparr>)"

definition GetAddress :: "contract_handler \<Rightarrow> bool \<times> contract_address" where
  "GetAddress h = (True, ch_address h)"

text \<open>\<open>Submit\<close> notifies the listeners in the order \<open>ord\<close> of the map iteration, then the caller.\<close>

definition Submit :: "node_id list \<Rightarrow> u8 list \<Rightarrow> hash_val list \<Rightarrow> chan \<Rightarrow> contract_handler \<Rightarrow> chain_state
    \<Rightarrow> (chan \<times> call_result) list go" where
  "Submit ord sign ansHash resultChan h c =
     (let callResult = NewCallResult True (ch_id h) [ArgBytes sign, ArgHashes ansHash] in
      and_then (go_deref (cc_contracts c (ch_address h))) (\<lambda>simu.
        Inr (map (\<lambda>(_, listener). (listener, callResult)) (go_range ord (cs_SubmitListeners simu))
             @ [(resultChan, callResult)])))"

definition Terminate :: "u8 list \<Rightarrow> contract_handler \<Rightarrow> call_result" where
  "Terminate key h = NewCallResult True (ch_id h) [ArgKey key]"

definition ListenSubmit :: "chan \<Rightarrow> contract_handler \<Rightarrow> chain_state \<Rightarrow> chain_state go" where
  "ListenSubmit resultChan h c =
     and_then (go_deref (cc_contracts c (ch_address h))) (\<lambda>simu.
       Inr (c\<lparr>cc_contracts := (cc_contracts c)(ch_address h \<mapsto>
              simu\<lparr>cs_SubmitListeners := (cs_SubmitListeners simu)(ch_id h \<mapsto> resultChan)\<rparr>)\<rparr>))"

record contract_handler_factory =
  cf_id :: node_id

definition NewNaiveCalcContractHandlerFactory :: "node_id \<Rightarrow> contract_handler_factory" where
  "NewNaiveCalcContractHandlerFactory i = \<lparr>cf_id = i\<rparr>"

definition GetCalcContractHandler :: "contract_handler_factory \<Rightarrow> contract_handler" where
  "GetCalcContractHandler f = NewNaiveCalcContractHandler (cf_id f)"

subsection \<open>What a client of a contract registry relies on\<close>

text \<open>A registry whose deployments get addresses of their own. \<open>room n c\<close> says that \<open>n\<close> more
  deployments are possible, \<open>info c\<close> maps the addresses in use to what their deployment answered.\<close>

locale contract_registry =
  fixes deploy :: "'t \<Rightarrow> 'h \<Rightarrow> 'c \<Rightarrow> 'r \<times> 'h \<times> 'c"
    and address :: "'r \<Rightarrow> 'a"
    and info :: "'c \<Rightarrow> 'a \<rightharpoonup> 'r"
    and fresh :: "'h \<Rightarrow> bool"
    and room :: "nat \<Rightarrow> 'c \<Rightarrow> bool"
  assumes deploy_new: "fresh h \<Longrightarrow> room (Suc n) c \<Longrightarrow> deploy t h c = (r, h', c')
      \<Longrightarrow> info c (address r) = None \<and> info c' = (info c)(address r \<mapsto> r) \<and> room n c'"
begin

fun deploy_all :: "('t \<times> 'h) list \<Rightarrow> 'c \<Rightarrow> 'r list \<times> 'c" where
  "deploy_all [] c = ([], c)"
| "deploy_all ((t, h) # ds) c =
     (let (r, _, c') = deploy t h c; (rs, c'') = deploy_all ds c' in (r # rs, c''))"

lemma deploy_all_distinct:
  assumes "deploy_all ds c = (rs, c')" and "\<forall>d \<in> set ds. fresh (snd d)" and "room (length ds) c"
  shows "distinct (map address rs) \<and> (\<forall>r \<in> set rs. info c (address r) = None \<and> info c' (address r) = Some r)
    \<and> (\<forall>a. info c a \<noteq> None \<longrightarrow> info c' a = info c a) \<and> room 0 c'"
  using assms
proof (induction ds arbitrary: c rs)
  case Nil
  then show ?case by simp
next
  case (Cons d ds)
  obtain t h where d: "d = (t, h)" by (cases d)
  obtain r h' c1 where dep: "deploy t h c = (r, h', c1)" by (cases "deploy t h c")
  obtain rs1 where rest: "deploy_all ds c1 = (rs1, c')" and rs: "rs = r # rs1"
    using Cons.prems(1) by (auto simp: d dep split: prod.splits)
  have new: "info c (address r) = None" "info c1 = (info c)(address r \<mapsto> r)" "room (length ds) c1"
    using deploy_new [OF _ _ dep, of "length ds"] Cons.prems(2,3) by (auto simp: d)
  note IH = Cons.IH [OF rest _ new(3)]
  have tail: "distinct (map address rs1)" "\<And>r'. r' \<in> set rs1 \<Longrightarrow> info c1 (address r') = None"
    "\<And>r'. r' \<in> set rs1 \<Longrightarrow> info c' (address r') = Some r'" "\<And>a. info c1 a \<noteq> None \<Longrightarrow> info c' a = info c1 a"
    "room 0 c'"
    using IH Cons.prems(2) by auto
  have notin: "info c (address r') = None \<and> address r' \<noteq> address r" if "r' \<in> set rs1" for r'
    using tail(2) [OF that] new(2) by (auto split: if_splits)
  have own: "info c' (address r) = Some r" using tail(4) [of "address r"] new(2) by simp
  have old: "info c' a = info c a" if "info c a \<noteq> None" for a
    using tail(4) [of a] that new(1,2) by (cases "a = address r") simp_all
  have "distinct (map address rs)" using tail(1) notin by (fastforce simp: rs)
  moreover have "\<forall>r' \<in> set rs. info c (address r') = None \<and> info c' (address r') = Some r'"
    using own new(1) notin tail(3) by (simp add: rs)
  ultimately show ?case using old tail(5) by blast
qed

end

subsection \<open>Addresses\<close>

lemma decimal_step: "10 \<le> n \<Longrightarrow> decimal n = decimal (n div 10) @ [word_of_nat (48 + n mod 10)]"
  by (simp add: decimal.simps [of n])

lemma decimal_digit: "n < 10 \<Longrightarrow> decimal n = [word_of_nat (48 + n)]"
  by (simp add: decimal.simps [of n])

lemma digit_inj: "i < 10 \<Longrightarrow> j < 10 \<Longrightarrow> (word_of_nat (48 + i) :: u8) = word_of_nat (48 + j) \<Longrightarrow> i = j"
  by (drule arg_cong [of _ _ unat]) (simp add: unat_of_nat del: of_nat_add)

lemma decimal_nonempty [simp]: "decimal n \<noteq> []"
  by (simp add: decimal.simps [of n])

lemma decimal_inj: "decimal m = decimal n \<Longrightarrow> m = n"
proof (induction m arbitrary: n rule: decimal.induct)
  case (1 m)
  show ?case
  proof (cases "m < 10 \<or> n < 10")
    case True
    then show ?thesis
      using "1.prems" digit_inj [of m n]
      by (cases "m < 10"; cases "n < 10") (simp_all add: decimal_digit decimal_step decimal_nonempty [symmetric] del: of_nat_add)
  next
    case False
    then have "m div 10 = n div 10" and "m mod 10 = n mod 10"
      using "1.prems" "1.IH" [of "n div 10"] digit_inj [of "m mod 10" "n mod 10"]
      by (simp_all add: decimal_step del: of_nat_add)
    then show ?thesis by (metis div_mult_mod_eq)
  qed
qed

lemma decimal_nonzero: "b \<in> set (decimal n) \<Longrightarrow> b \<noteq> 0"
proof (induction n rule: decimal.induct)
  case (1 n)
  have nz: "(word_of_nat (48 + k) :: u8) \<noteq> 0" if "k < 10" for k
  proof
    assume "(word_of_nat (48 + k) :: u8) = 0"
    then have "unat (word_of_nat (48 + k) :: u8) = 0" by simp
    then show False using that by (simp add: unat_of_nat del: of_nat_add)
  qed
  show ?case
    using 1 nz [of n] nz [of "n mod 10"]
    by (cases "n < 10") (auto simp: decimal_digit decimal_step simp del: of_nat_add)
qed

lemma length_decimal: "n < 10 ^ k \<Longrightarrow> 0 < k \<Longrightarrow> length (decimal n) \<le> k"
proof (induction k arbitrary: n)
  case (Suc k)
  show ?case
  proof (cases "n < 10")
    case False
    then have "0 < k" "n div 10 < 10 ^ k" using Suc.prems(1) by (cases k; auto)+
    then show ?thesis using Suc.IH False by (simp add: decimal_step)
  qed (simp add: decimal_digit)
qed simp

text \<open>The address of the \<open>k\<close>-th deployment.\<close>

definition address_of :: "nat \<Rightarrow> contract_address" where
  "address_of k = go_copy (replicate 20 0) (decimal k)"

lemma address_of_eq:
  assumes "k < 2 ^ 63"
  shows "address_of k = decimal k @ replicate (20 - length (decimal k)) 0"
proof -
  have "length (decimal k) \<le> 19" by (rule length_decimal) (use assms in simp_all)
  then show ?thesis by (simp add: address_of_def go_copy_def)
qed

lemma address_of_inj:
  assumes "address_of j = address_of k" and "j < 2 ^ 63" and "k < 2 ^ 63"
  shows "j = k"
proof -
  have "takeWhile (\<lambda>b. b \<noteq> 0) (address_of n) = decimal n" if "n < 2 ^ 63" for n
    using decimal_nonzero by (simp add: address_of_eq [OF that] takeWhile_append2 takeWhile_replicate)
  then show ?thesis using assms by (metis decimal_inj)
qed

text \<open>The contracts of a chain are those of its \<open>cc_addressNum\<close> deployments, and \<open>n\<close> more fit an \<open>int\<close>.\<close>

definition chain_room :: "nat \<Rightarrow> chain_state \<Rightarrow> bool" where
  "chain_room n c \<longleftrightarrow> unat (cc_addressNum c) + n < 2 ^ 63 \<and>
     dom (cc_contracts c) \<subseteq> address_of ` {1..unat (cc_addressNum c)}"

definition fresh_handler :: "contract_handler \<Rightarrow> bool" where
  "fresh_handler h \<longleftrightarrow> ch_address h = replicate 20 0"

definition deployments :: "chain_state \<Rightarrow> contract_address \<rightharpoonup> deploy_result" where
  "deployments c a = map_option cs_DeployInfo (cc_contracts c a)"

lemma chain_room_init [simp]: "chain_room n chain_init \<longleftrightarrow> n < 2 ^ 63"
  by (simp add: chain_room_def chain_init_def)

lemma Deploy_new:
  assumes "fresh_handler h" and "chain_room (Suc n) c" and "Deploy t h c = (r, h', c')"
  shows "deployments c (dr_Address r) = None" "deployments c' = (deployments c)(dr_Address r \<mapsto> r)"
    "chain_room n c'"
proof -
  let ?k = "unat (cc_addressNum c)"
  have k: "?k + Suc n < 2 ^ 63" using assms(2) by (simp add: chain_room_def)
  then have num: "unat (cc_addressNum c + 1) = Suc ?k"
    by (simp add: unat_plus_if')
  have adr: "dr_Address r = address_of (Suc ?k)" and eqs:
    "r = NewDeployResult (address_of (Suc ?k)) (ch_id h) True [ArgTaskID t]"
    "cc_addressNum c' = cc_addressNum c + 1"
    "cc_contracts c' = (cc_contracts c)(address_of (Suc ?k) \<mapsto> NewCalcContractSimulator r)"
    using assms(1,3) k num
    by (auto simp: Deploy_def fresh_handler_def Itoa_def address_of_def NewDeployResult_def Let_def)
  have "address_of (Suc ?k) \<notin> address_of ` {1..?k}"
    using address_of_inj [of "Suc ?k"] k by force
  then have free: "cc_contracts c (address_of (Suc ?k)) = None"
    using assms(2) by (auto simp: chain_room_def)
  then show "deployments c (dr_Address r) = None" by (simp add: deployments_def adr)
  show "deployments c' = (deployments c)(dr_Address r \<mapsto> r)"
    by (auto simp: deployments_def adr eqs(3) NewCalcContractSimulator_def)
  show "chain_room n c'"
    using assms(2) num k by (auto simp: chain_room_def eqs(2,3))
qed

interpretation contracts: contract_registry Deploy dr_Address deployments fresh_handler chain_room
  by unfold_locales (blast intro: Deploy_new)

subsection \<open>Properties\<close>

text \<open>Deployments one after the other, each by a handler of its own.\<close>

fun deploy_seq :: "(task_id \<times> contract_handler) list \<Rightarrow> chain_state \<Rightarrow> deploy_result list \<times> chain_state" where
  "deploy_seq [] c = ([], c)"
| "deploy_seq ((t, h) # ds) c =
     (let (r, _, c') = Deploy t h c; (rs, c'') = deploy_seq ds c' in (r # rs, c''))"

lemma deploy_seq_eq: "deploy_seq ds c = contracts.deploy_all ds c"
  by (induction ds c rule: deploy_seq.induct) (simp_all split: prod.split)

lemma Validate_deployed: "deployments c a = Some r \<Longrightarrow> fst (Validate a h c) = r"
  by (auto simp: deployments_def Validate_def)

lemma Validate_unknown: "cc_contracts c a = None \<Longrightarrow> \<not> dr_OK (fst (Validate a h c))"
  by (simp add: Validate_def NewDeployResult_def)

text \<open>C32: Fewer than \<open>2 ^ 63\<close> deployments by new handlers get pairwise different addresses, and
  afterwards any handler that validates one of these addresses receives that deployment's result,
  so a worker learns the deployer and the task it belongs to.\<close>
theorem deploy_then_validate:
  assumes "deploy_seq ds chain_init = (rs, c)" and "\<forall>d \<in> set ds. fresh_handler (snd d)"
    and "length ds < 2 ^ 63"
  shows "distinct (map dr_Address rs) \<and> (\<forall>r \<in> set rs. \<forall>h. fst (Validate (dr_Address r) h c) = r)"
proof -
  have "contracts.deploy_all ds chain_init = (rs, c)" using assms(1) by (simp add: deploy_seq_eq)
  from contracts.deploy_all_distinct [OF this assms(2)] assms(3)
  show ?thesis by (auto intro: Validate_deployed)
qed

lemma deploy_then_validate_witness:
  "\<exists>r s c. deploy_seq [([7], NewNaiveCalcContractHandler [1]), ([8], NewNaiveCalcContractHandler [2])] chain_init
      = ([r, s], c) \<and> dr_Address r \<noteq> dr_Address s \<and> fst (Validate (dr_Address r) (NewNaiveCalcContractHandler [3]) c) = r"
proof -
  let ?ds = "[([7 :: u8], NewNaiveCalcContractHandler [1]), ([8], NewNaiveCalcContractHandler [2])]"
  obtain r s c where run: "deploy_seq ?ds chain_init = ([r, s], c)"
    by (simp add: Deploy_def Let_def)
  have "\<forall>d \<in> set ?ds. fresh_handler (snd d)"
    by (simp add: fresh_handler_def NewNaiveCalcContractHandler_def)
  from deploy_then_validate [OF run this] run show ?thesis by auto
qed

text \<open>After \<open>ListenSubmit\<close> the channel of the listener is served by every \<open>Submit\<close> to the contract.\<close>

lemma submit_reaches_listener:
  assumes "ListenSubmit lc g c = Inr c'" and "ch_address h = ch_address g"
    and "cc_contracts c' (ch_address g) = Some simu" and "enumerates ord (cs_SubmitListeners simu)"
  shows "\<exists>outs. Submit ord sign hs rc h c' = Inr outs
    \<and> (lc, NewCallResult True (ch_id h) [ArgBytes sign, ArgHashes hs]) \<in> set outs
    \<and> length outs = Suc (card (dom (cs_SubmitListeners simu)))"
proof -
  have "cs_SubmitListeners simu (ch_id g) = Some lc"
    using assms(1,3) by (auto simp: ListenSubmit_def and_then_Inr_iff)
  then have "(ch_id g, lc) \<in> set (go_range ord (cs_SubmitListeners simu))"
    using set_go_range_enumerates [OF assms(4)] by simp
  moreover have "length (go_range ord (cs_SubmitListeners simu)) = card (dom (cs_SubmitListeners simu))"
    using map_fst_go_range [OF assms(4)] assms(4) by (metis distinct_card enumerates_def length_map)
  ultimately show ?thesis using assms(2,3) by (force simp: Submit_def Let_def)
qed

lemma ListenSubmit_undeployed:
  "cc_contracts c (ch_address h) = None \<Longrightarrow> ListenSubmit ch h c = Inl NilDereference"
  by (simp add: ListenSubmit_def)

lemma Deploy_ListenSubmit:
  assumes "Deploy t h c = (r, h', c')"
  shows "\<exists>c''. ListenSubmit ch h' c' = Inr c'' \<and> cc_contracts c'' (ch_address h')
    = Some \<lparr>cs_DeployInfo = r, cs_SubmitListeners = [ch_id h' \<mapsto> ch]\<rparr>"
  using assms by (auto simp: Deploy_def ListenSubmit_def NewCalcContractSimulator_def Let_def)

end
