(* ===== verification/Task_Scheduler.thy ===== *)
theory Task_Scheduler
  imports Common_Defs "HOL-Library.Multiset"
begin

text \<open>
  \<open>src/src/master/task.go\<close> and \<open>scheduler.go\<close>: tasks made of sub-tasks with in-degrees, and the
  scheduler loop. \<open>SubTasks []*SubTask\<close> is a list of records (the pointers of a task are non-nil and
  distinct); the map \<open>Scheduler.Tasks\<close> is \<open>None\<close> while it is nil.
\<close>

subsection \<open>\<open>task.go\<close>\<close>

record sub_task =
  st_ID :: task_id
  st_Code :: "u8 list"
  st_PreTasks :: "u32 list"
  st_PostTasks :: "u32 list"
  st_InDeg :: u32
  st_UnitTaskCnt :: u32
  st_MinAnswerCnt :: u32
  st_FileInfo :: "task_file_meta_info option"
  st_ExecuteInfo :: "task_execute_info option"

definition NewSubTask :: "task_id \<Rightarrow> u8 list \<Rightarrow> u32 list \<Rightarrow> u32 list \<Rightarrow> u32 \<Rightarrow> u32 \<Rightarrow> u32
    \<Rightarrow> task_file_meta_info option \<Rightarrow> task_execute_info option \<Rightarrow> sub_task" where
  "NewSubTask i code preTasks postTasks inDeg unitTaskCnt minAnswerCnt fileInfo executeInfo =
     \<lparr>st_ID = i, st_Code = code, st_PreTasks = preTasks, st_PostTasks = postTasks, st_InDeg = inDeg,
      st_UnitTaskCnt = unitTaskCnt, st_MinAnswerCnt = minAnswerCnt, st_FileInfo = fileInfo,
      st_ExecuteInfo = executeInfo\<rparr>"

record task =
  tk_Id :: u64
  tk_FinishCnt :: u32
  tk_SubTasks :: "sub_task list"

definition NewTask :: task where
  "NewTask = \<lparr>tk_Id = 0, tk_FinishCnt = 0, tk_SubTasks = []\<rparr>"

subsection \<open>\<open>scheduler.go\<close>\<close>

datatype st_result_code = STOK | STERR

record sub_task_result =
  sr_TaskId :: u64
  sr_SubtaskId :: u32
  sr_Code :: st_result_code
  sr_Info :: go_string

record scheduler =
  sc_Tasks :: "(u64 \<rightharpoonup> task) option"
  sc_TaskId :: u64

definition NewScheduler :: "u64 \<Rightarrow> scheduler" where
  "NewScheduler stTaskId = \<lparr>sc_Tasks = None, sc_TaskId = stTaskId\<rparr>"

definition dec_in_deg :: "u32 \<Rightarrow> sub_task list \<Rightarrow> sub_task list go" where
  "dec_in_deg taskId sts = and_then (go_index sts (unat taskId)) (\<lambda>st.
     Inr (sts[unat taskId := st\<lparr>st_InDeg := st_InDeg st - 1\<rparr>]))"

definition Schedule :: "task \<Rightarrow> sub_task option \<Rightarrow> (bool \<times> task) go" where
  "Schedule task finishTask = (case finishTask of
       None \<Rightarrow> Inr (False, task)
     | Some f \<Rightarrow> and_then (go_fold dec_in_deg (st_PostTasks f) (tk_SubTasks task)) (\<lambda>sts.
         let task' = task\<lparr>tk_SubTasks := sts, tk_FinishCnt := tk_FinishCnt task + 1\<rparr>
         in Inr (tk_FinishCnt task' = word_of_nat (length (tk_SubTasks task')), task')))"

datatype sched_event = SchedTask task | SchedResult sub_task_result

text \<open>One turn of \<open>Run\<close>. \<open>InitalizeTask\<close> and \<open>FinalizeTask\<close> change nothing.\<close>

fun sched_step :: "sched_event \<Rightarrow> scheduler \<Rightarrow> scheduler go" where
  "sched_step (SchedTask newTask) sch = (case sc_Tasks sch of
       None \<Rightarrow> Inl NilMapWrite
     | Some m \<Rightarrow>
         let t = newTask\<lparr>tk_Id := sc_TaskId sch\<rparr> in
         and_then (Schedule t None) (\<lambda>(_, t').
           Inr \<lparr>sc_Tasks = Some (m(sc_TaskId sch \<mapsto> t')), sc_TaskId = sc_TaskId sch + 1\<rparr>))"
| "sched_step (SchedResult r) sch =
     (if sr_Code r = STOK then
        and_then (go_deref (Option.bind (sc_Tasks sch) (\<lambda>m. m (sr_TaskId r)))) (\<lambda>t.
        and_then (go_index (tk_SubTasks t) (unat (sr_SubtaskId r))) (\<lambda>f.
        and_then (Schedule t (Some f)) (\<lambda>(fin, t').
          Inr (sch\<lparr>sc_Tasks := map_option (\<lambda>m. m(sr_TaskId r \<mapsto> t')) (sc_Tasks sch)\<rparr>))))
      else Inr sch)"

subsection \<open>In-degrees\<close>

text \<open>How often sub-task \<open>i\<close> is named by the post-tasks of the finished sub-tasks.\<close>

definition posts_of :: "sub_task list \<Rightarrow> u32 list \<Rightarrow> u32 list" where
  "posts_of sts ps = concat (map (\<lambda>p. st_PostTasks (sts ! unat p)) ps)"

definition well_linked :: "sub_task list \<Rightarrow> bool" where
  "well_linked sts \<longleftrightarrow> (\<forall>st \<in> set sts. \<forall>i \<in> set (st_PostTasks st). unat i < length sts)"

definition lower :: "u32 list \<Rightarrow> sub_task list \<Rightarrow> sub_task list" where
  "lower qs sts = map (\<lambda>i. let st = sts ! i in
     st\<lparr>st_InDeg := st_InDeg st - word_of_nat (length (filter (\<lambda>q. unat q = i) qs))\<rparr>) [0..<length sts]"

lemma length_lower [simp]: "length (lower qs sts) = length sts"
  by (simp add: lower_def)

lemma lower_nth:
  "i < length sts \<Longrightarrow> lower qs sts ! i = (sts ! i)\<lparr>st_InDeg := st_InDeg (sts ! i)
     - word_of_nat (length (filter (\<lambda>q. unat q = i) qs))\<rparr>"
  by (simp add: lower_def Let_def)

lemma lower_Nil [simp]: "lower [] sts = sts"
  by (rule nth_equalityI) (simp_all add: lower_nth)

lemma lower_lower [simp]: "lower qs (lower ps sts) = lower (ps @ qs) sts"
  by (rule nth_equalityI) (simp_all add: lower_nth)

lemma lower_PostTasks [simp]: "i < length sts \<Longrightarrow> st_PostTasks (lower qs sts ! i) = st_PostTasks (sts ! i)"
  by (simp add: lower_nth)

lemma dec_in_deg_eq: "unat q < length sts \<Longrightarrow> dec_in_deg q sts = Inr (lower [q] sts)"
  by (auto simp: dec_in_deg_def lower_nth nth_list_update intro!: nth_equalityI)

lemma dec_all_eq:
  "\<forall>q \<in> set qs. unat q < length sts \<Longrightarrow> go_fold dec_in_deg qs sts = Inr (lower qs sts)"
proof (induction qs arbitrary: sts)
  case (Cons q qs)
  then show ?case using Cons.IH [of "lower [q] sts"] by (simp add: dec_in_deg_eq)
qed simp

lemma well_linked_lower: "well_linked sts \<Longrightarrow> well_linked (lower qs sts)"
  unfolding well_linked_def by (metis in_set_conv_nth length_lower lower_PostTasks)

lemma posts_of_lower [simp]:
  "\<forall>p \<in> set ps. unat p < length sts \<Longrightarrow> posts_of (lower qs sts) ps = posts_of sts ps"
  by (simp add: posts_of_def cong: map_cong)

subsection \<open>A task runs to its end\<close>

text \<open>The results \<open>STOK\<close> of the sub-tasks \<open>ps\<close> of one task, as \<open>Run\<close> schedules them.\<close>

fun schedule_all :: "u32 list \<Rightarrow> task \<Rightarrow> (bool list \<times> task) go" where
  "schedule_all [] t = Inr ([], t)"
| "schedule_all (p # ps) t =
     and_then (go_index (tk_SubTasks t) (unat p)) (\<lambda>f.
     and_then (Schedule t (Some f)) (\<lambda>(fin, t').
     and_then (schedule_all ps t') (\<lambda>(fins, t''). Inr (fin # fins, t''))))"

lemma Schedule_finish:
  assumes "well_linked (tk_SubTasks t)" and "unat p < length (tk_SubTasks t)"
  shows "Schedule t (Some (tk_SubTasks t ! unat p)) =
    Inr (tk_FinishCnt t + 1 = word_of_nat (length (tk_SubTasks t)),
         t\<lparr>tk_SubTasks := lower (posts_of (tk_SubTasks t) [p]) (tk_SubTasks t), tk_FinishCnt := tk_FinishCnt t + 1\<rparr>)"
proof -
  have "tk_SubTasks t ! unat p \<in> set (tk_SubTasks t)" using assms(2) by simp
  then have "\<forall>q \<in> set (st_PostTasks (tk_SubTasks t ! unat p)). unat q < length (tk_SubTasks t)"
    using assms(1) by (simp add: well_linked_def)
  from dec_all_eq [OF this] show ?thesis by (simp add: Schedule_def posts_of_def Let_def)
qed

lemma schedule_all_eq:
  assumes "well_linked (tk_SubTasks t)" and "\<forall>p \<in> set ps. unat p < length (tk_SubTasks t)"
  shows "schedule_all ps t =
    Inr (map (\<lambda>k. tk_FinishCnt t + word_of_nat (Suc k) = word_of_nat (length (tk_SubTasks t))) [0..<length ps],
         t\<lparr>tk_SubTasks := lower (posts_of (tk_SubTasks t) ps) (tk_SubTasks t),
           tk_FinishCnt := tk_FinishCnt t + word_of_nat (length ps)\<rparr>)"
  using assms
proof (induction ps arbitrary: t)
  case Nil
  then show ?case by (simp add: posts_of_def)
next
  case (Cons p ps)
  let ?t = "t\<lparr>tk_SubTasks := lower (posts_of (tk_SubTasks t) [p]) (tk_SubTasks t), tk_FinishCnt := tk_FinishCnt t + 1\<rparr>"
  have IH: "schedule_all ps ?t =
    Inr (map (\<lambda>k. tk_FinishCnt t + 1 + word_of_nat (Suc k) = word_of_nat (length (tk_SubTasks t))) [0..<length ps],
         ?t\<lparr>tk_SubTasks := lower (posts_of (tk_SubTasks t) (p # ps)) (tk_SubTasks t),
           tk_FinishCnt := tk_FinishCnt t + 1 + word_of_nat (length ps)\<rparr>)"
    using Cons.IH [of ?t] Cons.prems by (simp add: well_linked_lower) (simp add: posts_of_def)
  have up: "[0..<length (p # ps)] = 0 # map Suc [0..<length ps]"
    by (simp add: upt_conv_Cons map_Suc_upt del: upt_Suc)
  show ?case
    using Cons.prems IH Schedule_finish [OF Cons.prems(1), of p]
    unfolding up by (simp add: comp_def ac_simps)
qed

lemma posts_of_mset:
  assumes "mset (map unat ps) = mset [0..<length sts]"
  shows "mset (posts_of sts ps) = mset (concat (map st_PostTasks sts))"
proof -
  have "mset (map (\<lambda>p. st_PostTasks (sts ! unat p)) ps)
      = image_mset (\<lambda>i. st_PostTasks (sts ! i)) (mset (map unat ps))"
    by (simp add: image_mset.compositionality comp_def)
  also have "\<dots> = mset (map (\<lambda>i. st_PostTasks (sts ! i)) [0..<length sts])"
    unfolding assms by simp
  also have "map (\<lambda>i. st_PostTasks (sts ! i)) [0..<length sts] = map st_PostTasks sts"
    by (rule nth_equalityI) simp_all
  finally have "mset (map (\<lambda>p. st_PostTasks (sts ! unat p)) ps) = mset (map st_PostTasks sts)" .
  moreover have "mset (concat xss) = sum_mset (image_mset mset (mset xss))" for xss :: "u32 list list"
    by (simp add: mset_concat flip: sum_mset_sum_list mset_map)
  ultimately show ?thesis by (simp add: posts_of_def)
qed

lemma length_filter_mset: "mset xs = mset ys \<Longrightarrow> length (filter P xs) = length (filter P ys)"
  by (metis mset_filter size_mset)

lemma last_flag:
  assumes "0 < n"
  shows "map (\<lambda>k. Suc k = n) [0..<n] = replicate (n - 1) False @ [True]"
proof -
  obtain m where n: "n = Suc m" using assms by (cases n) simp_all
  have "map (\<lambda>k. Suc k = n) [0..<m] = map (\<lambda>_. False) [0..<m]" by (rule map_cong) (auto simp: n)
  then show ?thesis by (simp add: n map_replicate_const)
qed

text \<open>C35: When the \<open>n\<close> sub-tasks of a task finish, each once and in any order, exactly the last
  call of \<open>Schedule\<close> reports that the task is finished, and if every in-degree was the number of
  post-task links to the sub-task, all in-degrees are 0 at the end.\<close>
theorem schedule_finishes_with_last:
  assumes "well_linked (tk_SubTasks t)" and "tk_FinishCnt t = 0"
    and "length (tk_SubTasks t) < 2 ^ 32" and "tk_SubTasks t \<noteq> []"
    and "mset (map unat ps) = mset [0..<length (tk_SubTasks t)]"
    and "\<forall>i < length (tk_SubTasks t). st_InDeg (tk_SubTasks t ! i) = word_of_nat
          (length (filter (\<lambda>q. unat q = i) (concat (map st_PostTasks (tk_SubTasks t)))))"
  shows "\<exists>t'. schedule_all ps t = Inr (replicate (length (tk_SubTasks t) - 1) False @ [True], t')
    \<and> tk_FinishCnt t' = word_of_nat (length (tk_SubTasks t))
    \<and> (\<forall>st \<in> set (tk_SubTasks t'). st_InDeg st = 0)"
proof -
  let ?n = "length (tk_SubTasks t)"
  have n: "length ps = ?n" using assms(5) by (metis diff_zero length_map length_upt size_mset)
  have "set (map unat ps) = {0..<?n}" using assms(5) by (metis set_mset_mset set_upt)
  then have ps: "\<forall>p \<in> set ps. unat p < ?n" by auto
  have "word_of_nat (Suc k) = (word_of_nat ?n :: u32) \<longleftrightarrow> Suc k = ?n" if "k < ?n" for k
  proof
    assume "word_of_nat (Suc k) = (word_of_nat ?n :: u32)"
    then have "unat (word_of_nat (Suc k) :: u32) = unat (word_of_nat ?n :: u32)" by simp
    then show "Suc k = ?n" using that assms(3) by (simp add: unat_word_of_nat del: of_nat_Suc)
  qed simp
  then have "map (\<lambda>k. word_of_nat (Suc k) = (word_of_nat ?n :: u32)) [0..<?n]
      = map (\<lambda>k. Suc k = ?n) [0..<?n]"
    by (intro map_cong) (simp_all del: of_nat_Suc)
  also have "\<dots> = replicate (?n - 1) False @ [True]"
    using assms(4) by (intro last_flag) simp
  finally have fins: "map (\<lambda>k. tk_FinishCnt t + word_of_nat (Suc k) = word_of_nat ?n) [0..<?n]
      = replicate (?n - 1) False @ [True]"
    using assms(2) by simp
  have "length (filter (\<lambda>q. unat q = i) (posts_of (tk_SubTasks t) ps))
      = length (filter (\<lambda>q. unat q = i) (concat (map st_PostTasks (tk_SubTasks t))))" for i
    by (rule length_filter_mset) (rule posts_of_mset [OF assms(5)])
  then have "\<forall>st \<in> set (lower (posts_of (tk_SubTasks t) ps) (tk_SubTasks t)). st_InDeg st = 0"
    using assms(6) by (auto simp: in_set_conv_nth lower_nth)
  then show ?thesis
    using schedule_all_eq [OF assms(1) ps] fins n assms(2) by simp
qed

definition demo_sub_task :: "u32 list \<Rightarrow> u32 \<Rightarrow> sub_task" where
  "demo_sub_task posts deg = NewSubTask [1] [] [] posts deg 1 1 None None"

definition demo_task :: task where
  "demo_task = NewTask\<lparr>tk_SubTasks := [demo_sub_task [1, 2] 0, demo_sub_task [2] 1, demo_sub_task [] 2]\<rparr>"

lemma demo_sub_task_sel [simp]:
  "st_PostTasks (demo_sub_task ps d) = ps" "st_InDeg (demo_sub_task ps d) = d"
  by (simp_all add: demo_sub_task_def NewSubTask_def)

lemma demo_task_sel [simp]:
  "tk_SubTasks demo_task = [demo_sub_task [1, 2] 0, demo_sub_task [2] 1, demo_sub_task [] 2]"
  "tk_FinishCnt demo_task = 0"
  by (simp_all add: demo_task_def NewTask_def)

lemma all_less_3: "(\<forall>i < Suc (Suc (Suc 0)). P i) \<longleftrightarrow> P 0 \<and> P 1 \<and> P (2 :: nat)"
  by (auto simp: less_Suc_eq numeral_2_eq_2)

lemma schedule_finishes_with_last_witness:
  "\<exists>t'. schedule_all [0, 1, 2] demo_task = Inr ([False, False, True], t')
     \<and> (\<forall>st \<in> set (tk_SubTasks t'). st_InDeg st = 0)"
proof -
  have w: "well_linked (tk_SubTasks demo_task)" by (simp add: well_linked_def)
  have p: "mset (map unat [0, 1, 2 :: u32]) = mset [0..<length (tk_SubTasks demo_task)]"
    by (simp add: upt_rec)
  have "\<forall>i < length (tk_SubTasks demo_task). st_InDeg (tk_SubTasks demo_task ! i) = word_of_nat
      (length (filter (\<lambda>q. unat q = i) (concat (map st_PostTasks (tk_SubTasks demo_task)))))"
    by (simp add: all_less_3)
  from schedule_finishes_with_last [OF w _ _ _ p this]
  obtain t' where "schedule_all [0, 1, 2] demo_task = Inr (replicate (length (tk_SubTasks demo_task) - 1) False @ [True], t')"
    "\<forall>st \<in> set (tk_SubTasks t'). st_InDeg st = 0"
    by auto
  moreover have "replicate (length (tk_SubTasks demo_task) - 1) False @ [True] = [False, False, True]" by simp
  ultimately show ?thesis by metis
qed

text \<open>A scheduler made by \<open>NewScheduler\<close> panics on the first task it receives, since its map of
  tasks is never allocated, and on the first successful result.\<close>
theorem new_scheduler_panics:
  "sched_step (SchedTask t) (NewScheduler n) = Inl NilMapWrite
   \<and> (sr_Code r = STOK \<longrightarrow> sched_step (SchedResult r) (NewScheduler n) = Inl NilDereference)"
  by (simp add: NewScheduler_def)

lemma new_scheduler_panics_witness:
  "sched_step (SchedResult \<lparr>sr_TaskId = 0, sr_SubtaskId = 0, sr_Code = STOK, sr_Info = []\<rparr>) (NewScheduler 0)
     = Inl NilDereference"
  using new_scheduler_panics [of NewTask 0 "\<lparr>sr_TaskId = 0, sr_SubtaskId = 0, sr_Code = STOK, sr_Info = []\<rparr>"]
  by simp

end
