(* ===== verification/Sha1.thy ===== *)
theory Sha1
  imports Common_Defs
begin

text \<open>
  \<open>GenSHA1\<close> of \<open>src/src/common/hash.go\<close>: the SHA-1 digest of the standard library's
  \<open>crypto/sha1\<close>, written out as FIPS 180-4 states it on 32-bit words.
\<close>

definition rotl32 :: "nat \<Rightarrow> u32 \<Rightarrow> u32" where
  "rotl32 n w = push_bit n w OR drop_bit (32 - n) w"

text \<open>Padding to a multiple of 64 bytes: a one bit, zeros, and the length in bits.\<close>

definition sha1_pad :: "u8 list \<Rightarrow> u8 list" where
  "sha1_pad m = m @ [128] @ replicate ((119 - length m mod 64) mod 64) 0 @ be_bytes 8 (8 * length m)"

fun blocks :: "nat \<Rightarrow> u8 list \<Rightarrow> u8 list list" where
  "blocks 0 m = []"
| "blocks (Suc n) m = take 64 m # blocks n (drop 64 m)"

fun block_words :: "nat \<Rightarrow> u8 list \<Rightarrow> u32 list" where
  "block_words 0 b = []"
| "block_words (Suc n) b = word_of_nat (be_nat (take 4 b)) # block_words n (drop 4 b)"

text \<open>The message schedule, newest word first.\<close>

fun schedule :: "nat \<Rightarrow> u32 list \<Rightarrow> u32 list" where
  "schedule 0 ws = ws"
| "schedule (Suc n) ws =
     schedule n (rotl32 1 (ws ! 2 XOR ws ! 7 XOR ws ! 13 XOR ws ! 15) # ws)"

definition round_f :: "nat \<Rightarrow> u32 \<Rightarrow> u32 \<Rightarrow> u32 \<Rightarrow> u32" where
  "round_f t b c d =
     (if t < 20 then (b AND c) OR (NOT b AND d)
      else if t < 40 then b XOR c XOR d
      else if t < 60 then (b AND c) OR (b AND d) OR (c AND d)
      else b XOR c XOR d)"

definition round_k :: "nat \<Rightarrow> u32" where
  "round_k t = (if t < 20 then 0x5A827999 else if t < 40 then 0x6ED9EBA1
     else if t < 60 then 0x8F1BBCDC else 0xCA62C1D6)"

type_synonym sha1_state = "u32 \<times> u32 \<times> u32 \<times> u32 \<times> u32"

fun rounds :: "nat \<Rightarrow> u32 list \<Rightarrow> sha1_state \<Rightarrow> sha1_state" where
  "rounds t [] s = s"
| "rounds t (w # ws) (a, b, c, d, e) =
     (let x = rotl32 5 a + round_f t b c d + e + round_k t + w
      in rounds (Suc t) ws (x, a, rotl32 30 b, c, d))"

fun compress :: "sha1_state \<Rightarrow> u8 list \<Rightarrow> sha1_state" where
  "compress (h0, h1, h2, h3, h4) b =
     (let ws = rev (schedule 64 (rev (block_words 16 b)));
          (a', b', c', d', e') = rounds 0 ws (h0, h1, h2, h3, h4)
      in (h0 + a', h1 + b', h2 + c', h3 + d', h4 + e'))"

definition sha1_init :: sha1_state where
  "sha1_init = (0x67452301, 0xEFCDAB89, 0x98BADCFE, 0x10325476, 0xC3D2E1F0)"

fun sha1_digest :: "sha1_state \<Rightarrow> u8 list" where
  "sha1_digest (h0, h1, h2, h3, h4) = concat (map (\<lambda>h. be_bytes 4 (unat h)) [h0, h1, h2, h3, h4])"

definition GenSHA1 :: "u8 list \<Rightarrow> hash_val" where
  "GenSHA1 data = (let m = sha1_pad data
     in sha1_digest (foldl compress sha1_init (blocks (length m div 64) m)))"

lemma length_GenSHA1 [simp]: "length (GenSHA1 data) = 20"
proof -
  have "length (sha1_digest s) = 20" for s by (cases s) simp
  then show ?thesis by (simp add: GenSHA1_def Let_def)
qed

lemma bytes20_GenSHA1 [simp]: "bytes20 (GenSHA1 data)"
  by (simp add: bytes20_def)

lemma length_sha1_pad: "length (sha1_pad m) mod 64 = 0"
proof -
  define r where "r = length m mod 64"
  have "r < 64" by (simp add: r_def)
  then have "(r + ((119 - r) mod 64 + 9)) mod 64 = 0"
    by (cases "r \<le> 55") (simp_all add: mod_if [of "119 - r" 64])
  moreover have "length (sha1_pad m) = length m + ((119 - r) mod 64 + 9)"
    by (simp add: r_def sha1_pad_def)
  moreover have "(length m + k) mod 64 = (r + k) mod 64" for k
    by (simp add: r_def mod_add_left_eq)
  ultimately show ?thesis by simp
qed

end
