(* ===== verification/Master_Session.thy ===== *)
theory Master_Session
  imports Appli_Net Calc_Contract Task_Scheduler Sha1
begin

text \<open>
  \<open>src/src/master/session.go\<close>: the session that deploys the contract of a sub-task, publishes it,
  hands every worker its confound key and collects the submitted answers until the answer of every
  unit task has a strict majority. \<open>master_step\<close> is one turn of the \<open>select\<close> in \<open>run\<close>; a value that
  arrives on one of the session's channels is an event, a call on the network handler or a value
  put on \<open>terminateChan\<close> is an effect.
\<close>

datatype st_session_state = STASK_UN | STASK_DEPLOYING | STASK_RUNNING | STASK_TERMINATING
  | STASK_TERMINATED | STASK_ABORTED

datatype st_peer_state = STPEER_ACCEPT | STPEER_RUNNING | STPEER_SUBMITTED

record peer_task_info =
  pt_ConfoundKey :: "u8 list"
  pt_State :: st_peer_state
  pt_Answers :: "hash_val list"

text \<open>\<open>make([]common.HashVal, 1)\<close> is a slice that already holds one zero hash.\<close>

definition NewPeerTaskInfo :: "u8 list \<Rightarrow> st_peer_state \<Rightarrow> peer_task_info" where
  "NewPeerTaskInfo key state = \<lparr>pt_ConfoundKey = key, pt_State = state, pt_Answers = [replicate 20 0]\<rparr>"

record sub_task_session =
  ss_taskInfo :: sub_task
  ss_mid :: node_id
  ss_key :: "u8 list"
  ss_state :: st_session_state
  ss_peers :: "node_id \<rightharpoonup> peer_task_info"
  ss_answers :: "(hash_val \<rightharpoonup> u32) list"
  ss_validAnswers :: "hash_val list"
  ss_validAnswerCnt :: "u32 list"
  ss_answerCnt :: u32
  ss_contractHandler :: contract_handler
  ss_appliNetHandler :: appli_handler
  ss_peerResChan :: chan
  ss_peerAnswerChan :: chan
  ss_returned :: bool

text \<open>The two channels that the session passes on are arguments; \<open>ss_returned\<close> says that \<open>run\<close> has
  returned.\<close>

definition NewSubTaskSession :: "sub_task \<Rightarrow> node_id \<Rightarrow> contract_handler \<Rightarrow> appli_handler
    \<Rightarrow> chan \<Rightarrow> chan \<Rightarrow> sub_task_session" where
  "NewSubTaskSession taskInfo mid contractHandler appliNetHandler peerResChan peerAnswerChan =
     (let unitTaskCnt = unat (st_UnitTaskCnt taskInfo) in
      \<lparr>ss_taskInfo = taskInfo, ss_mid = mid, ss_key = replicate 20 0, ss_state = STASK_UN,
       ss_peers = Map.empty, ss_answers = replicate unitTaskCnt Map.empty,
       ss_validAnswers = replicate unitTaskCnt (replicate 20 0),
       ss_validAnswerCnt = replicate unitTaskCnt 0, ss_answerCnt = 0,
       ss_contractHandler = contractHandler, ss_appliNetHandler = appliNetHandler,
       ss_peerResChan = peerResChan, ss_peerAnswerChan = peerAnswerChan, ss_returned = False\<rparr>)"

datatype master_event =
    EvDeploy deploy_result
  | EvPeerRes listener_net_msg
  | EvPeerAnswer call_result
  | EvTerminate call_result
  | EvCtrl

datatype master_effect = MNet net_call | MTerminate call_result

subsection \<open>Starting, deploying and publishing\<close>

definition master_Start :: "sub_task_session \<Rightarrow> chain_state
    \<Rightarrow> deploy_result \<times> sub_task_session \<times> chain_state" where
  "master_Start s c =
     (let (result, ch, c') = Deploy (st_ID (ss_taskInfo s)) (ss_contractHandler s) c;
          s' = s\<lparr>ss_contractHandler := ch, ss_state := STASK_DEPLOYING,
             ss_appliNetHandler := AddListener CPROC_RES (ss_peerResChan s) (ss_appliNetHandler s)\<rparr>
      in (result, s', c'))"

definition publishTask :: "sub_task_session \<Rightarrow> (master_effect list \<times> sub_task_session) go" where
  "publishTask s =
     (let s' = s\<lparr>ss_state := STASK_RUNNING\<rparr>;
          (_, address) = GetAddress (ss_contractHandler s');
          request = NewMasterReqMsg (ss_mid s') address (st_Code (ss_taskInfo s'))
      in and_then (encode_with master_req_msg_c request) (\<lambda>data.
           Inr ([MNet (appli_Broadcast (ss_appliNetHandler s') CPROC_WAIT data)], s')))"

definition genConfoundKey :: "sub_task_session \<Rightarrow> node_id \<Rightarrow> u8 list" where
  "genConfoundKey s peerID = GenSHA1 (ss_mid s @ peerID @ ss_key s)"

definition genSign :: "sub_task_session \<Rightarrow> node_id \<Rightarrow> u8 list" where
  "genSign s peerID = []"

definition handle_deploy :: "deploy_result \<Rightarrow> sub_task_session \<times> chain_state
    \<Rightarrow> (master_effect list \<times> sub_task_session \<times> chain_state) go" where
  "handle_deploy result = (\<lambda>(s, c).
     if ss_state s = STASK_DEPLOYING then
       if dr_OK result then
         and_then (ListenSubmit (ss_peerAnswerChan s) (ss_contractHandler s) c) (\<lambda>c'.
         and_then (publishTask s) (\<lambda>(effs, s'). Inr (effs, s', c')))
       else Inr ([], s\<lparr>ss_returned := True\<rparr>, c)
     else Inr ([], s, c))"

subsection \<open>Accepting workers\<close>

definition handle_peer_res :: "listener_net_msg \<Rightarrow> sub_task_session
    \<Rightarrow> (master_effect list \<times> sub_task_session) go" where
  "handle_peer_res msg s =
     and_then (decode_with worker_res_msg_c (ln_Data msg)) (\<lambda>res.
       if wr_WorkerID res = ln_FromPeerID msg \<and> wr_MasterID res = ss_mid s
          \<and> wr_TaskID res = st_ID (ss_taskInfo s) then
         if ss_peers s (wr_WorkerID res) \<noteq> None then Inr ([], s)
         else
           (let confoundKey = genConfoundKey s (wr_WorkerID res);
                info = NewPeerTaskInfo confoundKey STPEER_ACCEPT;
                sign = genSign s (wr_WorkerID res)
            in and_then (NewTaskMetaInfo (ss_mid s) (st_ID (ss_taskInfo s)) confoundKey sign
                  (st_FileInfo (ss_taskInfo s)) (st_ExecuteInfo (ss_taskInfo s))) (\<lambda>meta.
               and_then (encode_with task_meta_info_c meta) (\<lambda>data.
                 Inr ([MNet (appli_SendTo (ss_appliNetHandler s) (wr_WorkerID res)
                         (ln_FromHandlerID msg) CPROC_META data)],
                      s\<lparr>ss_peers := (ss_peers s)(wr_WorkerID res \<mapsto> info\<lparr>pt_State := STPEER_RUNNING\<rparr>)\<rparr>))))
       else Inr ([], s))"

subsection \<open>Counting answers\<close>

definition unconfound :: "hash_val \<Rightarrow> u8 list \<Rightarrow> hash_val go" where
  "unconfound hash confoundKey =
     and_then (go_take 20 (big_Bytes (BytesToBigInt hash - BytesToBigInt confoundKey))) (\<lambda>b.
       Inr (go_copy (replicate 20 0) b))"

text \<open>The table of unit task \<open>i\<close>, its valid answer and count for one more \<open>answer\<close>.\<close>

definition tally :: "nat \<Rightarrow> hash_val \<Rightarrow> sub_task_session \<Rightarrow> sub_task_session go" where
  "tally i answer s =
     and_then (go_index (ss_answers s) i) (\<lambda>table.
       let cnt = (case table answer of Some n \<Rightarrow> n + 1 | None \<Rightarrow> 1) in
       and_then (go_store (ss_answers s) i (table(answer \<mapsto> cnt))) (\<lambda>answers.
       and_then (go_index (ss_validAnswerCnt s) i) (\<lambda>valid.
         if valid < cnt then
           and_then (go_store (ss_validAnswers s) i answer) (\<lambda>vas.
           and_then (go_store (ss_validAnswerCnt s) i cnt) (\<lambda>vcs.
             Inr (s\<lparr>ss_answers := answers, ss_validAnswers := vas, ss_validAnswerCnt := vcs\<rparr>)))
         else Inr (s\<lparr>ss_answers := answers\<rparr>))))"

definition take_answer :: "nat \<times> hash_val \<Rightarrow> peer_task_info \<times> sub_task_session
    \<Rightarrow> (peer_task_info \<times> sub_task_session) go" where
  "take_answer = (\<lambda>(i, hash) (info, s).
     and_then (unconfound hash (pt_ConfoundKey info)) (\<lambda>answer.
     and_then (tally i answer s) (\<lambda>s'.
       Inr (info\<lparr>pt_Answers := pt_Answers info @ [answer]\<rparr>, s'))))"

definition canTerminate :: "sub_task_session \<Rightarrow> bool" where
  "canTerminate s \<longleftrightarrow> list_all (\<lambda>cnt. \<not> cnt * 2 \<le> ss_answerCnt s) (ss_validAnswerCnt s)"

text \<open>The message printed on termination reads the first valid answer and count.\<close>

definition check_termination :: "sub_task_session \<Rightarrow> (master_effect list \<times> sub_task_session) go" where
  "check_termination s =
     (if st_MinAnswerCnt (ss_taskInfo s) \<le> ss_answerCnt s \<and> canTerminate s then
        and_then (go_index (ss_validAnswers s) 0) (\<lambda>_.
        and_then (go_index (ss_validAnswerCnt s) 0) (\<lambda>_.
          Inr ([MTerminate (Terminate (ss_key s) (ss_contractHandler s))], s\<lparr>ss_state := STASK_TERMINATING\<rparr>)))
      else Inr ([], s))"

definition handle_peer_answer :: "call_result \<Rightarrow> sub_task_session
    \<Rightarrow> (master_effect list \<times> sub_task_session) go" where
  "handle_peer_answer msg s = (case ss_peers s (cl_Caller msg) of
       None \<Rightarrow> Inr ([], s)
     | Some info \<Rightarrow>
         if pt_State info = STPEER_RUNNING then
           and_then (go_index (cl_Args msg) 1) (\<lambda>a.
           and_then (go_assert (as_Hashes a)) (\<lambda>ansHash.
           and_then (go_fold take_answer (enumerate 0 ansHash)
               (info\<lparr>pt_State := STPEER_SUBMITTED\<rparr>, s\<lparr>ss_answerCnt := ss_answerCnt s + 1\<rparr>)) (\<lambda>(info', s').
             check_termination (s'\<lparr>ss_peers := (ss_peers s')(cl_Caller msg \<mapsto> info')\<rparr>))))
         else Inr ([], s))"

subsection \<open>The loop\<close>

definition with_chain :: "(sub_task_session \<Rightarrow> ('e \<times> sub_task_session) go) \<Rightarrow> sub_task_session \<times> chain_state
    \<Rightarrow> ('e \<times> sub_task_session \<times> chain_state) go" where
  "with_chain f = (\<lambda>(s, c). and_then (f s) (\<lambda>(e, s'). Inr (e, s', c)))"

fun master_select :: "master_event \<Rightarrow> sub_task_session \<times> chain_state
    \<Rightarrow> (master_effect list \<times> sub_task_session \<times> chain_state) go" where
  "master_select (EvDeploy result) = handle_deploy result"
| "master_select (EvPeerRes msg) = with_chain (handle_peer_res msg)"
| "master_select (EvPeerAnswer msg) = with_chain (handle_peer_answer msg)"
| "master_select (EvTerminate _) =
     with_chain (\<lambda>s. Inr ([], s\<lparr>ss_state := STASK_TERMINATED, ss_returned := True\<rparr>))"
| "master_select EvCtrl = with_chain (\<lambda>s. Inr ([], s\<lparr>ss_returned := True\<rparr>))"

definition master_step :: "master_event \<Rightarrow> sub_task_session \<times> chain_state
    \<Rightarrow> (master_effect list \<times> sub_task_session \<times> chain_state) go" where
  "master_step ev st = (if ss_returned (fst st) then Inr ([], st) else master_select ev st)"

definition master_run :: "master_event list \<Rightarrow> sub_task_session \<times> chain_state
    \<Rightarrow> (master_effect list list \<times> sub_task_session \<times> chain_state) go" where
  "master_run evs st = go_thread master_step evs st"

subsection \<open>Ballot boxes\<close>

text \<open>What the session needs of the table, the valid answer and the count kept for a unit task:
  \<open>votes\<close> counts the ballots cast and \<open>leader\<close> has as many as any other, below \<open>capacity\<close> ballots.\<close>

locale ballot_box =
  fixes empty_box :: 'b
    and cast :: "'a \<Rightarrow> 'b \<Rightarrow> 'b"
    and votes :: "'b \<Rightarrow> 'a \<Rightarrow> nat"
    and leader :: "'b \<Rightarrow> 'a"
    and sound :: "'b \<Rightarrow> bool"
    and capacity :: nat
  assumes sound_empty: "sound empty_box"
    and sound_cast: "sound b \<Longrightarrow> Suc (votes b a) < capacity \<Longrightarrow> sound (cast a b)"
    and votes_empty: "votes empty_box a = 0"
    and votes_cast: "sound b \<Longrightarrow> Suc (votes b a) < capacity
      \<Longrightarrow> votes (cast a b) x = votes b x + (if x = a then 1 else 0)"
    and leader_max: "sound b \<Longrightarrow> votes b x \<le> votes b (leader b)"
begin

lemma cast_all:
  "length xs < capacity \<Longrightarrow> sound (fold cast xs empty_box) \<and> votes (fold cast xs empty_box) x = count_list xs x"
proof (induction xs arbitrary: x rule: rev_induct)
  case Nil
  then show ?case by (simp add: sound_empty votes_empty)
next
  case (snoc a xs)
  have IH: "sound (fold cast xs empty_box)" "votes (fold cast xs empty_box) y = count_list xs y" for y
    using snoc.IH snoc.prems by auto
  have "Suc (votes (fold cast xs empty_box) a) < capacity"
    using IH(2) [of a] count_le_length [of xs a] snoc.prems by simp
  then show ?case using sound_cast votes_cast IH by simp
qed

lemma leader_plurality:
  "length xs < capacity \<Longrightarrow> count_list xs x \<le> count_list xs (leader (fold cast xs empty_box))"
  using cast_all leader_max by metis

lemma majority_leads:
  assumes "length xs < capacity" and "length xs < 2 * count_list xs a"
  shows "leader (fold cast xs empty_box) = a"
proof (rule ccontr)
  let ?l = "leader (fold cast xs empty_box)"
  assume ne: "?l \<noteq> a"
  have "count_list xs a \<le> count_list xs ?l" using leader_plurality assms(1) by blast
  moreover have "count_list ys a + count_list ys y \<le> length ys" if "y \<noteq> a" for ys y
    using that by (induction ys) auto
  from this [OF ne] have "count_list xs a + count_list xs ?l \<le> length xs" .
  ultimately show False using assms(2) by simp
qed

end

text \<open>The box of the code: the table of the unit task, its valid answer and its count.\<close>

type_synonym cell = "(hash_val \<rightharpoonup> u32) \<times> hash_val \<times> u32"

definition empty_cell :: cell where "empty_cell = (Map.empty, replicate 20 0, 0)"

fun cast_vote :: "hash_val \<Rightarrow> cell \<Rightarrow> cell" where
  "cast_vote a (table, va, vc) =
     (let cnt = (case table a of Some n \<Rightarrow> n + 1 | None \<Rightarrow> 1)
      in (table(a \<mapsto> cnt), if vc < cnt then a else va, if vc < cnt then cnt else vc))"

fun cell_votes :: "cell \<Rightarrow> hash_val \<Rightarrow> nat" where
  "cell_votes (table, va, vc) a = (case table a of Some n \<Rightarrow> unat n | None \<Rightarrow> 0)"

fun cell_leader :: "cell \<Rightarrow> hash_val" where "cell_leader (table, va, vc) = va"

fun cell_count :: "cell \<Rightarrow> u32" where "cell_count (table, va, vc) = vc"

definition cell_sound :: "cell \<Rightarrow> bool" where
  "cell_sound b \<longleftrightarrow> unat (cell_count b) = cell_votes b (cell_leader b)
     \<and> (\<forall>x. cell_votes b x \<le> unat (cell_count b))"

lemma unat_Suc32: "Suc (unat (n :: u32)) < 2 ^ 32 \<Longrightarrow> unat (n + 1) = Suc (unat n)"
  by (simp add: unat_plus_if')

lemma cast_vote_cnt:
  assumes "Suc (cell_votes (table, va, vc) a) < 2 ^ 32"
  shows "unat (case table a of Some n \<Rightarrow> n + 1 | None \<Rightarrow> 1) = Suc (cell_votes (table, va, vc) a)"
  using assms by (auto simp: unat_Suc32 split: option.splits)

lemma cell_votes_cast:
  "Suc (cell_votes b a) < 2 ^ 32 \<Longrightarrow> cell_votes (cast_vote a b) x = cell_votes b x + (if x = a then 1 else 0)"
  using cast_vote_cnt by (cases b) (auto simp: Let_def)

lemma cell_sound_cast:
  assumes "cell_sound b" and "Suc (cell_votes b a) < 2 ^ 32"
  shows "cell_sound (cast_vote a b)"
proof -
  obtain table va vc where b: "b = (table, va, vc)" by (cases b)
  let ?cnt = "case table a of Some n \<Rightarrow> n + 1 | None \<Rightarrow> 1"
  have cnt: "unat ?cnt = Suc (cell_votes b a)" using cast_vote_cnt assms(2) unfolding b by blast
  have vc: "unat vc = cell_votes b va" "\<And>x. cell_votes b x \<le> unat vc"
    using assms(1) by (auto simp: cell_sound_def b simp del: cell_votes.simps)
  have new: "cell_count (cast_vote a b) = (if vc < ?cnt then ?cnt else vc)"
    "cell_leader (cast_vote a b) = (if vc < ?cnt then a else va)"
    by (simp_all add: b Let_def)
  have lt: "vc < ?cnt \<longleftrightarrow> unat vc < Suc (cell_votes b a)" using cnt by (simp add: word_less_nat_alt)
  have le: "cell_votes b x \<le> (if vc < ?cnt then unat ?cnt else unat vc)" for x
    using vc(2) [of x] lt cnt by (auto split: if_splits)
  have up: "unat (if vc < ?cnt then ?cnt else vc) = (if vc < ?cnt then unat ?cnt else unat vc)" by simp
  show ?thesis
    unfolding cell_sound_def new cell_votes_cast [OF assms(2)] up
    using vc lt cnt le by (cases "vc < ?cnt") auto
qed

lemma cell_sound_empty: "cell_sound empty_cell"
  by (simp add: cell_sound_def empty_cell_def)

interpretation ballots: ballot_box empty_cell cast_vote cell_votes cell_leader cell_sound "2 ^ 32"
proof unfold_locales
  show "cell_votes empty_cell a = 0" for a by (simp add: empty_cell_def)
  show "cell_votes b x \<le> cell_votes b (cell_leader b)" if "cell_sound b" for b x
    using that by (metis cell_sound_def)
qed (simp_all add: cell_sound_empty cell_sound_cast cell_votes_cast)

lemma cast_all_count:
  assumes "length xs < 2 ^ 32"
  shows "unat (cell_count (fold cast_vote xs empty_cell)) = count_list xs (cell_leader (fold cast_vote xs empty_cell))"
  using ballots.cast_all [OF assms] by (simp add: cell_sound_def)

subsection \<open>The invariant of a session\<close>

definition unit_cnt :: "sub_task_session \<Rightarrow> nat" where
  "unit_cnt s = unat (st_UnitTaskCnt (ss_taskInfo s))"

definition cell_of :: "sub_task_session \<Rightarrow> nat \<Rightarrow> cell" where
  "cell_of s i = (ss_answers s ! i, ss_validAnswers s ! i, ss_validAnswerCnt s ! i)"

definition sized :: "sub_task_session \<Rightarrow> bool" where
  "sized s \<longleftrightarrow> length (ss_answers s) = unit_cnt s \<and> length (ss_validAnswers s) = unit_cnt s
     \<and> length (ss_validAnswerCnt s) = unit_cnt s"

text \<open>The answer of peer \<open>p\<close> for unit task \<open>i\<close>, behind the zero hash that every answer list starts with.\<close>

definition answer_of :: "sub_task_session \<Rightarrow> nat \<Rightarrow> node_id \<Rightarrow> hash_val option" where
  "answer_of s i p = (case ss_peers s p of
       None \<Rightarrow> None
     | Some info \<Rightarrow> if pt_State info = STPEER_SUBMITTED \<and> Suc i < length (pt_Answers info)
                    then Some (pt_Answers info ! Suc i) else None)"

definition submitted :: "sub_task_session \<Rightarrow> node_id set" where
  "submitted s = {p. \<exists>info. ss_peers s p = Some info \<and> pt_State info = STPEER_SUBMITTED}"

definition ballots_of :: "sub_task_session \<Rightarrow> nat \<Rightarrow> node_id list \<Rightarrow> hash_val list" where
  "ballots_of s i ps = List.map_filter (answer_of s i) ps"

definition peer_ok :: "nat \<Rightarrow> peer_task_info \<Rightarrow> bool" where
  "peer_ok n info \<longleftrightarrow> (\<exists>xs. pt_Answers info = replicate 20 0 # xs \<and> length xs \<le> n
     \<and> (pt_State info = STPEER_RUNNING \<and> xs = [] \<or> pt_State info = STPEER_SUBMITTED))"

definition counted :: "sub_task_session \<Rightarrow> node_id list \<Rightarrow> bool" where
  "counted s ps \<longleftrightarrow> distinct ps \<and> set ps = submitted s \<and> ss_answerCnt s = word_of_nat (length ps)
     \<and> (\<forall>i < unit_cnt s. cell_of s i = fold cast_vote (ballots_of s i ps) empty_cell)"

definition session_inv :: "sub_task_session \<Rightarrow> bool" where
  "session_inv s \<longleftrightarrow> sized s \<and> (\<forall>p info. ss_peers s p = Some info \<longrightarrow> peer_ok (unit_cnt s) info)
     \<and> (\<exists>ps. counted s ps)"

lemma session_invE:
  assumes "session_inv s"
  obtains ps where "sized s" "\<And>p info. ss_peers s p = Some info \<Longrightarrow> peer_ok (unit_cnt s) info" "counted s ps"
  using assms unfolding session_inv_def by blast

lemma NewSubTaskSession_inv: "session_inv (NewSubTaskSession t mid ch ah c1 c2)"
proof -
  have "counted (NewSubTaskSession t mid ch ah c1 c2) []"
    by (simp add: counted_def submitted_def NewSubTaskSession_def cell_of_def unit_cnt_def
        ballots_of_def List.map_filter_simps empty_cell_def Let_def)
  then show ?thesis
    by (auto simp: session_inv_def sized_def NewSubTaskSession_def unit_cnt_def Let_def)
qed

text \<open>Fields outside the count do not matter.\<close>

lemma session_inv_frame:
  assumes "ss_taskInfo s' = ss_taskInfo s" "ss_peers s' = ss_peers s" "ss_answers s' = ss_answers s"
    "ss_validAnswers s' = ss_validAnswers s" "ss_validAnswerCnt s' = ss_validAnswerCnt s"
    "ss_answerCnt s' = ss_answerCnt s"
  shows "session_inv s' \<longleftrightarrow> session_inv s" "counted s' ps \<longleftrightarrow> counted s ps" "submitted s' = submitted s"
    "answer_of s' = answer_of s" "unit_cnt s' = unit_cnt s"
proof -
  have *: "unit_cnt s' = unit_cnt s" "sized s' = sized s" "answer_of s' = answer_of s" "cell_of s' = cell_of s"
    "submitted s' = submitted s"
    using assms by (auto simp: unit_cnt_def sized_def answer_of_def cell_of_def submitted_def fun_eq_iff)
  have b: "ballots_of s' = ballots_of s" by (intro ext) (simp add: ballots_of_def *)
  show "counted s' ps \<longleftrightarrow> counted s ps" for ps using * b assms(6) by (simp add: counted_def)
  then show "session_inv s' \<longleftrightarrow> session_inv s" using * assms(2) by (simp add: session_inv_def)
qed (use assms in \<open>auto simp: unit_cnt_def answer_of_def submitted_def fun_eq_iff\<close>)

lemma session_inv_updates [simp]:
  "session_inv (s\<lparr>ss_state := x\<rparr>) = session_inv s"
  "session_inv (s\<lparr>ss_returned := b\<rparr>) = session_inv s"
  "session_inv (s\<lparr>ss_state := x, ss_returned := b\<rparr>) = session_inv s"
  by (rule session_inv_frame(1); simp)+

lemma tally_spec:
  assumes "tally i a s = Inr s'" and "sized s"
  shows "i < unit_cnt s" and "sized s'" and "cell_of s' j = (if j = i then cast_vote a (cell_of s i) else cell_of s j)"
    and "s' = s\<lparr>ss_answers := ss_answers s', ss_validAnswers := ss_validAnswers s',
           ss_validAnswerCnt := ss_validAnswerCnt s'\<rparr>"
proof -
  let ?t = "ss_answers s ! i"
  let ?cnt = "case ?t a of Some n \<Rightarrow> n + 1 | None \<Rightarrow> 1"
  show i: "i < unit_cnt s"
    using assms by (auto simp: tally_def sized_def and_then_Inr_iff dest: go_index_InrD)
  have s': "s' = s\<lparr>ss_answers := (ss_answers s)[i := ?t(a \<mapsto> ?cnt)],
      ss_validAnswers := if ss_validAnswerCnt s ! i < ?cnt then (ss_validAnswers s)[i := a] else ss_validAnswers s,
      ss_validAnswerCnt := if ss_validAnswerCnt s ! i < ?cnt then (ss_validAnswerCnt s)[i := ?cnt] else ss_validAnswerCnt s\<rparr>"
  proof (cases "ss_validAnswerCnt s ! i < ?cnt")
    case True
    then show ?thesis using assms i by (simp add: tally_def sized_def Let_def)
  next
    case False
    then have "s' = s\<lparr>ss_answers := (ss_answers s)[i := ?t(a \<mapsto> ?cnt)]\<rparr>"
      using assms i by (simp add: tally_def sized_def Let_def)
    then show ?thesis using False by simp
  qed
  show "sized s'" using assms(2) by (simp add: s' sized_def unit_cnt_def)
  show "cell_of s' j = (if j = i then cast_vote a (cell_of s i) else cell_of s j)"
    using i assms(2) by (simp add: s' cell_of_def sized_def Let_def)
  show "s' = s\<lparr>ss_answers := ss_answers s', ss_validAnswers := ss_validAnswers s',
           ss_validAnswerCnt := ss_validAnswerCnt s'\<rparr>"
    by (simp add: s')
qed

lemma take_answers_spec:
  assumes "go_fold take_answer (enumerate k hs) (info, s) = Inr (info', s')" and "sized s"
  shows "\<exists>as. list_all2 (\<lambda>h a. unconfound h (pt_ConfoundKey info) = Inr a) hs as
    \<and> info' = info\<lparr>pt_Answers := pt_Answers info @ as\<rparr> \<and> sized s' \<and> (hs \<noteq> [] \<longrightarrow> k + length hs \<le> unit_cnt s)
    \<and> (\<forall>i. cell_of s' i = (if k \<le> i \<and> i < k + length as then cast_vote (as ! (i - k)) (cell_of s i) else cell_of s i))
    \<and> s' = s\<lparr>ss_answers := ss_answers s', ss_validAnswers := ss_validAnswers s', ss_validAnswerCnt := ss_validAnswerCnt s'\<rparr>"
  using assms
proof (induction hs arbitrary: k info s)
  case Nil
  then show ?case by (auto intro!: exI [of _ "[]"])
next
  case (Cons h hs)
  obtain a s1 where a: "unconfound h (pt_ConfoundKey info) = Inr a" and s1: "tally k a s = Inr s1"
    and rest: "go_fold take_answer (enumerate (Suc k) hs) (info\<lparr>pt_Answers := pt_Answers info @ [a]\<rparr>, s1) = Inr (info', s')"
    using Cons.prems(1) by (auto simp: take_answer_def and_then_Inr_iff)
  note t = tally_spec [OF s1 Cons.prems(2)]
  have u: "unit_cnt s1 = unit_cnt s" unfolding unit_cnt_def by (subst t(4)) simp
  from Cons.IH [OF rest t(2)] obtain as where as:
    "list_all2 (\<lambda>h a. unconfound h (pt_ConfoundKey info) = Inr a) hs as"
    "info' = info\<lparr>pt_Answers := (pt_Answers info @ [a]) @ as\<rparr>" "sized s'"
    "hs \<noteq> [] \<longrightarrow> Suc k + length hs \<le> unit_cnt s"
    "\<forall>i. cell_of s' i = (if Suc k \<le> i \<and> i < Suc k + length as then cast_vote (as ! (i - Suc k)) (cell_of s1 i) else cell_of s1 i)"
    "s' = s1\<lparr>ss_answers := ss_answers s', ss_validAnswers := ss_validAnswers s', ss_validAnswerCnt := ss_validAnswerCnt s'\<rparr>"
    using u by auto
  have "s' = s\<lparr>ss_answers := ss_answers s', ss_validAnswers := ss_validAnswers s', ss_validAnswerCnt := ss_validAnswerCnt s'\<rparr>"
    by (subst as(6), subst t(4)) simp
  moreover have "cell_of s' i = (if k \<le> i \<and> i < k + length (a # as) then cast_vote ((a # as) ! (i - k)) (cell_of s i) else cell_of s i)" for i
    using as(5) t(3) [of i] by (auto simp: nth_Cons' Suc_le_eq)
  moreover have "k + length (h # hs) \<le> unit_cnt s"
    using as(4) t(1) by (cases "hs = []") auto
  ultimately show ?case using a as(1-3) by (intro exI [of _ "a # as"]) simp
qed

lemma map_filter_append: "List.map_filter f (xs @ ys) = List.map_filter f xs @ List.map_filter f ys"
  by (simp add: List.map_filter_def)

text \<open>A new worker in state \<open>STPEER_RUNNING\<close> changes no count.\<close>

lemma session_inv_accept:
  assumes "session_inv s" and "ss_peers s p = None"
  shows "session_inv (s\<lparr>ss_peers := (ss_peers s)(p \<mapsto> (NewPeerTaskInfo key STPEER_ACCEPT)\<lparr>pt_State := STPEER_RUNNING\<rparr>)\<rparr>)"
    (is "session_inv ?s")
proof -
  obtain ps where ps: "sized s" "\<And>p info. ss_peers s p = Some info \<Longrightarrow> peer_ok (unit_cnt s) info" "counted s ps"
    using assms(1) unfolding session_inv_def by blast
  have sub: "submitted ?s = submitted s" using assms(2) by (auto simp: submitted_def)
  have ans: "answer_of ?s i = answer_of s i" for i
    using assms(2) by (auto simp: answer_of_def fun_eq_iff)
  have "counted ?s ps"
    using ps(3) by (simp add: counted_def sub ballots_of_def ans cell_of_def unit_cnt_def)
  moreover have "peer_ok (unit_cnt ?s) info" if "ss_peers ?s q = Some info" for q info
    using that ps(2) [of q] by (auto simp: unit_cnt_def peer_ok_def NewPeerTaskInfo_def split: if_splits)
  ultimately show ?thesis using ps(1) by (auto simp: session_inv_def sized_def unit_cnt_def)
qed

text \<open>One submission, up to the check for termination.\<close>

definition submission :: "call_result \<Rightarrow> sub_task_session \<Rightarrow> sub_task_session go" where
  "submission msg s =
     and_then (go_deref (ss_peers s (cl_Caller msg))) (\<lambda>info.
     and_then (go_index (cl_Args msg) 1) (\<lambda>a.
     and_then (go_assert (as_Hashes a)) (\<lambda>ansHash.
     and_then (go_fold take_answer (enumerate 0 ansHash)
        (info\<lparr>pt_State := STPEER_SUBMITTED\<rparr>, s\<lparr>ss_answerCnt := ss_answerCnt s + 1\<rparr>)) (\<lambda>(info', s').
       Inr (s'\<lparr>ss_peers := (ss_peers s')(cl_Caller msg \<mapsto> info')\<rparr>)))))"

definition is_running :: "sub_task_session \<Rightarrow> node_id \<Rightarrow> bool" where
  "is_running s p = (case ss_peers s p of None \<Rightarrow> False | Some info \<Rightarrow> pt_State info = STPEER_RUNNING)"

lemma handle_peer_answer_eq:
  "handle_peer_answer msg s = (if is_running s (cl_Caller msg)
     then and_then (submission msg s) check_termination else Inr ([], s))"
  by (auto simp: handle_peer_answer_def is_running_def submission_def split: option.splits prod.splits
      intro!: and_then_cong)

lemma submission_spec:
  assumes "session_inv s" and "is_running s (cl_Caller msg)" and "submission msg s = Inr s'"
  obtains info hs as where "ss_peers s (cl_Caller msg) = Some info" "cl_Args msg ! 1 = ArgHashes hs"
    "list_all2 (\<lambda>h a. unconfound h (pt_ConfoundKey info) = Inr a) hs as"
    "ss_peers s' = (ss_peers s)(cl_Caller msg \<mapsto> info\<lparr>pt_State := STPEER_SUBMITTED, pt_Answers := replicate 20 0 # as\<rparr>)"
    "length as \<le> unit_cnt s" "ss_answerCnt s' = ss_answerCnt s + 1" "sized s'"
    "\<And>i. cell_of s' i = (if i < length as then cast_vote (as ! i) (cell_of s i) else cell_of s i)"
    "s' = s\<lparr>ss_peers := ss_peers s', ss_answerCnt := ss_answerCnt s', ss_answers := ss_answers s',
       ss_validAnswers := ss_validAnswers s', ss_validAnswerCnt := ss_validAnswerCnt s'\<rparr>"
proof -
  let ?p = "cl_Caller msg"
  let ?s0 = "s\<lparr>ss_answerCnt := ss_answerCnt s + 1\<rparr>"
  obtain info a hs info' s1 where info: "ss_peers s ?p = Some info" and a: "go_index (cl_Args msg) 1 = Inr a"
    and hs: "as_Hashes a = Some hs"
    and fold: "go_fold take_answer (enumerate 0 hs) (info\<lparr>pt_State := STPEER_SUBMITTED\<rparr>, ?s0) = Inr (info', s1)"
    and s': "s' = s1\<lparr>ss_peers := (ss_peers s1)(?p \<mapsto> info')\<rparr>"
    using assms(3)
    by (auto simp: submission_def and_then_Inr_iff dest!: go_deref_InrD go_assert_InrD split: prod.splits)
  have ok: "peer_ok (unit_cnt s) info" "sized s" using assms(1) info by (auto simp: session_inv_def)
  have run: "pt_State info = STPEER_RUNNING" using assms(2) info by (simp add: is_running_def)
  have ans: "pt_Answers info = [replicate 20 0]" using ok(1) run by (auto simp: peer_ok_def)
  have u: "unit_cnt ?s0 = unit_cnt s" by (simp add: unit_cnt_def)
  have "sized ?s0" using ok(2) by (simp add: sized_def u)
  from take_answers_spec [OF fold this] obtain as where as:
    "list_all2 (\<lambda>h a. unconfound h (pt_ConfoundKey info) = Inr a) hs as"
    "info' = info\<lparr>pt_State := STPEER_SUBMITTED, pt_Answers := pt_Answers info @ as\<rparr>" "sized s1"
    "hs \<noteq> [] \<longrightarrow> length hs \<le> unit_cnt s"
    "\<And>i. cell_of s1 i = (if i < length as then cast_vote (as ! i) (cell_of ?s0 i) else cell_of ?s0 i)"
    "s1 = ?s0\<lparr>ss_answers := ss_answers s1, ss_validAnswers := ss_validAnswers s1, ss_validAnswerCnt := ss_validAnswerCnt s1\<rparr>"
    using u by auto
  have peers1: "ss_peers s1 = ss_peers s" "ss_answerCnt s1 = ss_answerCnt s + 1" "unit_cnt s1 = unit_cnt s"
    unfolding unit_cnt_def by (subst as(6), simp)+
  have hd_a: "cl_Args msg ! 1 = ArgHashes hs" using a hs by (cases a) (auto dest: go_index_InrD)
  have len: "length as \<le> unit_cnt s" using as(1,4) list_all2_lengthD by (cases "hs = []") force+
  show thesis
  proof (rule that [OF info hd_a as(1)])
    show "ss_peers s' = (ss_peers s)(?p \<mapsto> info\<lparr>pt_State := STPEER_SUBMITTED, pt_Answers := replicate 20 0 # as\<rparr>)"
      by (simp add: s' peers1 as(2) ans)
    show "sized s'" using as(3) peers1(3) by (simp add: s' sized_def unit_cnt_def)
    show "cell_of s' i = (if i < length as then cast_vote (as ! i) (cell_of s i) else cell_of s i)" for i
      using as(5) [of i] by (simp add: s' cell_of_def)
    show "s' = s\<lparr>ss_peers := ss_peers s', ss_answerCnt := ss_answerCnt s', ss_answers := ss_answers s',
       ss_validAnswers := ss_validAnswers s', ss_validAnswerCnt := ss_validAnswerCnt s'\<rparr>"
      unfolding s' by (subst as(6)) (simp add: peers1)
    show "ss_answerCnt s' = ss_answerCnt s + 1" by (simp add: s' peers1)
  qed (rule len)
qed

lemma counted_submission:
  assumes "session_inv s" and "is_running s (cl_Caller msg)" and "submission msg s = Inr s'" and "counted s ps"
  shows "counted s' (ps @ [cl_Caller msg])" and "session_inv s'"
proof -
  let ?p = "cl_Caller msg"
  obtain info hs as where sp: "ss_peers s ?p = Some info"
    "ss_peers s' = (ss_peers s)(?p \<mapsto> info\<lparr>pt_State := STPEER_SUBMITTED, pt_Answers := replicate 20 0 # as\<rparr>)"
    "length as \<le> unit_cnt s" "ss_answerCnt s' = ss_answerCnt s + 1" "sized s'"
    "\<And>i. cell_of s' i = (if i < length as then cast_vote (as ! i) (cell_of s i) else cell_of s i)"
    "s' = s\<lparr>ss_peers := ss_peers s', ss_answerCnt := ss_answerCnt s', ss_answers := ss_answers s',
       ss_validAnswers := ss_validAnswers s', ss_validAnswerCnt := ss_validAnswerCnt s'\<rparr>"
    by (rule submission_spec [OF assms(1-3)]) blast
  have u: "unit_cnt s' = unit_cnt s" unfolding unit_cnt_def by (subst sp(7)) simp
  have run: "pt_State info = STPEER_RUNNING" using assms(2) sp(1) by (simp add: is_running_def)
  have notin: "?p \<notin> set ps" using assms(4) sp(1) run by (auto simp: counted_def submitted_def)
  have same: "answer_of s' i q = answer_of s i q" if "q \<noteq> ?p" for i q
    using that by (simp add: answer_of_def sp(2))
  have new: "answer_of s' i ?p = (if i < length as then Some (as ! i) else None)" for i
    by (simp add: answer_of_def sp(2))
  have old: "List.map_filter (answer_of s' i) qs = List.map_filter (answer_of s i) qs" if "?p \<notin> set qs" for i qs
    using that same by (induction qs) (auto simp: List.map_filter_simps split: option.splits)
  have b: "ballots_of s' i (ps @ [?p]) = ballots_of s i ps @ (if i < length as then [as ! i] else [])" for i
    by (simp add: ballots_of_def map_filter_append old [OF notin] new List.map_filter_simps)
  have sub: "submitted s' = insert ?p (submitted s)" by (auto simp: submitted_def sp(2))
  show c: "counted s' (ps @ [?p])"
    using assms(4) notin sp(4,6) by (simp add: counted_def sub b u)
  have "peer_ok (unit_cnt s) i" if "ss_peers s' q = Some i" for q i
    using that assms(1) sp(2,3) by (auto simp: session_inv_def peer_ok_def split: if_splits)
  then show "session_inv s'" using c sp(5) by (auto simp: session_inv_def u)
qed

lemma check_termination_spec:
  assumes "check_termination s = Inr (effs, s')"
  shows "s' = s \<and> effs = [] \<or> st_MinAnswerCnt (ss_taskInfo s) \<le> ss_answerCnt s \<and> canTerminate s
    \<and> s' = s\<lparr>ss_state := STASK_TERMINATING\<rparr> \<and> effs = [MTerminate (Terminate (ss_key s) (ss_contractHandler s))]"
  using assms by (auto simp: check_termination_def and_then_Inr_iff split: if_splits)

subsection \<open>Reachable states\<close>

inductive master_reach :: "sub_task_session \<times> chain_state \<Rightarrow> sub_task_session \<times> chain_state \<Rightarrow> bool"
  for st0 where
  reach_start: "master_reach st0 st0"
| reach_step: "master_reach st0 st \<Longrightarrow> master_step ev st = Inr (effs, st') \<Longrightarrow> master_reach st0 st'"

definition started :: "sub_task \<Rightarrow> node_id \<Rightarrow> contract_handler \<Rightarrow> appli_handler \<Rightarrow> chan \<Rightarrow> chan \<Rightarrow> chain_state
    \<Rightarrow> sub_task_session \<times> chain_state" where
  "started t mid ch ah c1 c2 c = snd (master_Start (NewSubTaskSession t mid ch ah c1 c2) c)"

lemma started_inv: "session_inv (fst (started t mid ch ah c1 c2 c))"
proof -
  obtain r h c' where d: "Deploy (st_ID t) ch c = (r, h, c')" by (cases "Deploy (st_ID t) ch c")
  let ?s = "NewSubTaskSession t mid ch ah c1 c2"
  have "fst (started t mid ch ah c1 c2 c) = ?s\<lparr>ss_contractHandler := h, ss_state := STASK_DEPLOYING,
      ss_appliNetHandler := AddListener CPROC_RES c1 ah\<rparr>"
    by (simp add: started_def master_Start_def NewSubTaskSession_def d Let_def)
  then have "session_inv (fst (started t mid ch ah c1 c2 c)) = session_inv ?s"
    by (intro session_inv_frame(1)) simp_all
  then show ?thesis using NewSubTaskSession_inv by simp
qed

lemma publishTask_session: "publishTask s = Inr (effs, s') \<Longrightarrow> s' = s\<lparr>ss_state := STASK_RUNNING\<rparr>"
  by (auto simp: publishTask_def Let_def and_then_Inr_iff split: prod.splits)

lemma handle_deploy_session:
  assumes "handle_deploy r (s, c) = Inr (effs, s', c')"
  shows "s' = s \<or> s' = s\<lparr>ss_state := STASK_RUNNING\<rparr> \<or> s' = s\<lparr>ss_returned := True\<rparr>"
  using assms by (auto simp: handle_deploy_def and_then_Inr_iff split: if_splits dest: publishTask_session)

lemma handle_peer_res_session:
  assumes "handle_peer_res msg s = Inr (effs, s')"
  shows "s' = s \<or> (\<exists>p key. ss_peers s p = None
    \<and> s' = s\<lparr>ss_peers := (ss_peers s)(p \<mapsto> (NewPeerTaskInfo key STPEER_ACCEPT)\<lparr>pt_State := STPEER_RUNNING\<rparr>)\<rparr>)"
  using assms by (auto simp: handle_peer_res_def and_then_Inr_iff Let_def split: if_splits)

lemma handle_peer_answer_inv:
  assumes "session_inv s" and "handle_peer_answer msg s = Inr (effs, s')"
  shows "session_inv s'"
proof (cases "is_running s (cl_Caller msg)")
  case True
  obtain ps where "counted s ps" using assms(1) unfolding session_inv_def by blast
  moreover obtain s1 where s1: "submission msg s = Inr s1" "check_termination s1 = Inr (effs, s')"
    using assms(2) True by (auto simp: handle_peer_answer_eq and_then_Inr_iff)
  ultimately have "session_inv s1" using counted_submission(2) assms(1) True by blast
  moreover have "session_inv (s1\<lparr>ss_state := STASK_TERMINATING\<rparr>) = session_inv s1"
    by (rule session_inv_frame(1)) simp_all
  ultimately show ?thesis using check_termination_spec [OF s1(2)] by auto
qed (use assms in \<open>simp add: handle_peer_answer_eq\<close>)

lemma master_step_inv [inv_intros]:
  assumes "session_inv s" and "master_step ev (s, c) = Inr (effs, s', c')"
  shows "session_inv s'"
proof (cases "ss_returned s")
  case False
  have frame: "session_inv (s\<lparr>ss_state := x, ss_returned := b\<rparr>)" "session_inv (s\<lparr>ss_state := x\<rparr>)"
    "session_inv (s\<lparr>ss_returned := b\<rparr>)" for x b
    using assms(1) by simp_all
  have step: "master_select ev (s, c) = Inr (effs, s', c')" using assms(2) False by (simp add: master_step_def)
  show ?thesis
  proof (cases ev)
    case (EvDeploy r)
    then have "handle_deploy r (s, c) = Inr (effs, s', c')" using step by simp
    then have "s' = s \<or> s' = s\<lparr>ss_state := STASK_RUNNING\<rparr> \<or> s' = s\<lparr>ss_returned := True\<rparr>"
      by (rule handle_deploy_session)
    then show ?thesis using frame assms(1) by (elim disjE) simp_all
  next
    case (EvPeerRes msg)
    then have "handle_peer_res msg s = Inr (effs, s')"
      using step by (auto simp: with_chain_def and_then_Inr_iff)
    then show ?thesis using handle_peer_res_session session_inv_accept assms(1) by blast
  next
    case (EvPeerAnswer msg)
    then have "handle_peer_answer msg s = Inr (effs, s')"
      using step by (auto simp: with_chain_def and_then_Inr_iff)
    then show ?thesis using handle_peer_answer_inv assms(1) by blast
  qed (use step frame in \<open>auto simp: with_chain_def\<close>)
qed (use assms in \<open>simp add: master_step_def\<close>)

lemma master_reach_inv: "master_reach st0 st \<Longrightarrow> session_inv (fst st0) \<Longrightarrow> session_inv (fst st)"
proof (induction rule: master_reach.induct)
  case (reach_step st ev effs st')
  then show ?case using master_step_inv by (cases st, cases st') auto
qed

subsection \<open>What the count means\<close>

definition voters :: "sub_task_session \<Rightarrow> nat \<Rightarrow> hash_val \<Rightarrow> node_id set" where
  "voters s i a = {p. answer_of s i p = Some a}"

lemma count_map_filter:
  "distinct ps \<Longrightarrow> count_list (List.map_filter f ps) a = card {p \<in> set ps. f p = Some a}"
proof (induction ps)
  case (Cons p ps)
  have "{q \<in> set (p # ps). f q = Some a} = (if f p = Some a then insert p {q \<in> set ps. f q = Some a}
      else {q \<in> set ps. f q = Some a})"
    by auto
  then show ?case using Cons by (auto simp: List.map_filter_simps split: option.splits)
qed (simp add: List.map_filter_simps)

lemma answer_of_submitted: "answer_of s i p = Some a \<Longrightarrow> p \<in> submitted s"
  by (auto simp: answer_of_def submitted_def split: option.splits if_splits)

lemma counted_voters:
  assumes "counted s ps"
  shows "count_list (ballots_of s i ps) a = card (voters s i a)"
proof -
  have "{p \<in> set ps. answer_of s i p = Some a} = voters s i a"
    using assms answer_of_submitted by (auto simp: counted_def voters_def)
  then show ?thesis using assms count_map_filter [of ps "answer_of s i" a]
    by (simp add: ballots_of_def counted_def)
qed

lemma length_ballots: "length (ballots_of s i ps) \<le> length ps"
  by (induction ps) (auto simp: ballots_of_def List.map_filter_simps split: option.splits)

lemma counted_card: "counted s ps \<Longrightarrow> length ps = card (submitted s)"
  by (metis counted_def distinct_card)

lemma counted_cells:
  assumes "counted s ps" and "card (submitted s) < 2 ^ 32" and "i < unit_cnt s"
  shows "unat (ss_answerCnt s) = card (submitted s)"
    and "cell_votes (cell_of s i) a = card (voters s i a)"
    and "unat (ss_validAnswerCnt s ! i) = card (voters s i (ss_validAnswers s ! i))"
    and "card (voters s i a) \<le> unat (ss_validAnswerCnt s ! i)"
proof -
  let ?b = "ballots_of s i ps"
  have len: "length ?b < 2 ^ 32" using length_ballots [of s i ps] counted_card assms(1,2) by fastforce
  have cell: "cell_of s i = fold cast_vote ?b empty_cell" using assms(1,3) by (simp add: counted_def)
  have lc: "cell_leader (cell_of s i) = ss_validAnswers s ! i" "cell_count (cell_of s i) = ss_validAnswerCnt s ! i"
    by (simp_all add: cell_of_def)
  show "unat (ss_answerCnt s) = card (submitted s)"
    using assms(1,2) counted_card [OF assms(1)] by (simp add: counted_def unat_word_of_nat)
  show votes: "cell_votes (cell_of s i) a = card (voters s i a)" for a
    using ballots.cast_all [OF len] counted_voters [OF assms(1)] by (simp add: cell)
  show top: "unat (ss_validAnswerCnt s ! i) = card (voters s i (ss_validAnswers s ! i))"
    using cast_all_count [OF len] counted_voters [OF assms(1)] lc by (simp add: cell)
  show "card (voters s i a) \<le> unat (ss_validAnswerCnt s ! i)"
    using ballots.leader_plurality [OF len, of a] counted_voters [OF assms(1)] lc top by (simp add: cell)
qed

lemma reached_counted:
  assumes "master_reach (started t mid ch ah c1 c2 c0) (s, c)"
  obtains ps where "session_inv s" "counted s ps" "sized s"
proof -
  have "session_inv s" using master_reach_inv [OF assms started_inv] by simp
  then show ?thesis using that unfolding session_inv_def by blast
qed

text \<open>C8: In every state that a session reaches from its start, with fewer than \<open>2 ^ 32\<close> workers
  having submitted, the answer counter is the number of these workers, the table of each unit task
  holds for every answer exactly the number of workers who submitted it, each worker counted once,
  and the valid answer is one that no other answer beats.\<close>
theorem every_vote_counted_once:
  assumes "master_reach (started t mid ch ah c1 c2 c0) (s, c)" and "card (submitted s) < 2 ^ 32"
  shows "unat (ss_answerCnt s) = card (submitted s)
    \<and> (\<forall>i < unit_cnt s. (\<forall>a. (case (ss_answers s ! i) a of Some n \<Rightarrow> unat n | None \<Rightarrow> 0) = card (voters s i a))
        \<and> unat (ss_validAnswerCnt s ! i) = card (voters s i (ss_validAnswers s ! i))
        \<and> (\<forall>a. card (voters s i a) \<le> card (voters s i (ss_validAnswers s ! i))))"
proof -
  obtain ps where ps: "counted s ps" using reached_counted [OF assms(1)] by blast
  have card: "unat (ss_answerCnt s) = card (submitted s)"
    using ps assms(2) counted_card [OF ps] by (simp add: counted_def unat_word_of_nat)
  have "(case (ss_answers s ! i) a of Some n \<Rightarrow> unat n | None \<Rightarrow> 0) = card (voters s i a)"
    if "i < unit_cnt s" for i a
    using counted_cells(2) [OF ps assms(2) that, of a] by (simp add: cell_of_def)
  with card show ?thesis
    using counted_cells(3,4) [OF ps assms(2)] by simp
qed

lemma canTerminate_majority:
  assumes "canTerminate s" and "sized s" and "i < unit_cnt s"
    and "unat (ss_answerCnt s) < 2 ^ 31" and "unat (ss_validAnswerCnt s ! i) < 2 ^ 31"
  shows "unat (ss_answerCnt s) < 2 * unat (ss_validAnswerCnt s ! i)"
proof -
  have "unat (ss_validAnswerCnt s ! i * 2) = 2 * unat (ss_validAnswerCnt s ! i)"
    using assms(5) by (subst unat_mult_lem [THEN iffD1]) simp_all
  moreover have "\<not> ss_validAnswerCnt s ! i * 2 \<le> ss_answerCnt s"
    using assms(1-3) by (auto simp: canTerminate_def list_all_length sized_def)
  ultimately show ?thesis by (simp add: word_le_nat_alt)
qed

lemma voters_submitted: "voters s i a \<subseteq> submitted s"
  using answer_of_submitted by (auto simp: voters_def)

lemma finite_submitted: "counted s ps \<Longrightarrow> finite (submitted s)"
  by (metis List.finite_set counted_def)

lemma two_majorities:
  assumes "counted s ps" and "card (submitted s) < 2 * card (voters s i a)"
    and "card (submitted s) < 2 * card (voters s i b)"
  shows "a = b"
proof (rule ccontr)
  assume "a \<noteq> b"
  then have dj: "voters s i a \<inter> voters s i b = {}" by (auto simp: voters_def)
  have fin: "finite (voters s i a)" "finite (voters s i b)"
    by (rule finite_subset [OF voters_submitted finite_submitted [OF assms(1)]])+
  have "card (voters s i a \<union> voters s i b) \<le> card (submitted s)"
    by (rule card_mono [OF finite_submitted [OF assms(1)]]) (intro Un_least voters_submitted)
  then show False using card_Un_disjoint [OF fin dj] assms(2,3) by simp
qed

lemma terminate_step:
  assumes "master_step ev (s, c) = Inr (effs, s', c')" and "MTerminate r \<in> set effs"
  obtains msg s1 where "ev = EvPeerAnswer msg" "is_running s (cl_Caller msg)" "submission msg s = Inr s1"
    "canTerminate s1" "st_MinAnswerCnt (ss_taskInfo s1) \<le> ss_answerCnt s1" "s' = s1\<lparr>ss_state := STASK_TERMINATING\<rparr>"
proof -
  have ne: "effs \<noteq> []" using assms(2) by auto
  have step: "master_select ev (s, c) = Inr (effs, s', c')"
    using assms(1) ne by (auto simp: master_step_def split: if_splits)
  show thesis
  proof (cases ev)
    case (EvPeerAnswer msg)
    then have h: "handle_peer_answer msg s = Inr (effs, s')"
      using step by (auto simp: with_chain_def and_then_Inr_iff)
    then obtain s1 where s1: "is_running s (cl_Caller msg)" "submission msg s = Inr s1" "check_termination s1 = Inr (effs, s')"
      using ne by (auto simp: handle_peer_answer_eq and_then_Inr_iff split: if_splits)
    show thesis
      using check_termination_spec [OF s1(3)] ne s1(1,2) that EvPeerAnswer by blast
  qed (use step assms(2) in \<open>auto simp: with_chain_def handle_deploy_def publishTask_def handle_peer_res_def
      and_then_Inr_iff Let_def split: if_splits prod.splits\<close>)
qed

text \<open>C9: A session calls \<open>Terminate\<close> only in answer to a submission, and then at least
  \<open>MinAnswerCnt\<close> workers have submitted, the valid answer of every unit task was submitted by more
  than half of them, and no other answer has such a majority.\<close>
theorem terminates_only_on_majority:
  assumes "master_reach (started t mid ch ah c1 c2 c0) (s, c)"
    and "master_step ev (s, c) = Inr (effs, s', c')" and "MTerminate r \<in> set effs"
    and "card (submitted s') < 2 ^ 31"
  shows "ss_state s' = STASK_TERMINATING \<and> unat (st_MinAnswerCnt (ss_taskInfo s')) \<le> card (submitted s')
    \<and> (\<forall>i < unit_cnt s'. card (submitted s') < 2 * card (voters s' i (ss_validAnswers s' ! i))
        \<and> (\<forall>a. card (submitted s') < 2 * card (voters s' i a) \<longrightarrow> a = ss_validAnswers s' ! i))"
proof -
  obtain msg s1 where s1: "canTerminate s1" "st_MinAnswerCnt (ss_taskInfo s1) \<le> ss_answerCnt s1"
    "s' = s1\<lparr>ss_state := STASK_TERMINATING\<rparr>"
    by (rule terminate_step [OF assms(2,3)]) blast
  have reach: "master_reach (started t mid ch ah c1 c2 c0) (s', c')"
    by (rule reach_step [OF assms(1,2)])
  obtain ps where ps: "counted s' ps" "sized s'" using reached_counted [OF reach] by blast
  have small: "card (submitted s') < 2 ^ 32" using assms(4) by simp
  have ct: "canTerminate s'" using s1(1,3) by (simp add: canTerminate_def)
  have cnt: "unat (ss_answerCnt s') = card (submitted s')"
    using ps(1) small counted_card [OF ps(1)] by (simp add: counted_def unat_word_of_nat)
  have maj: "card (submitted s') < 2 * card (voters s' i (ss_validAnswers s' ! i))" if i: "i < unit_cnt s'" for i
  proof -
    have v: "unat (ss_validAnswerCnt s' ! i) = card (voters s' i (ss_validAnswers s' ! i))"
      using counted_cells(3) [OF ps(1) small i] .
    have "card (voters s' i (ss_validAnswers s' ! i)) \<le> card (submitted s')"
      by (rule card_mono [OF finite_submitted [OF ps(1)] voters_submitted])
    then show ?thesis using canTerminate_majority [OF ct ps(2) i] v cnt assms(4) by simp
  qed
  have "unat (st_MinAnswerCnt (ss_taskInfo s')) \<le> card (submitted s')"
    using s1(2,3) cnt by (simp add: word_le_nat_alt)
  then show ?thesis using s1(3) maj two_majorities [OF ps(1)] by simp
qed

subsection \<open>Progress\<close>

lemma tally_total:
  assumes "sized s" and "i < unit_cnt s"
  shows "\<exists>s'. tally i a s = Inr s'"
  using assms by (simp add: tally_def sized_def Let_def)

lemma take_answers_total:
  assumes "list_all2 (\<lambda>h a. unconfound h key = Inr a) hs as" and "sized s"
    and "k + length hs \<le> unit_cnt s" and "pt_ConfoundKey info = key"
  shows "\<exists>info' s'. go_fold take_answer (enumerate k hs) (info, s) = Inr (info', s')"
  using assms
proof (induction hs as arbitrary: k info s rule: list_all2_induct)
  case (Cons h hs a as)
  obtain s1 where s1: "tally k a s = Inr s1" using tally_total [of s k a] Cons.prems by auto
  have u: "unit_cnt s1 = unit_cnt s" unfolding unit_cnt_def by (subst tally_spec(4) [OF s1 Cons.prems(1)]) simp
  have "\<exists>info' s'. go_fold take_answer (enumerate (Suc k) hs) (info\<lparr>pt_Answers := pt_Answers info @ [a]\<rparr>, s1)
      = Inr (info', s')"
    by (rule Cons.IH) (use Cons.hyps tally_spec(2) [OF s1 Cons.prems(1)] Cons.prems(2,3) u in simp_all)
  then show ?case using Cons.hyps(1) Cons.prems(3) s1 by (simp add: take_answer_def)
qed simp

lemma submission_total:
  assumes "sized s" and "ss_peers s (cl_Caller msg) = Some info" and "cl_Args msg = [x, ArgHashes hs]"
    and "list_all2 (\<lambda>h a. unconfound h (pt_ConfoundKey info) = Inr a) hs as" and "length hs \<le> unit_cnt s"
  shows "\<exists>s'. submission msg s = Inr s'"
proof -
  let ?s = "s\<lparr>ss_answerCnt := ss_answerCnt s + 1\<rparr>"
  have "sized ?s" "0 + length hs \<le> unit_cnt ?s" using assms(1,5) by (simp_all add: sized_def unit_cnt_def)
  then obtain info' s' where "go_fold take_answer (enumerate 0 hs) (info\<lparr>pt_State := STPEER_SUBMITTED\<rparr>, ?s) = Inr (info', s')"
    using take_answers_total [OF assms(4), of ?s 0 "info\<lparr>pt_State := STPEER_SUBMITTED\<rparr>"] by auto
  then show ?thesis using assms(2,3) by (simp add: submission_def)
qed

text \<open>The workers who submitted exactly the answers \<open>as\<close>.\<close>

definition supporters :: "sub_task_session \<Rightarrow> hash_val list \<Rightarrow> node_id set" where
  "supporters s as = {p. \<exists>info. ss_peers s p = Some info \<and> pt_State info = STPEER_SUBMITTED
     \<and> tl (pt_Answers info) = as}"

lemma supporters_voters:
  assumes "session_inv s" and "i < length as"
  shows "supporters s as \<subseteq> voters s i (as ! i)"
  using assms by (fastforce simp: supporters_def voters_def answer_of_def session_inv_def peer_ok_def)

lemma majority_canTerminate:
  assumes "session_inv s" and "counted s ps" and "length as = unit_cnt s" and "card (submitted s) < 2 ^ 31"
    and "card (submitted s) < 2 * card (supporters s as)"
  shows "canTerminate s" and "ss_validAnswers s = as"
proof -
  have sz: "sized s" using assms(1) by (simp add: session_inv_def)
  have small: "card (submitted s) < 2 ^ 32" using assms(4) by simp
  have key: "ss_validAnswers s ! i = as ! i \<and> card (submitted s) < 2 * unat (ss_validAnswerCnt s ! i)
      \<and> unat (ss_validAnswerCnt s ! i) < 2 ^ 31" if i: "i < unit_cnt s" for i
  proof -
    have fin: "finite (voters s i a)" for a
      by (rule finite_subset [OF voters_submitted finite_submitted [OF assms(2)]])
    have le: "card (supporters s as) \<le> card (voters s i (as ! i))"
      by (rule card_mono [OF fin supporters_voters [OF assms(1)]]) (simp add: i assms(3))
    note c = counted_cells [OF assms(2) small i]
    have "card (submitted s) < 2 * card (voters s i (ss_validAnswers s ! i))"
      using le assms(5) c(3) c(4) [of "as ! i"] by simp
    moreover have "card (submitted s) < 2 * card (voters s i (as ! i))" using le assms(5) by simp
    moreover have "card (voters s i (ss_validAnswers s ! i)) \<le> card (submitted s)"
      by (rule card_mono [OF finite_submitted [OF assms(2)] voters_submitted])
    ultimately show ?thesis using two_majorities [OF assms(2)] c(3) assms(4) by auto
  qed
  show "ss_validAnswers s = as"
    by (rule nth_equalityI) (use sz key assms(3) in \<open>simp_all add: sized_def\<close>)
  have "\<not> ss_validAnswerCnt s ! i * 2 \<le> ss_answerCnt s" if "i < unit_cnt s" for i
  proof -
    have "unat (ss_validAnswerCnt s ! i * 2) = 2 * unat (ss_validAnswerCnt s ! i)"
      using key [OF that] by (subst unat_mult_lem [THEN iffD1]) simp_all
    moreover have "unat (ss_answerCnt s) = card (submitted s)"
      using counted_cells(1) [OF assms(2) small that] .
    ultimately show ?thesis using key [OF that] by (simp add: word_le_nat_alt)
  qed
  then show "canTerminate s" using sz by (simp add: canTerminate_def list_all_length sized_def)
qed

lemma majority_step:
  assumes "master_reach (started t mid ch ah c1 c2 c0) (s, c)" and "\<not> ss_returned s"
    and "ss_peers s (cl_Caller msg) = Some info" and "pt_State info = STPEER_RUNNING"
    and "cl_Args msg = [x, ArgHashes hs]"
    and "list_all2 (\<lambda>h b. unconfound h (pt_ConfoundKey info) = Inr b) hs bs"
    and "length bs \<le> unit_cnt s" and "length as = unit_cnt s" and "0 < unit_cnt s"
    and "unat (st_MinAnswerCnt (ss_taskInfo s)) \<le> Suc (card (submitted s))"
    and "Suc (card (submitted s)) < 2 ^ 31"
    and "Suc (card (submitted s)) < 2 * card (supporters s as \<union> (if bs = as then {cl_Caller msg} else {}))"
  shows "\<exists>s'. master_step (EvPeerAnswer msg) (s, c)
      = Inr ([MTerminate (Terminate (ss_key s) (ss_contractHandler s))], s', c)
    \<and> ss_state s' = STASK_TERMINATING \<and> ss_validAnswers s' = as"
proof -
  let ?p = "cl_Caller msg"
  obtain ps where inv: "session_inv s" "counted s ps" "sized s" using reached_counted [OF assms(1)] by blast
  have run: "is_running s ?p" using assms(3,4) by (simp add: is_running_def)
  have len: "length hs \<le> unit_cnt s" using assms(6,7) list_all2_lengthD by metis
  obtain s1 where s1: "submission msg s = Inr s1"
    using submission_total [OF inv(3) assms(3,5,6) len] by blast
  note c1 = counted_submission [OF inv(1) run s1 inv(2)]
  obtain cs where cs: "ss_peers s1 = (ss_peers s)(?p \<mapsto> info\<lparr>pt_State := STPEER_SUBMITTED, pt_Answers := replicate 20 0 # cs\<rparr>)"
    and eq: "list_all2 (\<lambda>h a. unconfound h (pt_ConfoundKey info) = Inr a) hs cs"
    and upd: "s1 = s\<lparr>ss_peers := ss_peers s1, ss_answerCnt := ss_answerCnt s1, ss_answers := ss_answers s1,
       ss_validAnswers := ss_validAnswers s1, ss_validAnswerCnt := ss_validAnswerCnt s1\<rparr>"
    by (rule submission_spec [OF inv(1) run s1]) (use assms(3,5) in simp)
  have fields: "ss_taskInfo s1 = ss_taskInfo s" "ss_key s1 = ss_key s" "ss_contractHandler s1 = ss_contractHandler s"
    by (subst upd, simp)+
  have u: "unit_cnt s1 = unit_cnt s" by (simp add: unit_cnt_def fields)
  have "cs = bs" using eq assms(6)
    by (auto simp: list_all2_conv_all_nth intro!: nth_equalityI)
  then have sup: "supporters s1 as = supporters s as \<union> (if bs = as then {?p} else {})"
    using assms(3,4) by (auto simp: supporters_def cs)
  have sub: "submitted s1 = insert ?p (submitted s)" by (auto simp: submitted_def cs)
  have "?p \<notin> submitted s" using assms(3,4) by (simp add: submitted_def)
  then have card: "card (submitted s1) = Suc (card (submitted s))"
    using finite_submitted [OF inv(2)] by (simp add: sub)
  have "card (submitted s1) < 2 * card (supporters s1 as)" unfolding sup card by (rule assms(12))
  moreover have "length as = unit_cnt s1" "card (submitted s1) < 2 ^ 31" using assms(8,11) card u by simp_all
  ultimately have maj: "canTerminate s1" "ss_validAnswers s1 = as"
    using majority_canTerminate [OF c1(2,1)] by blast+
  have sz: "sized s1" using c1(2) by (simp add: session_inv_def)
  have "unat (ss_answerCnt s1) = card (submitted s1)"
    using c1(1) card assms(11) counted_card [OF c1(1)]
    by (simp add: counted_def unat_word_of_nat del: of_nat_Suc length_append)
  then have "st_MinAnswerCnt (ss_taskInfo s1) \<le> ss_answerCnt s1"
    using assms(10) card by (simp add: fields word_le_nat_alt)
  then have "check_termination s1 = Inr ([MTerminate (Terminate (ss_key s) (ss_contractHandler s))],
      s1\<lparr>ss_state := STASK_TERMINATING\<rparr>)"
    using maj(1) sz assms(9) u by (simp add: check_termination_def sized_def fields)
  then have "handle_peer_answer msg s = Inr ([MTerminate (Terminate (ss_key s) (ss_contractHandler s))],
      s1\<lparr>ss_state := STASK_TERMINATING\<rparr>)"
    using run s1 by (simp add: handle_peer_answer_eq)
  then show ?thesis using assms(2) maj(2) by (simp add: master_step_def with_chain_def)
qed


subsection \<open>Witnesses\<close>

lemma unconfound_in_range:
  assumes "256 ^ 19 \<le> nat \<bar>BytesToBigInt h - BytesToBigInt k\<bar>" and "nat \<bar>BytesToBigInt h - BytesToBigInt k\<bar> < 256 ^ 20"
  shows "unconfound h k = Inr (be_bytes 20 (nat \<bar>BytesToBigInt h - BytesToBigInt k\<bar>))"
proof -
  let ?d = "nat \<bar>BytesToBigInt h - BytesToBigInt k\<bar>"
  have "nat_bytes ?d = be_bytes (Suc 19) ?d" by (rule nat_bytes_be) (use assms in simp_all)
  then have "big_Bytes (BytesToBigInt h - BytesToBigInt k) = be_bytes 20 ?d" by (simp add: big_Bytes_def)
  then show ?thesis by (simp add: unconfound_def del: be_bytes.simps)
qed

lemma some_hash_unconfounds:
  assumes "bytes20 k"
  shows "\<exists>h a. unconfound h k = Inr a"
proof (cases "256 ^ 19 \<le> be_nat k")
  case True
  then show ?thesis
    using unconfound_in_range [of "[]" k] be_nat_less [of k] assms
    by (auto simp: BytesToBigInt_def bytes20_def be_nat_def)
next
  case False
  let ?h = "be_bytes 20 (256 ^ 20 - 1)"
  have "be_nat ?h = 256 ^ 20 - 1" by (simp add: be_nat_be_bytes del: be_bytes.simps)
  then have "nat \<bar>BytesToBigInt ?h - BytesToBigInt k\<bar> = 256 ^ 20 - 1 - be_nat k"
    using False by (simp add: BytesToBigInt_def nat_diff_distrib del: be_bytes.simps)
  moreover have "256 ^ 19 \<le> 256 ^ 20 - 1 - be_nat k" "256 ^ 20 - 1 - be_nat k < 256 ^ 20"
    using False by simp_all
  ultimately show ?thesis using unconfound_in_range [of ?h k] by metis
qed

definition demo_sub :: sub_task where
  "demo_sub = NewSubTask (replicate 20 1) [5] [] [] 0 1 1
     (Some (NewTaskFileMetaInfo [] [] [] [])) (Some (NewTaskExecuteInfo [] []))"

definition demo_start :: "sub_task_session \<times> chain_state" where
  "demo_start = started demo_sub (replicate 20 2) (NewNaiveCalcContractHandler (replicate 20 2))
     \<lparr>ah_id = 4, ah_listeners = Map.empty\<rparr> 1 2 chain_init"

abbreviation "demo_worker \<equiv> replicate 20 (3 :: u8)"

lemma demo_start_fields:
  "ss_mid (fst demo_start) = replicate 20 2" "ss_taskInfo (fst demo_start) = demo_sub"
  "ss_peers (fst demo_start) = Map.empty" "\<not> ss_returned (fst demo_start)" "ss_answerCnt (fst demo_start) = 0"
  "ss_key (fst demo_start) = replicate 20 0"
  by (simp_all add: demo_start_def started_def master_Start_def NewSubTaskSession_def Let_def split: prod.split)

lemma demo_sub_fields [simp]:
  "st_ID demo_sub = replicate 20 1" "st_UnitTaskCnt demo_sub = 1" "st_MinAnswerCnt demo_sub = 1"
  "st_FileInfo demo_sub = Some (NewTaskFileMetaInfo [] [] [] [])"
  "st_ExecuteInfo demo_sub = Some (NewTaskExecuteInfo [] [])"
  by (simp_all add: demo_sub_def NewSubTask_def)

lemma handle_peer_res_new:
  assumes "decode_with worker_res_msg_c (ln_Data msg) = Inr res" and "wr_WorkerID res = ln_FromPeerID msg"
    and "wr_MasterID res = ss_mid s" and "wr_TaskID res = st_ID (ss_taskInfo s)"
    and "ss_peers s (wr_WorkerID res) = None"
    and "NewTaskMetaInfo (ss_mid s) (st_ID (ss_taskInfo s)) (genConfoundKey s (wr_WorkerID res))
      (genSign s (wr_WorkerID res)) (st_FileInfo (ss_taskInfo s)) (st_ExecuteInfo (ss_taskInfo s)) = Inr meta"
    and "encode_with task_meta_info_c meta = Inr data"
  shows "handle_peer_res msg s = Inr ([MNet (appli_SendTo (ss_appliNetHandler s) (wr_WorkerID res)
         (ln_FromHandlerID msg) CPROC_META data)],
      s\<lparr>ss_peers := (ss_peers s)(wr_WorkerID res \<mapsto>
        (NewPeerTaskInfo (genConfoundKey s (wr_WorkerID res)) STPEER_ACCEPT)\<lparr>pt_State := STPEER_RUNNING\<rparr>)\<rparr>)"
  using assms by (simp add: handle_peer_res_def Let_def)

text \<open>A worker is accepted, and there are answers that unconfound under its key.\<close>

lemma demo_accepted:
  "\<exists>s c info h a. master_reach demo_start (s, c) \<and> \<not> ss_returned s \<and> unit_cnt s = 1
    \<and> ss_peers s demo_worker = Some info \<and> pt_State info = STPEER_RUNNING \<and> submitted s = {}
    \<and> unconfound h (pt_ConfoundKey info) = Inr a \<and> st_MinAnswerCnt (ss_taskInfo s) = 1"
proof -
  let ?s = "fst demo_start" and ?w = demo_worker
  let ?res = "\<lparr>wr_WorkerID = ?w, wr_MasterID = replicate 20 2, wr_TaskID = replicate 20 1\<rparr>"
  obtain bs where bs: "decode_with worker_res_msg_c bs = Inr ?res"
    using worker_res_msg.encode_total [of ?res] by auto
  let ?key = "genConfoundKey ?s ?w"
  have k: "bytes20 ?key" by (simp add: genConfoundKey_def)
  obtain h a where ha: "unconfound h ?key = Inr a" using some_hash_unconfounds [OF k] by blast
  let ?meta = "\<lparr>tm_MasterID = replicate 20 2, tm_TaskID = replicate 20 1, tm_ConfoundKey = ?key, tm_Sign = [],
      tm_FileInfo = NewTaskFileMetaInfo [] [] [] [], tm_ExecuteInfo = NewTaskExecuteInfo [] []\<rparr>"
  have "c_wf task_meta_info_c ?meta" using k by (simp add: NewTaskFileMetaInfo_def NewTaskExecuteInfo_def)
  then obtain ms where ms: "encode_with task_meta_info_c ?meta = Inr ms"
    using task_meta_info.encode_total by blast
  let ?info = "(NewPeerTaskInfo ?key STPEER_ACCEPT)\<lparr>pt_State := STPEER_RUNNING\<rparr>"
  let ?s' = "?s\<lparr>ss_peers := [?w \<mapsto> ?info]\<rparr>"
  have meta: "NewTaskMetaInfo (replicate 20 2) (replicate 20 1) ?key [] (st_FileInfo demo_sub) (st_ExecuteInfo demo_sub)
      = Inr ?meta"
    by (simp add: NewTaskMetaInfo_def)
  obtain effs where "handle_peer_res \<lparr>ln_FromPeerID = ?w, ln_FromHandlerID = 9, ln_Data = bs\<rparr> ?s = Inr (effs, ?s')"
    using handle_peer_res_new [of "\<lparr>ln_FromPeerID = ?w, ln_FromHandlerID = 9, ln_Data = bs\<rparr>" ?res ?s ?meta ms]
      bs ms meta demo_start_fields by (simp add: genSign_def)
  then have "master_step (EvPeerRes \<lparr>ln_FromPeerID = ?w, ln_FromHandlerID = 9, ln_Data = bs\<rparr>)
      (?s, snd demo_start) = Inr (effs, ?s', snd demo_start)"
    using demo_start_fields by (simp add: master_step_def with_chain_def case_prod_beta)
  then have "master_reach demo_start (?s', snd demo_start)"
    using reach_step [OF reach_start] by simp
  moreover have "submitted ?s' = {}" by (auto simp: submitted_def)
  ultimately show ?thesis
    using demo_start_fields ha
    by (intro exI [of _ ?s'] exI [of _ "snd demo_start"] exI [of _ ?info] exI [of _ h] exI [of _ a])
      (simp add: unit_cnt_def NewPeerTaskInfo_def)
qed

lemma demo_terminates:
  "\<exists>s c x h s'. master_reach demo_start (s, c) \<and>
    master_step (EvPeerAnswer \<lparr>cl_OK = True, cl_Caller = demo_worker, cl_Args = [x, ArgHashes [h]]\<rparr>) (s, c)
      = Inr ([MTerminate (Terminate (ss_key s) (ss_contractHandler s))], s', c)
    \<and> submitted s' = {demo_worker} \<and> unit_cnt s' = 1"
proof -
  obtain s c info h a where a: "master_reach demo_start (s, c)" "\<not> ss_returned s" "unit_cnt s = 1"
    "ss_peers s demo_worker = Some info" "pt_State info = STPEER_RUNNING" "submitted s = {}"
    "unconfound h (pt_ConfoundKey info) = Inr a" "st_MinAnswerCnt (ss_taskInfo s) = 1"
    using demo_accepted by blast
  let ?msg = "\<lparr>cl_OK = True, cl_Caller = demo_worker, cl_Args = [ArgBytes [], ArgHashes [h]]\<rparr>"
  have sup: "supporters s [a] = {}" using a(6) by (auto simp: supporters_def submitted_def)
  obtain s' where s': "master_step (EvPeerAnswer ?msg) (s, c)
      = Inr ([MTerminate (Terminate (ss_key s) (ss_contractHandler s))], s', c)"
    using majority_step [of demo_sub "replicate 20 2" "NewNaiveCalcContractHandler (replicate 20 2)"
        "\<lparr>ah_id = 4, ah_listeners = Map.empty\<rparr>" 1 2 chain_init s c ?msg info "ArgBytes []" "[h]" "[a]" "[a]"]
      a sup unfolding demo_start_def by force
  obtain s1 where s1: "is_running s demo_worker" "submission ?msg s = Inr s1" "s' = s1\<lparr>ss_state := STASK_TERMINATING\<rparr>"
    by (rule terminate_step [OF s']) auto
  have inv: "session_inv s" by (rule master_reach_inv [OF a(1), simplified]) (simp add: demo_start_def started_inv)
  have run: "is_running s (cl_Caller ?msg)" using s1(1) by simp
  obtain info' as where sp: "ss_peers s1 = (ss_peers s)(cl_Caller ?msg \<mapsto>
      info'\<lparr>pt_State := STPEER_SUBMITTED, pt_Answers := replicate 20 0 # as\<rparr>)"
    "s1 = s\<lparr>ss_peers := ss_peers s1, ss_answerCnt := ss_answerCnt s1, ss_answers := ss_answers s1,
       ss_validAnswers := ss_validAnswers s1, ss_validAnswerCnt := ss_validAnswerCnt s1\<rparr>"
    by (rule submission_spec [OF inv run s1(2)]) blast
  have "submitted s' = {demo_worker}" using a(6) by (auto simp: s1(3) submitted_def sp(1) split: if_splits)
  moreover have "unit_cnt s' = 1" using a(3) unfolding s1(3) unit_cnt_def by (subst sp(2)) simp
  ultimately show ?thesis
    by (intro exI [of _ s] exI [of _ c] exI [of _ "ArgBytes []"] exI [of _ h] exI [of _ s'] conjI a(1) s')
qed

lemma every_vote_counted_once_witness:
  "\<exists>s c. master_reach demo_start (s, c) \<and> unat (ss_answerCnt s) = 1
    \<and> unat (ss_validAnswerCnt s ! 0) = card (voters s 0 (ss_validAnswers s ! 0))"
proof -
  obtain s c x h effs s' where d: "master_reach demo_start (s, c)"
    "master_step (EvPeerAnswer \<lparr>cl_OK = True, cl_Caller = demo_worker, cl_Args = [x, ArgHashes [h]]\<rparr>) (s, c)
      = Inr (effs, s', c)" "submitted s' = {demo_worker}" "unit_cnt s' = 1"
    using demo_terminates by (elim exE conjE) (rule that)
  have "master_reach demo_start (s', c)" by (rule reach_step [OF d(1,2)])
  from every_vote_counted_once [OF this [unfolded demo_start_def]] d(3,4)
  have "unat (ss_answerCnt s') = 1 \<and> unat (ss_validAnswerCnt s' ! 0) = card (voters s' 0 (ss_validAnswers s' ! 0))"
    by simp
  with \<open>master_reach demo_start (s', c)\<close> show ?thesis by (intro exI [of _ s'] exI [of _ c]) simp
qed

lemma terminates_only_on_majority_witness:
  "\<exists>s c. master_reach demo_start (s, c) \<and> ss_state s = STASK_TERMINATING
    \<and> card (voters s 0 (ss_validAnswers s ! 0)) = 1"
proof -
  obtain s c x h r s' where d: "master_reach demo_start (s, c)"
    "master_step (EvPeerAnswer \<lparr>cl_OK = True, cl_Caller = demo_worker, cl_Args = [x, ArgHashes [h]]\<rparr>) (s, c)
      = Inr ([MTerminate r], s', c)" "submitted s' = {demo_worker}" "unit_cnt s' = 1"
    using demo_terminates by (elim exE conjE) (rule that)
  have t: "ss_state s' = STASK_TERMINATING" "card {demo_worker} < 2 * card (voters s' 0 (ss_validAnswers s' ! 0))"
    using terminates_only_on_majority [OF d(1) [unfolded demo_start_def] d(2), of r] d(3,4) by simp_all
  have "card (voters s' 0 (ss_validAnswers s' ! 0)) \<le> card {demo_worker}"
    by (rule card_mono) (use voters_submitted [of s' 0] d(3) in auto)
  with t have "card (voters s' 0 (ss_validAnswers s' ! 0)) = 1" by simp
  then show ?thesis
    by (intro exI [of _ s'] exI [of _ c] conjI reach_step [OF d(1,2)] t(1))
qed


end
