(* ===== verification/File_Store.thy ===== *)
theory File_Store
  imports Appli_Net Sha1
begin

text \<open>
  The data of \<open>src/src/fs\<close>: the request and result types, the state of \<open>NaiveFS\<close> (\<open>fs.go\<close>) and its
  operations \<open>Set\<close>, \<open>SetWithInfo\<close> and \<open>Get\<close>, which the sessions call. A \<open>sync.Map\<close> and a Go map are
  partial functions, a \<open>map[K]struct{}\<close> maps to \<open>unit\<close>. Every \<open>*FileInfo\<close> is created for one key and
  every \<open>*PeerInfo\<close> for one peer, so they are stored by value.
\<close>

subsection \<open>Requests and results\<close>

record file_share_info =
  si_Keys :: "go_string list"
  si_Origin :: unit
  si_Peers :: "node_id list"
  si_ResultChan :: chan

definition NewFileShareInfo :: "go_string list \<Rightarrow> unit \<Rightarrow> node_id list \<Rightarrow> chan \<Rightarrow> file_share_info" where
  "NewFileShareInfo keys origin peers resultChan =
     \<lparr>si_Keys = keys, si_Origin = origin, si_Peers = peers, si_ResultChan = resultChan\<rparr>"

record file_purchase_info =
  pi_Keys :: "go_string list"
  pi_Size :: u32
  pi_Peer :: node_id
  pi_Hash :: hash_val
  pi_ResultChan :: chan

definition NewFilePurchaseInfo :: "go_string list \<Rightarrow> u32 \<Rightarrow> node_id \<Rightarrow> hash_val \<Rightarrow> chan \<Rightarrow> file_purchase_info" where
  "NewFilePurchaseInfo keys sz peer hash resultChan =
     \<lparr>pi_Keys = keys, pi_Size = sz, pi_Peer = peer, pi_Hash = hash, pi_ResultChan = resultChan\<rparr>"

record paralleled_purchase_info =
  pp_FileInfo :: task_file_meta_info
  pp_ResultChan :: chan

definition NewParalleledPurchaseInfo :: "task_file_meta_info \<Rightarrow> chan \<Rightarrow> paralleled_purchase_info" where
  "NewParalleledPurchaseInfo fileInfo resultChan = \<lparr>pp_FileInfo = fileInfo, pp_ResultChan = resultChan\<rparr>"

datatype share_session_state = SHARE_ST | SHARE_SENDING | SHARE_FINISHED | SHARE_ABORT

record share_result =
  rs_ID :: u32
  rs_Keys :: "go_string list"
  rs_PeerStates :: "node_id \<rightharpoonup> share_session_state"

definition NewShareResult :: "u32 \<Rightarrow> go_string list \<Rightarrow> (node_id \<rightharpoonup> share_session_state) \<Rightarrow> share_result" where
  "NewShareResult i keys peerStates = \<lparr>rs_ID = i, rs_Keys = keys, rs_PeerStates = peerStates\<rparr>"

record share_recv_result =
  rr_OK :: bool
  rr_From :: node_id
  rr_Keys :: "go_string list"

definition NewShareRecvRsult :: "bool \<Rightarrow> node_id \<Rightarrow> go_string list \<Rightarrow> share_recv_result" where
  "NewShareRecvRsult ok from keys = \<lparr>rr_OK = ok, rr_From = from, rr_Keys = keys\<rparr>"

record purchase_result =
  pu_ID :: u32
  pu_OK :: bool
  pu_Peer :: node_id
  pu_Keys :: "go_string list"

definition NewPurchaseResult :: "u32 \<Rightarrow> bool \<Rightarrow> node_id \<Rightarrow> go_string list \<Rightarrow> purchase_result" where
  "NewPurchaseResult i ok peer keys = \<lparr>pu_ID = i, pu_OK = ok, pu_Peer = peer, pu_Keys = keys\<rparr>"

record paralleled_purchase_result =
  pq_ID :: u32
  pq_OK :: bool

definition NewParalleledPurchaseResult :: "u32 \<Rightarrow> bool \<Rightarrow> paralleled_purchase_result" where
  "NewParalleledPurchaseResult i ok = \<lparr>pq_ID = i, pq_OK = ok\<rparr>"

text \<open>What a session does to its surroundings: calls on its network handler, a purchase request put
  on the channel of the file system, and its result.\<close>

datatype 'r fs_effect = FNet net_call | FPurchase file_purchase_info | FResult 'r

subsection \<open>The state of \<open>NaiveFS\<close>\<close>

record file_info =
  fi_Owner :: node_id
  fi_Peers :: "node_id \<rightharpoonup> unit"

record fs_peer_info =
  fp_FilesFrom :: "go_string \<rightharpoonup> unit"
  fp_FilesTo :: "go_string \<rightharpoonup> unit"

record naive_fs =
  nf_owner :: node_id
  nf_db :: "go_string \<rightharpoonup> u8 list"
  nf_fileInfoDB :: "go_string \<rightharpoonup> file_info"
  nf_peerInfoDB :: "node_id \<rightharpoonup> fs_peer_info"
  nf_sessionId :: u32
  nf_static :: appli_handler
  nf_factory :: handler_factory
  nf_userShareResultChans :: "u32 \<rightharpoonup> chan"
  nf_userPurchaseResultChans :: "u32 \<rightharpoonup> chan"
  nf_userParalleledPurchaseResultChans :: "u32 \<rightharpoonup> chan"

text \<open>\<open>NewNaiveFS\<close> sets no owner: it stays the zero id.\<close>

definition NewNaiveFS :: "appli_handler \<Rightarrow> handler_factory \<Rightarrow> naive_fs" where
  "NewNaiveFS handler factory =
     \<lparr>nf_owner = replicate 20 0, nf_db = Map.empty, nf_fileInfoDB = Map.empty, nf_peerInfoDB = Map.empty,
      nf_sessionId = 0, nf_static = handler, nf_factory = factory, nf_userShareResultChans = Map.empty,
      nf_userPurchaseResultChans = Map.empty, nf_userParalleledPurchaseResultChans = Map.empty\<rparr>"

definition SetWithInfo :: "go_string \<Rightarrow> u8 list \<Rightarrow> file_info \<Rightarrow> naive_fs \<Rightarrow> naive_fs" where
  "SetWithInfo k v info nfs = (case nf_db nfs k of
       Some _ \<Rightarrow> nfs
     | None \<Rightarrow> nfs\<lparr>nf_db := (nf_db nfs)(k \<mapsto> v), nf_fileInfoDB := (nf_fileInfoDB nfs)(k \<mapsto> info)\<rparr>)"

definition fs_Set :: "go_string \<Rightarrow> u8 list \<Rightarrow> naive_fs \<Rightarrow> naive_fs" where
  "fs_Set k v nfs = SetWithInfo k v \<lparr>fi_Owner = nf_owner nfs, fi_Peers = Map.empty\<rparr> nfs"

text \<open>\<open>ret.([]byte)\<close> panics when the key is missing; the error result is always nil.\<close>

definition fs_Get :: "naive_fs \<Rightarrow> go_string \<Rightarrow> u8 list go" where
  "fs_Get nfs k = go_assert (nf_db nfs k)"

subsection \<open>What the sessions rely on\<close>

text \<open>A store in which the first value of a key stays.\<close>

locale write_once_store =
  fixes load :: "'s \<Rightarrow> 'k \<Rightarrow> 'v option"
    and store :: "'k \<Rightarrow> 'v \<Rightarrow> 's \<Rightarrow> 's"
  assumes load_store: "load (store k v s) = (case load s k of None \<Rightarrow> (load s)(k \<mapsto> v) | Some _ \<Rightarrow> load s)"
begin

definition store_all :: "('k \<times> 'v) list \<Rightarrow> 's \<Rightarrow> 's" where
  "store_all kvs s = fold (\<lambda>(k, v). store k v) kvs s"

lemma store_all_simps [simp]:
  "store_all [] s = s"
  "store_all (kv # kvs) s = store_all kvs (store (fst kv) (snd kv) s)"
  by (simp_all add: store_all_def case_prod_beta)

lemma load_store_all: "load (store_all kvs s) k = (case load s k of Some v \<Rightarrow> Some v | None \<Rightarrow> map_of kvs k)"
  by (induction kvs arbitrary: s) (auto simp: load_store split: option.splits)

lemma store_all_keeps: "load s k = Some v \<Longrightarrow> load (store_all kvs s) k = Some v"
  by (simp add: load_store_all)

lemma store_all_dom: "dom (load (store_all kvs s)) = dom (load s) \<union> fst ` set kvs"
proof -
  have "dom (load (store_all kvs s)) = dom (load s) \<union> dom (map_of kvs)"
    by (auto simp: load_store_all split: option.splits)
  then show ?thesis by (simp add: dom_map_of_conv_image_fst)
qed

lemma store_all_new:
  assumes "distinct ks" and "length vs = length ks" and "\<forall>k \<in> set ks. load s k = None" and "i < length ks"
  shows "load (store_all (zip ks vs) s) (ks ! i) = Some (vs ! i)"
  using assms by (simp add: load_store_all map_of_zip_nth)

end

text \<open>Every file has its file info.\<close>

definition fs_inv :: "naive_fs \<Rightarrow> bool" where
  "fs_inv nfs \<longleftrightarrow> dom (nf_db nfs) = dom (nf_fileInfoDB nfs)"

lemma SetWithInfo_db:
  "nf_db (SetWithInfo k v info nfs) = (case nf_db nfs k of None \<Rightarrow> (nf_db nfs)(k \<mapsto> v) | Some _ \<Rightarrow> nf_db nfs)"
  by (simp add: SetWithInfo_def split: option.split)

lemma fs_Set_db: "nf_db (fs_Set k v nfs) = (case nf_db nfs k of None \<Rightarrow> (nf_db nfs)(k \<mapsto> v) | Some _ \<Rightarrow> nf_db nfs)"
  by (simp add: fs_Set_def SetWithInfo_db)

interpretation own_files: write_once_store nf_db fs_Set
  by unfold_locales (rule fs_Set_db)

interpretation shared_files: write_once_store nf_db "\<lambda>k v. SetWithInfo k v info" for info
  by unfold_locales (rule SetWithInfo_db)

lemma fs_inv_SetWithInfo [inv_intros]: "fs_inv nfs \<Longrightarrow> fs_inv (SetWithInfo k v info nfs)"
  by (auto simp: fs_inv_def SetWithInfo_def split: option.splits)

lemma fs_inv_Set [inv_intros]: "fs_inv nfs \<Longrightarrow> fs_inv (fs_Set k v nfs)"
  by (simp add: fs_Set_def fs_inv_SetWithInfo)

lemma fs_inv_New [simp]: "fs_inv (NewNaiveFS h f)"
  by (simp add: fs_inv_def NewNaiveFS_def)

lemma fs_inv_update_peers:
  "fs_inv (nfs\<lparr>nf_peerInfoDB := x\<rparr>) = fs_inv nfs"
  by (simp add: fs_inv_def)

lemma fs_Get_total: "set ks \<subseteq> dom (nf_db nfs) \<Longrightarrow> go_map (fs_Get nfs) ks = Inr (map (\<lambda>k. the (nf_db nfs k)) ks)"
  by (induction ks) (auto simp: fs_Get_def)

lemma fs_Get_all_Inr: "go_map (fs_Get nfs) ks = Inr vs \<Longrightarrow> vs = map (\<lambda>k. the (nf_db nfs k)) ks \<and> set ks \<subseteq> dom (nf_db nfs)"
  by (induction ks arbitrary: vs) (auto simp: and_then_Inr_iff fs_Get_def dest: go_assert_InrD)

end
