(* ===== verification/Worker_Session.thy ===== *)
theory Worker_Session
  imports File_Store Calc_Contract
begin

text \<open>
  \<open>src/src/worker\<close>: the worker that answers task requests (\<open>worker.go\<close>), its session for one task
  (\<open>session.go\<close>) and the executer (\<open>exec.go\<close>, a stand-in that runs no code). A session step is one turn
  of the \<open>select\<close> in \<open>run\<close>; the file system and the chain that it reads are arguments, its calls on
  them and on the network are effects.
\<close>

subsection \<open>\<open>exec.go\<close>\<close>

record execute_result =
  xr_OK :: bool
  xr_AnsHash :: "hash_val list"

definition NewExecuteResult :: "bool \<Rightarrow> hash_val list \<Rightarrow> execute_result" where
  "NewExecuteResult ok ansHash = \<lparr>xr_OK = ok, xr_AnsHash = ansHash\<rparr>"

text \<open>The result that \<open>NaiveWASMExecuter\<close> puts on its channel: the hash of output \<open>i\<close> is the array whose
  first byte is \<open>uint8(i + 1)\<close>.\<close>

definition naive_Execute :: "u8 list \<Rightarrow> task_execute_info \<Rightarrow> execute_result" where
  "naive_Execute code executeInfo = NewExecuteResult True
     (map (\<lambda>i. word_of_nat (i + 1) # replicate 19 0) [0..<length (te_OutputKeys executeInfo)])"

subsection \<open>\<open>session.go\<close>\<close>

datatype worker_session_state = WS_INITED | WS_PREPARING | WS_STARTED | WS_FETCHING | WS_RUNNING
  | WS_UPLOADING | WS_ABORTED | WS_DONE

record worker_session =
  ws_workerID :: node_id
  ws_contractAddress :: contract_address
  ws_state :: worker_session_state
  ws_code :: "u8 list"
  ws_masterHandlerID :: u16
  ws_metaInfo :: task_meta_info
  ws_contractHandler :: contract_handler
  ws_appliNetHandler :: appli_handler
  ws_metaChan :: chan
  ws_purchaseResultChan :: chan
  ws_submitResultChan :: chan
  ws_returned :: bool

text \<open>\<open>&common.TaskMetaInfo{}\<close>\<close>

definition zero_meta :: task_meta_info where
  "zero_meta = \<lparr>tm_MasterID = replicate 20 0, tm_TaskID = replicate 20 0, tm_ConfoundKey = replicate 20 0,
     tm_Sign = [], tm_FileInfo = NewTaskFileMetaInfo [] [] [] [], tm_ExecuteInfo = NewTaskExecuteInfo [] []\<rparr>"

definition NewWorkerSession :: "node_id \<Rightarrow> node_id \<Rightarrow> contract_address \<Rightarrow> u8 list \<Rightarrow> u16 \<Rightarrow> contract_handler
    \<Rightarrow> appli_handler \<Rightarrow> chan \<Rightarrow> chan \<Rightarrow> chan \<Rightarrow> worker_session" where
  "NewWorkerSession workerID masterID address code masterHandlerID ch ah metaChan purchaseChan submitChan =
     \<lparr>ws_workerID = workerID, ws_contractAddress = address, ws_state = WS_INITED, ws_code = code,
      ws_masterHandlerID = masterHandlerID, ws_metaInfo = zero_meta\<lparr>tm_MasterID := masterID\<rparr>,
      ws_contractHandler = ch, ws_appliNetHandler = ah, ws_metaChan = metaChan,
      ws_purchaseResultChan = purchaseChan, ws_submitResultChan = submitChan, ws_returned = False\<rparr>"

datatype worker_effect =
    WNet net_call
  | WPurchase paralleled_purchase_info
  | WExecute "u8 list" task_execute_info
  | WCall chan call_result

text \<open>\<open>Start\<close>; the first component is the result that \<open>Validate\<close> puts on \<open>validateChan\<close>.\<close>

definition worker_Start :: "chain_state \<Rightarrow> worker_session \<Rightarrow> deploy_result \<times> worker_session" where
  "worker_Start c s =
     (let (result, ch) = Validate (ws_contractAddress s) (ws_contractHandler s) c in
      (result, s\<lparr>ws_contractHandler := ch, ws_state := WS_PREPARING,
         ws_appliNetHandler := AddListener CPROC_META (ws_metaChan s) (ws_appliNetHandler s)\<rparr>))"

definition checkSign :: "u8 list \<Rightarrow> bool" where
  "checkSign sign = True"

definition handle_validate :: "deploy_result \<Rightarrow> worker_session \<Rightarrow> (worker_effect list \<times> worker_session) go" where
  "handle_validate result s =
     (if ws_state s = WS_PREPARING \<and> dr_OK result \<and> tm_MasterID (ws_metaInfo s) = dr_Deployer result then
        and_then (ResolveDeployArgs (dr_Args result)) (\<lambda>taskID.
          let s' = s\<lparr>ws_state := WS_STARTED, ws_metaInfo := (ws_metaInfo s)\<lparr>tm_TaskID := taskID\<rparr>\<rparr>;
              msg = \<lparr>wr_WorkerID = ws_workerID s', wr_MasterID = tm_MasterID (ws_metaInfo s'),
                     wr_TaskID = tm_TaskID (ws_metaInfo s')\<rparr>
          in and_then (encode_with worker_res_msg_c msg) (\<lambda>data.
               Inr ([WNet (appli_SendTo (ws_appliNetHandler s') (tm_MasterID (ws_metaInfo s'))
                       (ws_masterHandlerID s') CPROC_RES data)], s')))
      else Inr ([], s))"

definition handle_meta :: "listener_net_msg \<Rightarrow> worker_session \<Rightarrow> (worker_effect list \<times> worker_session) go" where
  "handle_meta msg s =
     (if ws_state s = WS_STARTED then
        and_then (decode_with task_meta_info_c (ln_Data msg)) (\<lambda>meta.
          if tm_MasterID meta = tm_MasterID (ws_metaInfo s) \<and> tm_TaskID meta = tm_TaskID (ws_metaInfo s)
             \<and> checkSign (tm_Sign meta)
          then Inr ([WPurchase (NewParalleledPurchaseInfo (tm_FileInfo meta) (ws_purchaseResultChan s))],
                    s\<lparr>ws_metaInfo := meta, ws_state := WS_FETCHING\<rparr>)
          else Inr ([], s))
      else Inr ([], s))"

text \<open>The purchase result itself is not looked at; the files of the first group are read and printed.\<close>

definition handle_purchased :: "naive_fs \<Rightarrow> worker_session \<Rightarrow> (worker_effect list \<times> worker_session) go" where
  "handle_purchased nfs s =
     (if ws_state s = WS_FETCHING then
        and_then (go_index (tf_KeyGroup (tm_FileInfo (ws_metaInfo s))) 0) (\<lambda>keys.
        and_then (go_map (fs_Get nfs) keys) (\<lambda>_.
          Inr ([WExecute (ws_code s) (tm_ExecuteInfo (ws_metaInfo s))], s\<lparr>ws_state := WS_RUNNING\<rparr>)))
      else Inr ([], s))"

definition confound :: "hash_val \<Rightarrow> u8 list \<Rightarrow> hash_val go" where
  "confound hash confoundKey =
     and_then (go_take 20 (big_Bytes (BytesToBigInt hash + BytesToBigInt confoundKey))) (\<lambda>b.
       Inr (go_copy hash b))"

definition handle_executed :: "node_id list \<Rightarrow> chain_state \<Rightarrow> execute_result \<Rightarrow> worker_session
    \<Rightarrow> (worker_effect list \<times> worker_session) go" where
  "handle_executed ord c result s =
     (if xr_OK result then
        and_then (go_map (\<lambda>hash. confound hash (tm_ConfoundKey (ws_metaInfo s))) (xr_AnsHash result)) (\<lambda>ansHash.
        and_then (Submit ord (tm_Sign (ws_metaInfo s)) ansHash (ws_submitResultChan s) (ws_contractHandler s) c)
          (\<lambda>calls. Inr (map (\<lambda>(ch, r). WCall ch r) calls, s)))
      else Inr ([], s))"

datatype worker_event =
    WkValidate deploy_result
  | WkMeta listener_net_msg
  | WkPurchase paralleled_purchase_result
  | WkExecute "node_id list" execute_result
  | WkSubmit call_result
  | WkCtrl

fun worker_select :: "naive_fs \<Rightarrow> chain_state \<Rightarrow> worker_event \<Rightarrow> worker_session
    \<Rightarrow> (worker_effect list \<times> worker_session) go" where
  "worker_select nfs c (WkValidate result) s = handle_validate result s"
| "worker_select nfs c (WkMeta msg) s = handle_meta msg s"
| "worker_select nfs c (WkPurchase _) s = handle_purchased nfs s"
| "worker_select nfs c (WkExecute ord result) s = handle_executed ord c result s"
| "worker_select nfs c (WkSubmit _) s = Inr ([], s\<lparr>ws_returned := True\<rparr>)"
| "worker_select nfs c WkCtrl s = Inr ([], s\<lparr>ws_returned := True\<rparr>)"

definition worker_step :: "naive_fs \<Rightarrow> chain_state \<Rightarrow> worker_event \<Rightarrow> worker_session
    \<Rightarrow> (worker_effect list \<times> worker_session) go" where
  "worker_step nfs c ev s = (if ws_returned s then Inr ([], s) else worker_select nfs c ev s)"

subsection \<open>\<open>worker.go\<close>\<close>

record worker =
  wk_id :: node_id
  wk_static :: appli_handler
  wk_handlers :: handler_factory
  wk_contracts :: contract_handler_factory
  wk_taskRequestChan :: chan

definition NewWorker :: "node_id \<Rightarrow> appli_handler \<Rightarrow> handler_factory \<Rightarrow> contract_handler_factory \<Rightarrow> chan \<Rightarrow> worker" where
  "NewWorker i static handlers contracts requestChan =
     \<lparr>wk_id = i, wk_static = static, wk_handlers = handlers, wk_contracts = contracts,
      wk_taskRequestChan = requestChan\<rparr>"

definition worker_listen :: "worker \<Rightarrow> worker" where
  "worker_listen w = w\<lparr>wk_static := AddListener CPROC_WAIT (wk_taskRequestChan w) (wk_static w)\<rparr>"

text \<open>A task request starts a session when it comes from the master it names. The three channels of the
  new session are arguments; the session's start answers with the result for its \<open>validateChan\<close>.\<close>

definition worker_request :: "chain_state \<Rightarrow> chan \<Rightarrow> chan \<Rightarrow> chan \<Rightarrow> listener_net_msg \<Rightarrow> worker \<Rightarrow> emulator
    \<Rightarrow> ((deploy_result \<times> worker_session) option \<times> worker \<times> emulator) go" where
  "worker_request c c1 c2 c3 msg w e =
     and_then (decode_with master_req_msg_c (ln_Data msg)) (\<lambda>req.
       if mr_MasterID req = ln_FromPeerID msg then
         (let ch = GetCalcContractHandler (wk_contracts w);
              (ah, handlers, e') = GetHandler (wk_handlers w) e;
              s = NewWorkerSession (wk_id w) (mr_MasterID req) (mr_ContractAddr req) (mr_Code req)
                    (ln_FromHandlerID msg) ch ah c1 c2 c3
          in Inr (Some (worker_Start c s), w\<lparr>wk_handlers := handlers\<rparr>, e'))
       else Inr (None, w, e))"

subsection \<open>Confounding\<close>

abbreviation big :: "u8 list \<Rightarrow> nat" where "big \<equiv> be_nat"

lemma BytesToBigInt_add: "big_Bytes (BytesToBigInt h + BytesToBigInt k) = nat_bytes (big h + big k)"
  by (simp add: big_Bytes_def BytesToBigInt_def nat_add_distrib)

lemma confound_in_range:
  assumes "bytes20 h" and "2 ^ 152 \<le> big h + big k" and "big h + big k < 2 ^ 160"
  shows "confound h k = Inr (be_bytes 20 (big h + big k))"
proof -
  have "nat_bytes (big h + big k) = be_bytes (Suc 19) (big h + big k)"
    by (rule nat_bytes_be) (use assms(2,3) in simp_all)
  then have "big_Bytes (BytesToBigInt h + BytesToBigInt k) = be_bytes 20 (big h + big k)"
    by (simp add: BytesToBigInt_add)
  then show ?thesis using assms(1) by (simp add: confound_def bytes20_def del: be_bytes.simps)
qed

lemma confound_small:
  assumes "big h + big k < 2 ^ 152"
  shows "confound h k = Inl SliceOutOfRange"
proof -
  have "length (nat_bytes (big h + big k)) \<le> 19" by (rule length_nat_bytes [THEN iffD2]) (use assms in simp)
  then show ?thesis by (simp add: confound_def BytesToBigInt_add)
qed

lemma nat_bytes_21:
  assumes "2 ^ 160 \<le> n" and "n < 2 ^ 168"
  shows "take 20 (nat_bytes n) = be_bytes 20 (n div 256)" and "length (nat_bytes n) = 21"
proof -
  have "nat_bytes n = be_bytes (Suc 20) n" by (rule nat_bytes_be) (use assms in simp_all)
  then have "nat_bytes n = be_bytes 20 (n div 256) @ [word_of_nat (n mod 256)]"
    unfolding be_bytes.simps(2) .
  then show "take 20 (nat_bytes n) = be_bytes 20 (n div 256)" "length (nat_bytes n) = 21"
    by (simp_all del: be_bytes.simps)
qed

lemma confound_carry:
  assumes "bytes20 h" and "bytes20 k" and "2 ^ 160 \<le> big h + big k"
  shows "confound h k = Inr (be_bytes 20 ((big h + big k) div 256))"
proof -
  have "big h < 256 ^ 20" "big k < 256 ^ 20" using be_nat_less [of h] be_nat_less [of k] assms(1,2) by (simp_all add: bytes20_def)
  then have "big h + big k < 2 ^ 168" by simp
  note b = nat_bytes_21 [OF assms(3) this]
  show ?thesis using b assms(1) by (simp add: confound_def BytesToBigInt_add bytes20_def go_take_def del: be_bytes.simps)
qed

text \<open>The number of a byte string with a first byte other than 0 is at least \<open>2 ^ 152\<close>.\<close>

lemma be_nat_Cons: "be_nat (b # bs) = unat b * 256 ^ length bs + be_nat bs"
  by (induction bs rule: rev_induct) (simp_all add: be_nat_def algebra_simps)

lemma big_hd: "bytes20 h \<Longrightarrow> hd h \<noteq> 0 \<longleftrightarrow> 2 ^ 152 \<le> big h"
proof -
  assume b: "bytes20 h"
  then obtain x xs where h: "h = x # xs" "length xs = 19" by (cases h) (auto simp: bytes20_def)
  have lt: "big xs < 2 ^ 152" using be_nat_less [of xs] h(2) by simp
  have eq: "big h = unat x * 2 ^ 152 + big xs" using h by (simp add: be_nat_Cons)
  show "hd h \<noteq> 0 \<longleftrightarrow> 2 ^ 152 \<le> big h"
  proof (cases "x = 0")
    case False
    then have "1 \<le> unat x" by (simp add: Suc_le_eq unat_gt_0)
    then have "2 ^ 152 \<le> unat x * 2 ^ 152" by simp
    then have "2 ^ 152 \<le> big h" unfolding eq by linarith
    then show ?thesis using False h(1) by simp
  qed (use eq lt h(1) in simp)
qed

subsection \<open>The turns of a session that succeed\<close>

lemma worker_validates:
  assumes "\<not> ws_returned s" and "ws_state s = WS_PREPARING" and "dr_OK r"
    and "dr_Deployer r = tm_MasterID (ws_metaInfo s)" and "ResolveDeployArgs (dr_Args r) = Inr t"
    and "encode_with worker_res_msg_c \<lparr>wr_WorkerID = ws_workerID s, wr_MasterID = tm_MasterID (ws_metaInfo s),
           wr_TaskID = t\<rparr> = Inr data"
  shows "worker_step nfs c (WkValidate r) s = Inr
    ([WNet (appli_SendTo (ws_appliNetHandler s) (tm_MasterID (ws_metaInfo s)) (ws_masterHandlerID s) CPROC_RES data)],
     s\<lparr>ws_state := WS_STARTED, ws_metaInfo := (ws_metaInfo s)\<lparr>tm_TaskID := t\<rparr>\<rparr>)"
  using assms by (simp add: worker_step_def handle_validate_def Let_def)

lemma worker_fetches:
  assumes "\<not> ws_returned s" and "ws_state s = WS_STARTED" and "decode_with task_meta_info_c (ln_Data msg) = Inr meta"
    and "tm_MasterID meta = tm_MasterID (ws_metaInfo s)" and "tm_TaskID meta = tm_TaskID (ws_metaInfo s)"
  shows "worker_step nfs c (WkMeta msg) s = Inr
    ([WPurchase (NewParalleledPurchaseInfo (tm_FileInfo meta) (ws_purchaseResultChan s))],
     s\<lparr>ws_metaInfo := meta, ws_state := WS_FETCHING\<rparr>)"
  using assms by (simp add: worker_step_def handle_meta_def checkSign_def)

lemma worker_runs:
  assumes "\<not> ws_returned s" and "ws_state s = WS_FETCHING"
    and "tf_KeyGroup (tm_FileInfo (ws_metaInfo s)) = keys # groups" and "set keys \<subseteq> dom (nf_db nfs)"
  shows "worker_step nfs c (WkPurchase r) s = Inr
    ([WExecute (ws_code s) (tm_ExecuteInfo (ws_metaInfo s))], s\<lparr>ws_state := WS_RUNNING\<rparr>)"
  using assms by (simp add: worker_step_def handle_purchased_def fs_Get_total)

subsection \<open>Which tasks a session runs\<close>

text \<open>\<open>worker_reach r s0 s\<close>: the session gets from \<open>s0\<close> to \<open>s\<close> when the only value on \<open>validateChan\<close> is \<open>r\<close>.\<close>

inductive worker_reach :: "deploy_result \<Rightarrow> worker_session \<Rightarrow> worker_session \<Rightarrow> bool" for r s0 where
  worker_init: "worker_reach r s0 s0"
| worker_next: "worker_reach r s0 s \<Longrightarrow> (\<And>x. ev = WkValidate x \<Longrightarrow> x = r) \<Longrightarrow> worker_step nfs c ev s = Inr (effs, s')
    \<Longrightarrow> worker_reach r s0 s'"

definition validated :: "deploy_result \<Rightarrow> node_id \<Rightarrow> worker_session \<Rightarrow> bool" where
  "validated r master s \<longleftrightarrow> tm_MasterID (ws_metaInfo s) = master \<and>
     (if ws_state s \<in> {WS_STARTED, WS_FETCHING, WS_RUNNING}
      then dr_OK r \<and> dr_Deployer r = master \<and> ResolveDeployArgs (dr_Args r) = Inr (tm_TaskID (ws_metaInfo s))
      else ws_state s = WS_PREPARING)"

lemma validated_select:
  assumes "validated r master s" and "\<And>x. ev = WkValidate x \<Longrightarrow> x = r" and "worker_select nfs c ev s = Inr (effs, s')"
  shows "validated r master s'"
proof (cases ev)
  case (WkValidate x)
  then have "x = r" "handle_validate r s = Inr (effs, s')" using assms(2,3) by auto
  then show ?thesis using assms(1)
    by (auto simp: handle_validate_def validated_def and_then_Inr_iff Let_def split: if_splits)
next
  case (WkMeta msg)
  then show ?thesis using assms(1,3)
    by (auto simp: handle_meta_def validated_def and_then_Inr_iff split: if_splits)
next
  case (WkPurchase x)
  then show ?thesis using assms(1,3)
    by (auto simp: handle_purchased_def validated_def and_then_Inr_iff split: if_splits)
next
  case (WkExecute ord x)
  then show ?thesis using assms(1,3)
    by (auto simp: handle_executed_def and_then_Inr_iff split: if_splits)
qed (use assms in \<open>auto simp: validated_def\<close>)

lemma validated_reach:
  "worker_reach r s0 s \<Longrightarrow> validated r master s0 \<Longrightarrow> validated r master s"
  by (induction rule: worker_reach.induct) (auto simp: worker_step_def intro: validated_select split: if_splits)


text \<open>The session does not look at the result of its purchase: when the purchase failed and a file
  of the first group is missing, reading it panics the worker.\<close>
theorem failed_purchase_panics_worker:
  assumes "\<not> ws_returned s" and "ws_state s = WS_FETCHING"
    and "tf_KeyGroup (tm_FileInfo (ws_metaInfo s)) = keys # groups" and "k \<in> set keys" and "nf_db nfs k = None"
  shows "\<exists>p. worker_step nfs c (WkPurchase \<lparr>pq_ID = i, pq_OK = False\<rparr>) s = Inl p"
proof -
  have "\<exists>p. go_map (fs_Get nfs) keys = Inl p"
    using assms(4,5) fs_Get_all_Inr [of nfs keys] by (cases "go_map (fs_Get nfs) keys") auto
  then show ?thesis using assms(1-3) by (auto simp: worker_step_def handle_purchased_def)
qed

abbreviation demo_store :: naive_fs where
  "demo_store \<equiv> NewNaiveFS \<lparr>ah_id = 0, ah_listeners = Map.empty\<rparr> \<lparr>hf_id = 0\<rparr>"

definition demo_worker_session :: worker_session where
  "demo_worker_session = (NewWorkerSession [3] [2] [1] [9] 4 (NewNaiveCalcContractHandler [3])
     \<lparr>ah_id = 7, ah_listeners = Map.empty\<rparr> 1 2 3)\<lparr>ws_state := WS_FETCHING,
     ws_metaInfo := zero_meta\<lparr>tm_FileInfo := NewTaskFileMetaInfo [[[97]]] [] [] []\<rparr>\<rparr>"

lemma failed_purchase_panics_worker_witness:
  "\<exists>p. worker_step demo_store chain_init (WkPurchase \<lparr>pq_ID = 1, pq_OK = False\<rparr>) demo_worker_session = Inl p"
  by (rule failed_purchase_panics_worker [of _ "[[97]]" "[]" "[97]"])
    (simp_all add: demo_worker_session_def NewWorkerSession_def NewTaskFileMetaInfo_def NewNaiveFS_def)

abbreviation "demo_master \<equiv> replicate 20 (2 :: u8)"
abbreviation "demo_task \<equiv> replicate 20 (1 :: u8)"
abbreviation "demo_id \<equiv> replicate 20 (3 :: u8)"

text \<open>A master's contract, and a worker that goes through the task.\<close>

definition demo_chain :: "deploy_result \<times> contract_handler \<times> chain_state" where
  "demo_chain = Deploy demo_task (NewNaiveCalcContractHandler demo_master) chain_init"

definition demo_request :: worker_session where
  "demo_request = NewWorkerSession demo_id demo_master (dr_Address (fst demo_chain)) [9] 4
     (NewNaiveCalcContractHandler demo_id) \<lparr>ah_id = 7, ah_listeners = Map.empty\<rparr> 1 2 3"

lemma demo_chain_sel:
  "dr_OK (fst demo_chain)" "dr_Deployer (fst demo_chain) = demo_master"
  "ResolveDeployArgs (dr_Args (fst demo_chain)) = Inr demo_task"
  "fst (Validate (dr_Address (fst demo_chain)) h (snd (snd demo_chain))) = fst demo_chain"
  by (simp_all add: demo_chain_def Deploy_def NewDeployResult_def NewNaiveCalcContractHandler_def
      ResolveDeployArgs_def Validate_def NewCalcContractSimulator_def Let_def)


end
