(* ===== verification/Task_Protocol.thy ===== *)
theory Task_Protocol
  imports Master_Session Worker_Session
begin

text \<open>
  A master session and a worker session together: the confounding of answers in
  \<open>src/src/worker/session.go\<close> against its removal in \<open>src/src/master/session.go\<close>, and the whole
  exchange for one sub-task over the contract of \<open>src/src/chain\<close> and the messages of the network.
\<close>

subsection \<open>Confounding and its removal\<close>

lemma unconfound_be:
  assumes "big c = d + big k \<or> big k = d + big c"
  shows "d < 2 ^ 152 \<Longrightarrow> unconfound c k = Inl SliceOutOfRange"
    and "2 ^ 152 \<le> d \<Longrightarrow> d < 2 ^ 160 \<Longrightarrow> unconfound c k = Inr (be_bytes 20 d)"
proof -
  have d: "nat \<bar>BytesToBigInt c - BytesToBigInt k\<bar> = d" using assms by (auto simp: BytesToBigInt_def)
  show "unconfound c k = Inl SliceOutOfRange" if "d < 2 ^ 152"
  proof -
    have "length (nat_bytes d) \<le> 19" by (rule length_nat_bytes [THEN iffD2]) (use that in simp)
    then show ?thesis by (simp add: unconfound_def big_Bytes_def d)
  qed
  show "unconfound c k = Inr (be_bytes 20 d)" if "2 ^ 152 \<le> d" "d < 2 ^ 160"
    using unconfound_in_range [of c k] that by (simp add: d del: be_bytes.simps)
qed

lemma big_be_bytes: "n < 2 ^ 160 \<Longrightarrow> big (be_bytes 20 n) = n"
  by (simp add: be_nat_be_bytes del: be_bytes.simps)

lemma be_bytes_big: "bytes20 h \<Longrightarrow> be_bytes 20 (big h) = h"
  using be_bytes_be_nat [of h] by (simp add: bytes20_def)

lemma confound_unconfound:
  assumes "bytes20 h" and "bytes20 k" and "big h + big k < 2 ^ 160"
  shows "and_then (confound h k) (\<lambda>c. unconfound c k) = (if hd h = 0 then Inl SliceOutOfRange else Inr h)"
proof (cases "big h + big k < 2 ^ 152")
  case True
  then have "big h < 2 ^ 152" by simp
  then have "hd h = 0" using big_hd [OF assms(1)] by linarith
  then show ?thesis using confound_small [OF True] by simp
next
  case False
  then have c: "confound h k = Inr (be_bytes 20 (big h + big k))" using confound_in_range [OF assms(1)] assms(3) by simp
  have "big (be_bytes 20 (big h + big k)) = big h + big k" by (rule big_be_bytes [OF assms(3)])
  note u = unconfound_be [OF disjI1 [OF this]]
  have lt: "big h < 2 ^ 160" using assms(3) by linarith
  show ?thesis
  proof (cases "hd h = 0")
    case True
    then have "big h < 2 ^ 152" using big_hd [OF assms(1)] by linarith
    then show ?thesis using c u(1) True by (simp del: be_bytes.simps)
  next
    case False
    then have "2 ^ 152 \<le> big h" using big_hd [OF assms(1)] by simp
    then show ?thesis using c u(2) lt False be_bytes_big [OF assms(1)] by (simp del: be_bytes.simps)
  qed
qed

text \<open>C2: What the master makes of an honest answer: as long as hash and confound key add up to less
  than \<open>2 ^ 160\<close>, removing the key from the confounded hash gives the hash back exactly when its
  first byte is not zero; otherwise the worker or the master panics in \<open>Bytes()[:20]\<close>.\<close>
theorem confound_roundtrip:
  assumes "bytes20 h" and "bytes20 k" and "big h + big k < 2 ^ 160"
  shows "and_then (confound h k) (\<lambda>c. unconfound c k) = (if hd h = 0 then Inl SliceOutOfRange else Inr h)"
  by (rule confound_unconfound [OF assms])


subsection \<open>One sub-task from publication to the counted answer\<close>

text \<open>What a listener receives of a message that node \<open>from\<close> sent.\<close>

definition received :: "node_id \<Rightarrow> appli_net_msg \<Rightarrow> listener_net_msg" where
  "received from m = \<lparr>ln_FromPeerID = from, ln_FromHandlerID = an_SrcHandlerID m, ln_Data = an_Data m\<rparr>"

lemma received_sel [simp]:
  "ln_FromPeerID (received from m) = from" "ln_Data (received from m) = an_Data m"
  by (simp_all add: received_def)

lemma received_OnMsgArrive:
  "OnMsgArrive h from m = map_option (\<lambda>c. (c, received from m)) (ah_listeners h (an_DstListenerID m))"
  by (simp add: OnMsgArrive_def received_def split: option.split)

text \<open>The master deploys its contract, listens to it and broadcasts the request.\<close>

lemma master_publishes:
  assumes "bytes20 mid" and "bytes20 (ch_address mch)" and "ch_id mch = mid" and "length (st_Code t) < 2 ^ 32"
  obtains r sM0 c1 m0 sM1 c2 where
    "master_Start (NewSubTaskSession t mid mch ah p1 p2) c0 = (r, sM0, c1)"
    "master_step (EvDeploy r) (sM0, c1) = Inr ([MNet (NetBroadcast m0)], sM1, c2)"
    "decode_with master_req_msg_c (an_Data m0) = Inr \<lparr>mr_MasterID = mid, mr_ContractAddr = dr_Address r, mr_Code = st_Code t\<rparr>"
    "dr_OK r" "dr_Deployer r = mid" "dr_Args r = [ArgTaskID (st_ID t)]"
    "cc_contracts c2 (dr_Address r) = Some \<lparr>cs_DeployInfo = r, cs_SubmitListeners = [mid \<mapsto> p2]\<rparr>"
    "ss_mid sM1 = mid" "ss_taskInfo sM1 = t" "ss_peers sM1 = Map.empty" "ss_key sM1 = replicate 20 0"
    "\<not> ss_returned sM1" "session_inv sM1" "ss_answerCnt sM1 = 0"
proof -
  let ?s = "NewSubTaskSession t mid mch ah p1 p2"
  obtain r h c1 where d: "Deploy (st_ID t) mch c0 = (r, h, c1)" by (cases "Deploy (st_ID t) mch c0")
  let ?sM0 = "?s\<lparr>ss_contractHandler := h, ss_state := STASK_DEPLOYING, ss_appliNetHandler := AddListener CPROC_RES p1 ah\<rparr>"
  have start: "master_Start ?s c0 = (r, ?sM0, c1)"
    by (simp add: master_Start_def d NewSubTaskSession_def Let_def)
  have r: "dr_OK r" "dr_Deployer r = mid" "dr_Args r = [ArgTaskID (st_ID t)]" "ch_address h = dr_Address r"
    "ch_id h = mid" "bytes20 (dr_Address r)"
    using d assms(2,3) by (auto simp: Deploy_def NewDeployResult_def Let_def bytes20_def)
  obtain c2 where c2: "ListenSubmit p2 h c1 = Inr c2"
    "cc_contracts c2 (dr_Address r) = Some \<lparr>cs_DeployInfo = r, cs_SubmitListeners = [mid \<mapsto> p2]\<rparr>"
    using Deploy_ListenSubmit [OF d, of p2] r(4,5) by auto
  let ?req = "\<lparr>mr_MasterID = mid, mr_ContractAddr = dr_Address r, mr_Code = st_Code t\<rparr>"
  obtain bs where bs: "encode_with master_req_msg_c ?req = Inr bs" "decode_with master_req_msg_c bs = Inr ?req"
    using master_req_msg.encode_total [of ?req] assms(1,4) r(6) by auto
  let ?sM1 = "?sM0\<lparr>ss_state := STASK_RUNNING\<rparr>"
  let ?m0 = "NewAppliNetMsg (ah_id ah) StaticHandlerID CPROC_WAIT bs"
  have step: "master_step (EvDeploy r) (?sM0, c1) = Inr ([MNet (NetBroadcast ?m0)], ?sM1, c2)"
    using r(1,4) c2(1) bs(1)
    by (simp add: master_step_def handle_deploy_def publishTask_def NewSubTaskSession_def GetAddress_def
        NewMasterReqMsg_def appli_Broadcast_def AddListener_def Let_def)
  have "session_inv ?sM1 = session_inv ?s" by (rule session_inv_frame(1)) simp_all
  then have inv: "session_inv ?sM1" using NewSubTaskSession_inv by simp
  show thesis
    by (rule that [OF start step _ r(1-3) c2(2) _ _ _ _ _ inv]) (simp_all add: bs(2) NewSubTaskSession_def Let_def)
qed

text \<open>A worker receives the request, validates the contract and answers.\<close>

lemma worker_answers:
  assumes "decode_with master_req_msg_c (an_Data m0) = Inr \<lparr>mr_MasterID = mid, mr_ContractAddr = address, mr_Code = code\<rparr>"
    and "cc_contracts c address = Some \<lparr>cs_DeployInfo = r, cs_SubmitListeners = ls\<rparr>"
    and "dr_OK r" and "dr_Deployer r = mid" and "dr_Args r = [ArgTaskID t]"
    and "bytes20 mid" and "bytes20 t" and "bytes20 (wk_id wk)"
  obtains sW0 wk' e' m1 sW1 where
    "worker_request c d1 d2 d3 (received mid m0) wk e = Inr (Some (r, sW0), wk', e')"
    "worker_step nfs c (WkValidate r) sW0 = Inr ([WNet (NetSendTo mid m1)], sW1)"
    "decode_with worker_res_msg_c (an_Data m1) = Inr \<lparr>wr_WorkerID = wk_id wk, wr_MasterID = mid, wr_TaskID = t\<rparr>"
    "\<not> ws_returned sW1" "ws_state sW1 = WS_STARTED" "tm_MasterID (ws_metaInfo sW1) = mid"
    "tm_TaskID (ws_metaInfo sW1) = t" "ws_code sW1 = code" "ws_purchaseResultChan sW1 = d2"
    "ws_submitResultChan sW1 = d3" "ch_address (ws_contractHandler sW1) = address"
    "ch_id (ws_contractHandler sW1) = cf_id (wk_contracts wk)"
proof -
  let ?ch = "GetCalcContractHandler (wk_contracts wk)"
  obtain ah hf e' where gh: "GetHandler (wk_handlers wk) e = (ah, hf, e')" by (cases "GetHandler (wk_handlers wk) e")
  let ?n = "NewWorkerSession (wk_id wk) mid address code (an_SrcHandlerID m0) ?ch ah d1 d2 d3"
  let ?s0 = "?n\<lparr>ws_contractHandler := ?ch\<lparr>ch_address := address\<rparr>, ws_state := WS_PREPARING,
     ws_appliNetHandler := AddListener CPROC_META d1 ah\<rparr>"
  have start: "worker_Start c ?n = (r, ?s0)"
    using assms(2) by (simp add: worker_Start_def NewWorkerSession_def Validate_def)
  have req: "worker_request c d1 d2 d3 (received mid m0) wk e = Inr (Some (r, ?s0), wk\<lparr>wk_handlers := hf\<rparr>, e')"
    using assms(1) start by (simp add: worker_request_def gh received_def Let_def)
  let ?res = "\<lparr>wr_WorkerID = wk_id wk, wr_MasterID = mid, wr_TaskID = t\<rparr>"
  obtain bs where bs: "encode_with worker_res_msg_c ?res = Inr bs" "decode_with worker_res_msg_c bs = Inr ?res"
    using worker_res_msg.encode_total [of ?res] assms(6-8) by auto
  let ?s1 = "?s0\<lparr>ws_state := WS_STARTED, ws_metaInfo := (ws_metaInfo ?s0)\<lparr>tm_TaskID := t\<rparr>\<rparr>"
  have "worker_step nfs c (WkValidate r) ?s0 = Inr
    ([WNet (appli_SendTo (ws_appliNetHandler ?s0) (tm_MasterID (ws_metaInfo ?s0)) (ws_masterHandlerID ?s0) CPROC_RES bs)], ?s1)"
    by (rule worker_validates)
      (use assms(3-5) bs(1) in \<open>simp_all add: NewWorkerSession_def zero_meta_def ResolveDeployArgs_def\<close>)
  then have val: "worker_step nfs c (WkValidate r) ?s0 = Inr ([WNet (NetSendTo mid
      (NewAppliNetMsg (ah_id ah) (an_SrcHandlerID m0) CPROC_RES bs))], ?s1)"
    by (simp add: appli_SendTo_def NewWorkerSession_def AddListener_def)
  show thesis
    by (rule that [OF req val])
      (simp_all add: bs(2) NewWorkerSession_def zero_meta_def GetCalcContractHandler_def NewNaiveCalcContractHandler_def)
qed

text \<open>The master accepts the worker and sends it the task.\<close>

lemma master_accepts:
  assumes "decode_with worker_res_msg_c (an_Data m1) = Inr \<lparr>wr_WorkerID = w, wr_MasterID = ss_mid s, wr_TaskID = st_ID (ss_taskInfo s)\<rparr>"
    and "ss_peers s w = None" and "\<not> ss_returned s"
    and "st_FileInfo (ss_taskInfo s) = Some fi" and "st_ExecuteInfo (ss_taskInfo s) = Some ei"
    and "c_wf task_file_meta_info_c fi" and "c_wf task_execute_info_c ei"
    and "bytes20 (ss_mid s)" and "bytes20 (st_ID (ss_taskInfo s))"
  obtains m2 where
    "master_step (EvPeerRes (received w m1)) (s, c) = Inr ([MNet (NetSendTo w m2)],
       s\<lparr>ss_peers := (ss_peers s)(w \<mapsto> (NewPeerTaskInfo (genConfoundKey s w) STPEER_ACCEPT)\<lparr>pt_State := STPEER_RUNNING\<rparr>)\<rparr>, c)"
    "decode_with task_meta_info_c (an_Data m2) = Inr \<lparr>tm_MasterID = ss_mid s, tm_TaskID = st_ID (ss_taskInfo s),
       tm_ConfoundKey = genConfoundKey s w, tm_Sign = [], tm_FileInfo = fi, tm_ExecuteInfo = ei\<rparr>"
proof -
  let ?meta = "\<lparr>tm_MasterID = ss_mid s, tm_TaskID = st_ID (ss_taskInfo s),
     tm_ConfoundKey = genConfoundKey s w, tm_Sign = [], tm_FileInfo = fi, tm_ExecuteInfo = ei\<rparr>"
  have "c_wf task_meta_info_c ?meta" using assms(6-9) by (simp add: genConfoundKey_def)
  then obtain bs where bs: "encode_with task_meta_info_c ?meta = Inr bs" "decode_with task_meta_info_c bs = Inr ?meta"
    using task_meta_info.encode_total by blast
  have meta: "NewTaskMetaInfo (ss_mid s) (st_ID (ss_taskInfo s)) (genConfoundKey s w) (genSign s w)
      (st_FileInfo (ss_taskInfo s)) (st_ExecuteInfo (ss_taskInfo s)) = Inr ?meta"
    using assms(4,5) by (simp add: NewTaskMetaInfo_def genSign_def)
  have "handle_peer_res (received w m1) s = Inr ([MNet (appli_SendTo (ss_appliNetHandler s) w
         (ln_FromHandlerID (received w m1)) CPROC_META bs)],
      s\<lparr>ss_peers := (ss_peers s)(w \<mapsto> (NewPeerTaskInfo (genConfoundKey s w) STPEER_ACCEPT)\<lparr>pt_State := STPEER_RUNNING\<rparr>)\<rparr>)"
    using handle_peer_res_new [of "received w m1" "\<lparr>wr_WorkerID = w, wr_MasterID = ss_mid s,
      wr_TaskID = st_ID (ss_taskInfo s)\<rparr>" s ?meta bs] assms(1,2) meta bs(1) by simp
  then show thesis using assms(3) bs(2)
    by (intro that [of "NewAppliNetMsg (ah_id (ss_appliNetHandler s)) (ln_FromHandlerID (received w m1)) CPROC_META bs"])
      (simp_all add: master_step_def with_chain_def appli_SendTo_def)
qed

text \<open>The worker confounds its hashes and submits them to the contract.\<close>

definition survives :: "u8 list \<Rightarrow> hash_val \<Rightarrow> hash_val \<Rightarrow> bool" where
  "survives k h a \<longleftrightarrow> and_then (confound h k) (\<lambda>c. unconfound c k) = Inr a"

lemma confound_all:
  "list_all2 (survives k) hs as
    \<Longrightarrow> \<exists>cs. go_map (\<lambda>h. confound h k) hs = Inr cs \<and> list_all2 (\<lambda>c a. unconfound c k = Inr a) cs as"
  by (induction rule: list_all2_induct) (auto simp: survives_def and_then_Inr_iff)

lemma worker_submits:
  assumes "\<not> ws_returned s" and "list_all2 (survives (tm_ConfoundKey (ws_metaInfo s))) hs as"
    and "cc_contracts c (ch_address (ws_contractHandler s)) = Some \<lparr>cs_DeployInfo = r, cs_SubmitListeners = [mid \<mapsto> p2]\<rparr>"
  obtains cs where "list_all2 (\<lambda>c a. unconfound c (tm_ConfoundKey (ws_metaInfo s)) = Inr a) cs as"
    "worker_step nfs c (WkExecute [mid] (NewExecuteResult True hs)) s = (let call = NewCallResult True
       (ch_id (ws_contractHandler s)) [ArgBytes (tm_Sign (ws_metaInfo s)), ArgHashes cs]
       in Inr ([WCall p2 call, WCall (ws_submitResultChan s) call], s))"
proof -
  obtain cs where cs: "go_map (\<lambda>h. confound h (tm_ConfoundKey (ws_metaInfo s))) hs = Inr cs"
    "list_all2 (\<lambda>c a. unconfound c (tm_ConfoundKey (ws_metaInfo s)) = Inr a) cs as"
    using confound_all [OF assms(2)] by blast
  show thesis
    by (rule that [OF cs(2)])
      (use assms(1,3) cs(1) in \<open>simp add: worker_step_def handle_executed_def NewExecuteResult_def Submit_def Let_def\<close>)
qed

text \<open>The master counts the answers.\<close>

lemma master_counts:
  assumes "session_inv s" and "\<not> ss_returned s" and "ss_peers s w = Some info" and "pt_State info = STPEER_RUNNING"
    and "list_all2 (\<lambda>c h. unconfound c (pt_ConfoundKey info) = Inr h) cs hs" and "length hs = unit_cnt s" and "hs \<noteq> []"
  obtains effs s' where "master_step (EvPeerAnswer (NewCallResult True w [x, ArgHashes cs])) (s, c) = Inr (effs, s', c)"
    "ss_peers s' w = Some (info\<lparr>pt_State := STPEER_SUBMITTED, pt_Answers := replicate 20 0 # hs\<rparr>)"
    "ss_answerCnt s' = ss_answerCnt s + 1"
proof -
  let ?msg = "NewCallResult True w [x, ArgHashes cs]"
  have caller: "cl_Caller ?msg = w" "cl_Args ?msg = [x, ArgHashes cs]" by (simp_all add: NewCallResult_def)
  have sz: "sized s" using assms(1) by (auto elim: session_invE)
  have "length cs \<le> unit_cnt s" using assms(5,6) list_all2_lengthD by force
  then obtain s1 where s1: "submission ?msg s = Inr s1"
    using submission_total [of s ?msg info x cs hs] sz assms(3,5) caller by auto
  have run: "is_running s (cl_Caller ?msg)" using assms(3,4) by (simp add: is_running_def caller)
  obtain info' cs' as where sp: "ss_peers s (cl_Caller ?msg) = Some info'" "cl_Args ?msg ! 1 = ArgHashes cs'"
    "list_all2 (\<lambda>h a. unconfound h (pt_ConfoundKey info') = Inr a) cs' as"
    "ss_peers s1 = (ss_peers s)(cl_Caller ?msg \<mapsto> info'\<lparr>pt_State := STPEER_SUBMITTED, pt_Answers := replicate 20 0 # as\<rparr>)"
    "ss_answerCnt s1 = ss_answerCnt s + 1" "sized s1"
    "s1 = s\<lparr>ss_peers := ss_peers s1, ss_answerCnt := ss_answerCnt s1, ss_answers := ss_answers s1,
       ss_validAnswers := ss_validAnswers s1, ss_validAnswerCnt := ss_validAnswerCnt s1\<rparr>"
    by (rule submission_spec [OF assms(1) run s1]) blast
  have eq: "info' = info" "cs' = cs" using sp(1,2) assms(3) by (simp_all add: caller)
  have "as = hs" using sp(3) assms(5) unfolding eq by (induction cs arbitrary: as hs) (auto simp: list_all2_Cons1)
  have "unit_cnt s1 = unit_cnt s" unfolding unit_cnt_def by (subst sp(7)) simp
  then have "0 < length (ss_validAnswers s1)" "0 < length (ss_validAnswerCnt s1)"
    using sp(6) assms(6) assms(7) [folded length_greater_0_conv] by (simp_all add: sized_def)
  then have "\<exists>effs s'. check_termination s1 = Inr (effs, s')" by (simp add: check_termination_def)
  then obtain effs s' where ct: "check_termination s1 = Inr (effs, s')" by blast
  have s': "s' = s1 \<or> s' = s1\<lparr>ss_state := STASK_TERMINATING\<rparr>" using check_termination_spec [OF ct] by blast
  have "master_step (EvPeerAnswer ?msg) (s, c) = Inr (effs, s', c)"
    using assms(2) run s1 ct by (simp add: master_step_def with_chain_def handle_peer_answer_eq)
  then show thesis
    by (rule that) (use s' sp(4,5) eq \<open>as = hs\<close> in \<open>auto simp: caller\<close>)
qed

text \<open>C1: The whole protocol for one sub-task. A master deploys its contract and broadcasts the task;
  a worker that receives the broadcast validates the contract and answers; the master sends it the
  task with its confound key; the worker has its files purchased, runs the task when the files of the
  first group are stored, and submits the confounded hashes; the contract hands them to the master,
  which then records, behind the zero hash that every list starts with, what removing the key makes
  of the confounded hashes (the hashes themselves, within the bounds of \<open>confound_roundtrip\<close>) and has
  counted one answer. No step panics and every message is decoded as it was sent.\<close>
theorem task_end_to_end:
  assumes ids: "bytes20 mid" "bytes20 (st_ID t)" "bytes20 (wk_id wk)" "bytes20 (ch_address mch)"
    and self: "ch_id mch = mid" "cf_id (wk_contracts wk) = wk_id wk"
    and task: "length (st_Code t) < 2 ^ 32" "st_FileInfo t = Some fi" "st_ExecuteInfo t = Some ei"
      "c_wf task_file_meta_info_c fi" "c_wf task_execute_info_c ei"
    and files: "tf_KeyGroup fi = keys # groups" "set keys \<subseteq> dom (nf_db nfs)"
    and answers: "hs \<noteq> []" "length hs = unat (st_UnitTaskCnt t)"
      "list_all2 (survives (GenSHA1 (mid @ wk_id wk @ replicate 20 0))) hs as"
  shows "\<exists>r sM0 c1 m0 sM1 c2 sW0 wk' e' m1 sW1 m2 sM2 sW2 sW3 call effs sM3 peer.
      master_Start (NewSubTaskSession t mid mch ah p1 p2) c0 = (r, sM0, c1)
    \<and> master_step (EvDeploy r) (sM0, c1) = Inr ([MNet (NetBroadcast m0)], sM1, c2)
    \<and> worker_request c2 d1 d2 d3 (received mid m0) wk e = Inr (Some (r, sW0), wk', e')
    \<and> worker_step nfs c2 (WkValidate r) sW0 = Inr ([WNet (NetSendTo mid m1)], sW1)
    \<and> master_step (EvPeerRes (received (wk_id wk) m1)) (sM1, c2) = Inr ([MNet (NetSendTo (wk_id wk) m2)], sM2, c2)
    \<and> worker_step nfs c2 (WkMeta (received mid m2)) sW1 = Inr ([WPurchase (NewParalleledPurchaseInfo fi d2)], sW2)
    \<and> worker_step nfs c2 (WkPurchase ok) sW2 = Inr ([WExecute (st_Code t) ei], sW3)
    \<and> worker_step nfs c2 (WkExecute [mid] (NewExecuteResult True hs)) sW3 = Inr ([WCall p2 call, WCall d3 call], sW3)
    \<and> master_step (EvPeerAnswer call) (sM2, c2) = Inr (effs, sM3, c2)
    \<and> ss_peers sM3 (wk_id wk) = Some peer \<and> pt_State peer = STPEER_SUBMITTED
    \<and> pt_Answers peer = replicate 20 0 # as \<and> ss_answerCnt sM3 = 1"
proof -
  let ?w = "wk_id wk" and ?key = "GenSHA1 (mid @ wk_id wk @ replicate 20 0)"
  obtain r sM0 c1 m0 sM1 c2 where m: "master_Start (NewSubTaskSession t mid mch ah p1 p2) c0 = (r, sM0, c1)"
    "master_step (EvDeploy r) (sM0, c1) = Inr ([MNet (NetBroadcast m0)], sM1, c2)"
    "decode_with master_req_msg_c (an_Data m0) = Inr \<lparr>mr_MasterID = mid, mr_ContractAddr = dr_Address r, mr_Code = st_Code t\<rparr>"
    and r: "dr_OK r" "dr_Deployer r = mid" "dr_Args r = [ArgTaskID (st_ID t)]"
    "cc_contracts c2 (dr_Address r) = Some \<lparr>cs_DeployInfo = r, cs_SubmitListeners = [mid \<mapsto> p2]\<rparr>"
    and s1: "ss_mid sM1 = mid" "ss_taskInfo sM1 = t" "ss_peers sM1 = Map.empty" "ss_key sM1 = replicate 20 0"
    "\<not> ss_returned sM1" "session_inv sM1" "ss_answerCnt sM1 = 0"
    by (rule master_publishes [OF ids(1,4) self(1) task(1)])
  obtain sW0 wk' e' m1 sW1 where w: "worker_request c2 d1 d2 d3 (received mid m0) wk e = Inr (Some (r, sW0), wk', e')"
    "worker_step nfs c2 (WkValidate r) sW0 = Inr ([WNet (NetSendTo mid m1)], sW1)"
    "decode_with worker_res_msg_c (an_Data m1) = Inr \<lparr>wr_WorkerID = ?w, wr_MasterID = mid, wr_TaskID = st_ID t\<rparr>"
    and w1: "\<not> ws_returned sW1" "ws_state sW1 = WS_STARTED" "tm_MasterID (ws_metaInfo sW1) = mid"
    "tm_TaskID (ws_metaInfo sW1) = st_ID t" "ws_code sW1 = st_Code t" "ws_purchaseResultChan sW1 = d2"
    "ws_submitResultChan sW1 = d3" "ch_address (ws_contractHandler sW1) = dr_Address r"
    "ch_id (ws_contractHandler sW1) = cf_id (wk_contracts wk)"
    by (rule worker_answers [OF m(3) r(4,1-3) ids(1-3)])
  have key: "genConfoundKey sM1 ?w = ?key" by (simp add: genConfoundKey_def s1)
  let ?info = "(NewPeerTaskInfo ?key STPEER_ACCEPT)\<lparr>pt_State := STPEER_RUNNING\<rparr>"
  let ?sM2 = "sM1\<lparr>ss_peers := (ss_peers sM1)(?w \<mapsto> ?info)\<rparr>"
  let ?meta = "\<lparr>tm_MasterID = mid, tm_TaskID = st_ID t, tm_ConfoundKey = ?key, tm_Sign = [],
     tm_FileInfo = fi, tm_ExecuteInfo = ei\<rparr>"
  obtain m2 where a: "master_step (EvPeerRes (received ?w m1)) (sM1, c2) = Inr ([MNet (NetSendTo ?w m2)], ?sM2, c2)"
    "decode_with task_meta_info_c (an_Data m2) = Inr ?meta"
    by (rule master_accepts [of m1 ?w sM1 fi ei c2]) (use w(3) s1 task ids key in simp_all)
  let ?sW2 = "sW1\<lparr>ws_metaInfo := ?meta, ws_state := WS_FETCHING\<rparr>" and ?sW3 = "sW1\<lparr>ws_metaInfo := ?meta, ws_state := WS_RUNNING\<rparr>"
  have f: "worker_step nfs c2 (WkMeta (received mid m2)) sW1 = Inr ([WPurchase (NewParalleledPurchaseInfo fi d2)], ?sW2)"
    using worker_fetches [of sW1 "received mid m2" ?meta nfs c2] a(2) w1 by simp
  have x: "worker_step nfs c2 (WkPurchase ok) ?sW2 = Inr ([WExecute (st_Code t) ei], ?sW3)"
    using worker_runs [of ?sW2 keys groups nfs c2 ok] w1 files by simp
  obtain cs where cs: "list_all2 (\<lambda>c a. unconfound c ?key = Inr a) cs as"
    "worker_step nfs c2 (WkExecute [mid] (NewExecuteResult True hs)) ?sW3 = (let call = NewCallResult True
       ?w [ArgBytes [], ArgHashes cs] in Inr ([WCall p2 call, WCall d3 call], ?sW3))"
    by (rule worker_submits [of ?sW3 hs as c2 r mid p2 nfs]) (use w1 r(4) answers(3) self(2) in simp_all)
  have len: "length as = length hs" "as \<noteq> []" using answers(1,3) list_all2_lengthD by force+
  have inv: "session_inv ?sM2" by (rule session_inv_accept [OF s1(6)]) (simp add: s1)
  obtain effs sM3 where c: "master_step (EvPeerAnswer (NewCallResult True ?w [ArgBytes [], ArgHashes cs])) (?sM2, c2) = Inr (effs, sM3, c2)"
    "ss_peers sM3 ?w = Some (?info\<lparr>pt_State := STPEER_SUBMITTED, pt_Answers := replicate 20 0 # as\<rparr>)"
    "ss_answerCnt sM3 = ss_answerCnt ?sM2 + 1"
    by (rule master_counts [OF inv, of ?w ?info cs as "ArgBytes []" c2])
      (use s1 cs(1) answers len in \<open>simp_all add: NewPeerTaskInfo_def unit_cnt_def\<close>)
  show ?thesis
    by (intro exI conjI, rule m(1), rule m(2), rule w(1), rule w(2), rule a(1), rule f, rule x,
        rule cs(2) [unfolded Let_def], rule c(1), rule c(2)) (simp_all add: c(3) s1)
qed

subsection \<open>Witnesses\<close>

lemma confound_roundtrip_witness:
  "and_then (confound (1 # replicate 19 0) (replicate 20 0)) (\<lambda>c. unconfound c (replicate 20 0)) = Inr (1 # replicate 19 0)"
proof -
  have "big (replicate 20 0) = 0" "big (1 # replicate 19 0) < 2 ^ 159"
    by (simp_all add: be_nat_Cons be_nat_zeros)
  then show ?thesis
    using confound_roundtrip [of "1 # replicate 19 0" "replicate 20 0"] by (simp add: bytes20_def)
qed

lemma big_ones: "2 ^ 159 \<le> big (replicate 20 255)"
proof -
  have "big (255 # bs) = 255 * 256 ^ length bs + big bs" for bs by (simp add: be_nat_Cons)
  then have "2 ^ 159 \<le> big (255 # replicate 19 255)" by simp
  moreover have "255 # replicate 19 255 = replicate 20 (255 :: u8)" by (simp add: numeral_eq_Suc)
  ultimately show ?thesis by metis
qed


text \<open>Every key lets some hash survive.\<close>

lemma some_survivor:
  assumes "bytes20 k"
  shows "\<exists>h a. survives k h a"
proof (cases "2 ^ 152 + big k < 2 ^ 160")
  case True
  let ?h = "be_bytes 20 (2 ^ 152)"
  have h: "big ?h = 2 ^ 152" by (rule big_be_bytes) simp
  have b: "bytes20 ?h" by (simp add: bytes20_def del: be_bytes.simps)
  have "hd ?h \<noteq> 0" using big_hd [OF b] h by simp
  then have "survives k ?h ?h"
    using confound_unconfound [OF b assms] True unfolding survives_def h by simp
  then show ?thesis by blast
next
  case False
  let ?h = "replicate 20 255 :: u8 list"
  define n where "n = (big ?h + big k) div 256"
  define P :: nat where "P = 2 ^ 152"
  have P: "2 ^ 160 = 256 * P" "2 ^ 159 = 128 * P" "0 < P" by (simp_all add: P_def)
  have lt: "big ?h < 256 * P" "big k < 256 * P"
    using be_nat_less [of ?h] be_nat_less [of k] assms by (simp_all add: bytes20_def P_def)
  have k: "255 * P \<le> big k" "128 * P \<le> big ?h" using False big_ones P(1) unfolding P_def [symmetric] P by linarith+
  have m: "n * 256 \<le> big ?h + big k"
    unfolding n_def using div_times_less_eq_dividend [of "big ?h + big k" 256] by simp
  have n: "n < 2 * P" using m lt by linarith
  have ge: "2 ^ 160 \<le> big ?h + big k" using k P by linarith
  have c: "confound ?h k = Inr (be_bytes 20 n)"
    unfolding n_def by (rule confound_carry [OF bytes20_replicate assms ge])
  have "big (be_bytes 20 n) = n" by (rule big_be_bytes) (use n P in linarith)
  moreover have "big k = (big k - n) + n" using n k(1) by linarith
  ultimately have "unconfound (be_bytes 20 n) k = Inr (be_bytes 20 (big k - n))"
    using unconfound_be(2) [of "be_bytes 20 n" "big k - n" k] n k(1) lt(2) P(1) unfolding P_def [symmetric]
    by (simp del: be_bytes.simps)
  then have "survives k ?h (be_bytes 20 (big k - n))" using c by (simp add: survives_def del: be_bytes.simps)
  then show ?thesis by blast
qed

definition demo_task_sub :: sub_task where
  "demo_task_sub = NewSubTask demo_task [5] [] [] 0 1 1
     (Some (NewTaskFileMetaInfo [[]] [] [] [])) (Some (NewTaskExecuteInfo [] []))"

definition demo_worker_node :: worker where
  "demo_worker_node = NewWorker demo_id \<lparr>ah_id = 0, ah_listeners = Map.empty\<rparr> NewNaiveAppliNetHandlerFactory
     (NewNaiveCalcContractHandlerFactory demo_id) 3"

lemma demo_task_sub_sel [simp]:
  "st_ID demo_task_sub = demo_task" "st_Code demo_task_sub = [5]" "st_UnitTaskCnt demo_task_sub = 1"
  "st_FileInfo demo_task_sub = Some (NewTaskFileMetaInfo [[]] [] [] [])"
  "st_ExecuteInfo demo_task_sub = Some (NewTaskExecuteInfo [] [])"
  by (simp_all add: demo_task_sub_def NewSubTask_def)

lemma task_end_to_end_witness:
  "\<exists>h a call effs sM2 sM3 c2 peer. survives (GenSHA1 (demo_master @ demo_id @ replicate 20 0)) h a
    \<and> master_step (EvPeerAnswer call) (sM2, c2) = Inr (effs, sM3, c2)
    \<and> ss_peers sM3 demo_id = Some peer \<and> pt_Answers peer = [replicate 20 0, a] \<and> ss_answerCnt sM3 = 1"
proof -
  obtain h a where ha: "survives (GenSHA1 (demo_master @ demo_id @ replicate 20 0)) h a"
    using some_survivor [OF bytes20_GenSHA1] by blast
  have w: "wk_id demo_worker_node = demo_id" "cf_id (wk_contracts demo_worker_node) = demo_id"
    by (simp_all add: demo_worker_node_def NewWorker_def NewNaiveCalcContractHandlerFactory_def)
  let ?m = "NewNaiveCalcContractHandler demo_master" and ?t = demo_task_sub and ?w = demo_worker_node
    and ?fi = "NewTaskFileMetaInfo [[]] [] [] []" and ?ei = "NewTaskExecuteInfo [] []"
    and ?ah = "\<lparr>ah_id = 0, ah_listeners = Map.empty\<rparr>" and ?nfs = "NewNaiveFS \<lparr>ah_id = 0, ah_listeners = Map.empty\<rparr> \<lparr>hf_id = 0\<rparr>"
  have "\<exists>r sM0 c1 m0 sM1 c2 sW0 wk' e' m1 sW1 m2 sM2 sW2 sW3 call effs sM3 peer.
      master_Start (NewSubTaskSession ?t demo_master ?m ?ah 1 2) chain_init = (r, sM0, c1)
    \<and> master_step (EvDeploy r) (sM0, c1) = Inr ([MNet (NetBroadcast m0)], sM1, c2)
    \<and> worker_request c2 1 2 3 (received demo_master m0) ?w \<lparr>em_handlers = Map.empty, em_queue = []\<rparr> = Inr (Some (r, sW0), wk', e')
    \<and> worker_step ?nfs c2 (WkValidate r) sW0 = Inr ([WNet (NetSendTo demo_master m1)], sW1)
    \<and> master_step (EvPeerRes (received (wk_id ?w) m1)) (sM1, c2) = Inr ([MNet (NetSendTo (wk_id ?w) m2)], sM2, c2)
    \<and> worker_step ?nfs c2 (WkMeta (received demo_master m2)) sW1 = Inr ([WPurchase (NewParalleledPurchaseInfo ?fi 2)], sW2)
    \<and> worker_step ?nfs c2 (WkPurchase \<lparr>pq_ID = 1, pq_OK = True\<rparr>) sW2 = Inr ([WExecute (st_Code ?t) ?ei], sW3)
    \<and> worker_step ?nfs c2 (WkExecute [demo_master] (NewExecuteResult True [h])) sW3 = Inr ([WCall 2 call, WCall 3 call], sW3)
    \<and> master_step (EvPeerAnswer call) (sM2, c2) = Inr (effs, sM3, c2)
    \<and> ss_peers sM3 (wk_id ?w) = Some peer \<and> pt_State peer = STPEER_SUBMITTED
    \<and> pt_Answers peer = replicate 20 0 # [a] \<and> ss_answerCnt sM3 = 1"
    by (rule task_end_to_end [of _ _ _ _ _ _ "[]" "[]"])
      (use ha w in \<open>simp_all add: NewNaiveCalcContractHandler_def NewTaskFileMetaInfo_def NewTaskExecuteInfo_def\<close>)
  then obtain call effs sM2 sM3 c2 peer where "master_step (EvPeerAnswer call) (sM2, c2) = Inr (effs, sM3, c2)"
    "ss_peers sM3 (wk_id ?w) = Some peer" "pt_Answers peer = replicate 20 0 # [a]" "ss_answerCnt sM3 = 1"
    by (elim exE conjE) (rule that)
  then show ?thesis using ha w
    by (intro exI [of _ h] exI [of _ a] exI [of _ call] exI [of _ effs] exI [of _ sM2] exI [of _ sM3] exI [of _ c2]
        exI [of _ peer] conjI) simp_all
qed

end
