(* ===== verification/Share_Session.thy ===== *)
theory Share_Session
  imports File_Store
begin

text \<open>
  \<open>src/src/fs/share.go\<close>: the session that offers files to a set of peers and sends them to those who
  accept, and the session that receives offered files. A \<open>step\<close> function is one turn of the
  \<open>select\<close> of \<open>run\<close>; the timer field is the duration of an armed timer, \<open>None\<close> when it is stopped (a
  stopped timer does not fire); the flag says that \<open>run\<close> has returned. The result carries the map
  \<open>peerState\<close> itself, which no later event changes.
\<close>

definition NewShareRequest :: "unit \<Rightarrow> u32 \<Rightarrow> hash_val \<Rightarrow> u32 \<Rightarrow> share_request_msg" where
  "NewShareRequest ori i hash sz = \<lparr>sr_Origin = ori, sr_ID = i, sr_Hash = hash, sr_Size = sz\<rparr>"

subsection \<open>\<open>ShareSession\<close>\<close>

record share_session =
  sh_id :: u32
  sh_info :: file_share_info
  sh_peerState :: "node_id \<rightharpoonup> share_session_state"
  sh_sendingCnt :: u32
  sh_handler :: appli_handler
  sh_timer :: "i64 option"
  sh_acceptMsgChan :: chan
  sh_sendResultChan :: chan
  sh_returned :: bool

definition NewShareSession :: "u32 \<Rightarrow> file_share_info \<Rightarrow> appli_handler \<Rightarrow> chan \<Rightarrow> chan \<Rightarrow> share_session" where
  "NewShareSession i shareInfo handler acceptChan sendChan =
     \<lparr>sh_id = i, sh_info = shareInfo,
      sh_peerState = fold (\<lambda>peer m. m(peer \<mapsto> SHARE_ST)) (si_Peers shareInfo) Map.empty,
      sh_sendingCnt = word_of_nat (length (si_Peers shareInfo)), sh_handler = handler, sh_timer = None,
      sh_acceptMsgChan = acceptChan, sh_sendResultChan = sendChan, sh_returned = False\<rparr>"

definition share_Start :: "naive_fs \<Rightarrow> share_session \<Rightarrow> (share_result fs_effect list \<times> share_session) go" where
  "share_Start nfs s =
     (let handler = AddListener SPROC_SENDER (sh_acceptMsgChan s) (sh_handler s) in
      and_then (go_map (fs_Get nfs) (si_Keys (sh_info s))) (\<lambda>datas.
        let totData = concat datas;
            msg = NewShareRequest (si_Origin (sh_info s)) (sh_id s) (GenSHA1 totData) (word_of_nat (length totData))
        in and_then (encode_with share_request_msg_c msg) (\<lambda>data.
             Inr (map (\<lambda>peer. FNet (appli_SendTo handler peer StaticHandlerID SPROC_WAIT data)) (si_Peers (sh_info s)),
                  s\<lparr>sh_handler := handler,
                    sh_peerState := fold (\<lambda>peer m. m(peer \<mapsto> SHARE_ST)) (si_Peers (sh_info s)) (sh_peerState s),
                    sh_timer := Some (2 * EstimateTimeOut (sr_Size msg))\<rparr>))))"

definition share_terminate :: "share_session \<Rightarrow> share_result fs_effect list \<times> share_session" where
  "share_terminate s =
     ([FResult (NewShareResult (sh_id s) (si_Keys (sh_info s)) (sh_peerState s))], s\<lparr>sh_timer := None\<rparr>)"

text \<open>The index of the peer in the list of peers, 0 when it is not there.\<close>

fun peer_index :: "node_id \<Rightarrow> node_id list \<Rightarrow> nat \<Rightarrow> u32" where
  "peer_index peerID [] i = 0"
| "peer_index peerID (p # ps) i = (if p = peerID then word_of_nat i else peer_index peerID ps (Suc i))"

definition share_accept :: "naive_fs \<Rightarrow> listener_net_msg \<Rightarrow> share_session
    \<Rightarrow> (share_result fs_effect list \<times> share_session) go" where
  "share_accept nfs msg s =
     and_then (decode_with share_accept_msg_c (ln_Data msg)) (\<lambda>acceptMsg.
       let peerID = ln_FromPeerID msg in
       if sh_peerState s peerID = Some SHARE_ST then
         (let i = peer_index peerID (si_Peers (sh_info s)) 0 in
          and_then (go_map (fs_Get nfs) (si_Keys (sh_info s))) (\<lambda>datas.
          and_then (encode_with data_pack_c \<lparr>dp_Keys = si_Keys (sh_info s), dp_Data = datas\<rparr>) (\<lambda>data.
            Inr ([FNet (appli_ReliableSendTo (sh_handler s) peerID (ln_FromHandlerID msg) SPROC_RECEIVER
                    data i (sh_sendResultChan s))],
                 s\<lparr>sh_peerState := (sh_peerState s)(peerID \<mapsto> SHARE_SENDING)\<rparr>))))
       else Inr ([], s))"

definition share_sent :: "send_result \<Rightarrow> share_session \<Rightarrow> share_result fs_effect list \<times> share_session" where
  "share_sent result s =
     (if sd_OK result \<and> sh_peerState s (sd_DstPeerID result) = Some SHARE_SENDING then
        (let s' = s\<lparr>sh_peerState := (sh_peerState s)(sd_DstPeerID result \<mapsto> SHARE_FINISHED),
                sh_sendingCnt := sh_sendingCnt s - 1\<rparr>
         in if sh_sendingCnt s' = 0 then share_terminate s' else ([], s'))
      else ([], s))"

definition share_return :: "share_session \<Rightarrow> share_result fs_effect list \<times> share_session" where
  "share_return s = (let (effs, s') = share_terminate s in (effs, s'\<lparr>sh_returned := True\<rparr>))"

datatype share_event = ShAccept listener_net_msg | ShSent send_result | ShTimer | ShCtrl

fun share_select :: "naive_fs \<Rightarrow> share_event \<Rightarrow> share_session
    \<Rightarrow> (share_result fs_effect list \<times> share_session) go" where
  "share_select nfs (ShAccept msg) s = share_accept nfs msg s"
| "share_select nfs (ShSent result) s = Inr (share_sent result s)"
| "share_select nfs ShTimer s = Inr (if sh_timer s = None then ([], s) else share_return s)"
| "share_select nfs ShCtrl s = Inr (share_return s)"

definition share_step :: "naive_fs \<Rightarrow> share_event \<Rightarrow> share_session
    \<Rightarrow> (share_result fs_effect list \<times> share_session) go" where
  "share_step nfs ev s = (if sh_returned s then Inr ([], s) else share_select nfs ev s)"

subsection \<open>\<open>ShareRecvSession\<close>\<close>

record share_recv_session =
  sv_id :: u32
  sv_hash :: hash_val
  sv_size :: u32
  sv_senderID :: node_id
  sv_senderHandlerID :: u16
  sv_handler :: appli_handler
  sv_timer :: "i64 option"
  sv_dataChan :: chan
  sv_returned :: bool

definition NewShareRecvSession :: "u32 \<Rightarrow> hash_val \<Rightarrow> u32 \<Rightarrow> node_id \<Rightarrow> u16 \<Rightarrow> appli_handler \<Rightarrow> chan
    \<Rightarrow> share_recv_session" where
  "NewShareRecvSession i hash sz senderID senderHandlerID handler dataChan =
     \<lparr>sv_id = i, sv_hash = hash, sv_size = sz, sv_senderID = senderID, sv_senderHandlerID = senderHandlerID,
      sv_handler = handler, sv_timer = None, sv_dataChan = dataChan, sv_returned = False\<rparr>"

definition recv_Start :: "share_recv_session \<Rightarrow> (share_recv_result fs_effect list \<times> share_recv_session) go" where
  "recv_Start s =
     (let handler = AddListener SPROC_RECEIVER (sv_dataChan s) (sv_handler s) in
      and_then (encode_with share_accept_msg_c \<lparr>sa_ID = sv_id s, sa_Hash = sv_hash s\<rparr>) (\<lambda>data.
        Inr ([FNet (appli_SendTo handler (sv_senderID s) (sv_senderHandlerID s) SPROC_SENDER data)],
             s\<lparr>sv_handler := handler, sv_timer := Some (EstimateTimeOut (sv_size s))\<rparr>)))"

definition recv_return :: "bool \<Rightarrow> go_string list \<Rightarrow> share_recv_session
    \<Rightarrow> share_recv_result fs_effect list \<times> share_recv_session" where
  "recv_return ok keys s =
     ([FResult (NewShareRecvRsult ok (sv_senderID s) keys)], s\<lparr>sv_timer := None, sv_returned := True\<rparr>)"

text \<open>The bytes of a pack, indexed by its keys, and the loop that stores them.\<close>

definition pack_data :: "data_pack \<Rightarrow> u8 list go" where
  "pack_data pack = and_then (go_map (go_index (dp_Data pack)) [0..<length (dp_Keys pack)])
     (\<lambda>datas. Inr (concat datas))"

definition store_pack :: "(go_string \<Rightarrow> u8 list \<Rightarrow> naive_fs \<Rightarrow> naive_fs) \<Rightarrow> data_pack \<Rightarrow> naive_fs \<Rightarrow> naive_fs go" where
  "store_pack set_file pack nfs = go_fold (\<lambda>(i, key) nfs.
     and_then (go_index (dp_Data pack) i) (\<lambda>data. Inr (set_file key data nfs)))
     (enumerate 0 (dp_Keys pack)) nfs"

definition recv_data :: "listener_net_msg \<Rightarrow> share_recv_session \<Rightarrow> naive_fs
    \<Rightarrow> ((share_recv_result fs_effect list \<times> share_recv_session) \<times> naive_fs) go" where
  "recv_data msg s nfs =
     and_then (decode_with data_pack_c (ln_Data msg)) (\<lambda>dataPack.
     and_then (pack_data dataPack) (\<lambda>totData.
       if GenSHA1 totData = sv_hash s then
         and_then (store_pack (\<lambda>k v. SetWithInfo k v \<lparr>fi_Owner = sv_senderID s, fi_Peers = Map.empty\<rparr>) dataPack nfs)
           (\<lambda>nfs'. Inr (recv_return True (dp_Keys dataPack) s, nfs'))
       else Inr (recv_return False (dp_Keys dataPack) s, nfs)))"

datatype recv_event = RvData listener_net_msg | RvTimer | RvCtrl

fun recv_select :: "recv_event \<Rightarrow> share_recv_session \<Rightarrow> naive_fs
    \<Rightarrow> ((share_recv_result fs_effect list \<times> share_recv_session) \<times> naive_fs) go" where
  "recv_select (RvData msg) s nfs = recv_data msg s nfs"
| "recv_select RvTimer s nfs = Inr (if sv_timer s = None then ([], s) else recv_return False [] s, nfs)"
| "recv_select RvCtrl s nfs = Inr (recv_return False [] s, nfs)"

definition recv_step :: "recv_event \<Rightarrow> share_recv_session \<Rightarrow> naive_fs
    \<Rightarrow> ((share_recv_result fs_effect list \<times> share_recv_session) \<times> naive_fs) go" where
  "recv_step ev s nfs = (if sv_returned s then Inr (([], s), nfs) else recv_select ev s nfs)"

subsection \<open>Packs\<close>

lemma pack_data_ok:
  "length (dp_Keys pack) \<le> length (dp_Data pack) \<Longrightarrow> pack_data pack = Inr (concat (take (length (dp_Keys pack)) (dp_Data pack)))"
  by (simp add: pack_data_def go_map_index_take)

lemma pack_data_short: "length (dp_Data pack) < length (dp_Keys pack) \<Longrightarrow> pack_data pack = Inl IndexOutOfRange"
  by (simp add: pack_data_def go_map_index_short)

lemma store_pack_ok:
  "length (dp_Keys pack) \<le> length (dp_Data pack) \<Longrightarrow>
    store_pack f pack nfs = Inr (fold (\<lambda>(k, v). f k v) (zip (dp_Keys pack) (dp_Data pack)) nfs)"
  using go_fold_index [of 0 "dp_Keys pack" "dp_Data pack" f nfs] by (simp add: store_pack_def)

text \<open>What arrives is stored unless there is a file of that name already.\<close>

lemma store_shared_db:
  "nf_db (fold (\<lambda>(k, v). SetWithInfo k v info) kvs nfs) k
     = (case nf_db nfs k of Some v \<Rightarrow> Some v | None \<Rightarrow> map_of kvs k)"
  using shared_files.load_store_all [of info kvs nfs k] by (simp add: shared_files.store_all_def)

lemma recv_data_eq:
  assumes "decode_with data_pack_c (ln_Data msg) = Inr pack"
  shows "recv_data msg s nfs =
    (if length (dp_Data pack) < length (dp_Keys pack) then Inl IndexOutOfRange
     else if GenSHA1 (concat (take (length (dp_Keys pack)) (dp_Data pack))) = sv_hash s
     then Inr (recv_return True (dp_Keys pack) s,
       fold (\<lambda>(k, v). SetWithInfo k v \<lparr>fi_Owner = sv_senderID s, fi_Peers = Map.empty\<rparr>)
         (zip (dp_Keys pack) (dp_Data pack)) nfs)
     else Inr (recv_return False (dp_Keys pack) s, nfs))"
  using assms by (simp add: recv_data_def pack_data_short pack_data_ok store_pack_ok)

subsection \<open>Receiving\<close>

lemma recv_return_sel [simp]:
  "recv_return ok keys s = (effs, s') \<longleftrightarrow> effs = [FResult (NewShareRecvRsult ok (sv_senderID s) keys)]
     \<and> s' = s\<lparr>sv_timer := None, sv_returned := True\<rparr>"
  by (auto simp: recv_return_def)

text \<open>C33: A receiving session ends with the first data that arrives, and reports one result. The
  result is OK exactly when the data of the pack, concatenated, has the hash that was offered; only
  then files are stored, each under its key of the pack, and a file that was there is never changed.\<close>
theorem received_files_match_offer:
  assumes "\<not> sv_returned s" and "recv_step (RvData msg) s nfs = Inr ((effs, s'), nfs')"
    and "decode_with data_pack_c (ln_Data msg) = Inr pack"
  shows "sv_returned s' \<and>
    (let ok = (GenSHA1 (concat (take (length (dp_Keys pack)) (dp_Data pack))) = sv_hash s)
     in effs = [FResult (NewShareRecvRsult ok (sv_senderID s) (dp_Keys pack))]
      \<and> (\<forall>k. nf_db nfs' k = (case nf_db nfs k of Some v \<Rightarrow> Some v
            | None \<Rightarrow> if ok then map_of (zip (dp_Keys pack) (dp_Data pack)) k else None)))"
proof -
  have "recv_data msg s nfs = Inr ((effs, s'), nfs')" using assms(1,2) by (simp add: recv_step_def)
  then show ?thesis
    by (auto simp: recv_data_eq [OF assms(3)] store_shared_db Let_def split: if_splits option.split)
qed

text \<open>A pack that names more keys than it has data panics the receiving node, whatever its hash.\<close>
theorem short_pack_panics_receiver:
  assumes "\<not> sv_returned s" and "decode_with data_pack_c (ln_Data msg) = Inr pack"
    and "length (dp_Data pack) < length (dp_Keys pack)"
  shows "recv_step (RvData msg) s nfs = Inl IndexOutOfRange"
  using assms by (simp add: recv_step_def recv_data_eq)

subsection \<open>Sending\<close>

lemma fold_SHARE_ST: "fold (\<lambda>peer m. m(peer \<mapsto> SHARE_ST)) ps m = (\<lambda>p. if p \<in> set ps then Some SHARE_ST else m p)"
  by (induction ps arbitrary: m) (auto simp: fun_eq_iff)

inductive share_reach :: "share_session \<Rightarrow> share_session \<Rightarrow> bool" for s0 where
  share_init: "share_reach s0 s0"
| share_next: "share_reach s0 s \<Longrightarrow> share_step nfs ev s = Inr (effs, s') \<Longrightarrow> share_reach s0 s'"

definition unfinished :: "share_session \<Rightarrow> node_id set" where
  "unfinished s = {p \<in> set (si_Peers (sh_info s)). sh_peerState s p \<noteq> Some SHARE_FINISHED}"

definition share_inv :: "share_session \<Rightarrow> bool" where
  "share_inv s \<longleftrightarrow> dom (sh_peerState s) = set (si_Peers (sh_info s))
     \<and> unat (sh_sendingCnt s) = card (unfinished s) \<and> ran (sh_peerState s) \<subseteq> {SHARE_ST, SHARE_SENDING, SHARE_FINISHED}"

lemma share_Start_session:
  assumes "share_Start nfs (NewShareSession i info h c1 c2) = Inr (effs, s0)"
  shows "sh_info s0 = info" "sh_id s0 = i" "sh_peerState s0 = (\<lambda>p. if p \<in> set (si_Peers info) then Some SHARE_ST else None)"
    "sh_sendingCnt s0 = word_of_nat (length (si_Peers info))" "\<not> sh_returned s0"
    "sh_handler s0 = AddListener SPROC_SENDER c1 h" "sh_sendResultChan s0 = c2"
  using assms by (auto simp: share_Start_def NewShareSession_def and_then_Inr_iff Let_def fold_SHARE_ST)

lemma share_Start_inv:
  assumes "share_Start nfs (NewShareSession i info h c1 c2) = Inr (effs, s0)"
    and "distinct (si_Peers info)" and "length (si_Peers info) < 2 ^ 32"
  shows "share_inv s0"
  using share_Start_session [OF assms(1)] assms(2,3)
  by (auto simp: share_inv_def unfinished_def unat_word_of_nat distinct_card ran_def split: if_splits)

lemma finished_one:
  assumes "share_inv s" and "sh_peerState s p = Some SHARE_SENDING"
  defines "s' \<equiv> s\<lparr>sh_peerState := (sh_peerState s)(p \<mapsto> SHARE_FINISHED), sh_sendingCnt := sh_sendingCnt s - 1\<rparr>"
  shows "share_inv s'" and "unfinished s' = unfinished s - {p}" and "p \<in> unfinished s"
proof -
  show p: "p \<in> unfinished s" using assms(1,2) by (auto simp: share_inv_def unfinished_def)
  show u: "unfinished s' = unfinished s - {p}" by (auto simp: s'_def unfinished_def)
  have "finite (unfinished s)" by (simp add: unfinished_def)
  then have c: "card (unfinished s') = card (unfinished s) - 1" "0 < card (unfinished s)"
    using p u by (auto simp: card_gt_0_iff)
  then have "sh_sendingCnt s \<noteq> 0" using assms(1) by (auto simp: share_inv_def)
  then have "unat (sh_sendingCnt s - 1) = unat (sh_sendingCnt s) - 1" by (rule unat_minus_one)
  moreover have "ran ((sh_peerState s)(p \<mapsto> SHARE_FINISHED)) \<subseteq> {SHARE_ST, SHARE_SENDING, SHARE_FINISHED}"
    using assms(1) by (auto simp: share_inv_def ran_def split: if_splits)
  moreover have "dom ((sh_peerState s)(p \<mapsto> SHARE_FINISHED)) = set (si_Peers (sh_info s))"
    using assms(1,2) by (auto simp: share_inv_def)
  ultimately show "share_inv s'" using assms(1) c by (simp add: share_inv_def s'_def)
qed

lemma share_inv_frame [simp]:
  "share_inv (s\<lparr>sh_timer := t\<rparr>) = share_inv s" "share_inv (s\<lparr>sh_timer := t, sh_returned := b\<rparr>) = share_inv s"
  by (simp_all add: share_inv_def unfinished_def)

lemma share_terminate_sel [simp]: "share_terminate s = (effs, s') \<longleftrightarrow>
    effs = [FResult (NewShareResult (sh_id s) (si_Keys (sh_info s)) (sh_peerState s))] \<and> s' = s\<lparr>sh_timer := None\<rparr>"
  by (auto simp: share_terminate_def)

lemma share_accept_session:
  assumes "share_accept nfs msg s = Inr (effs, s')"
  shows "s' = s \<or> sh_peerState s (ln_FromPeerID msg) = Some SHARE_ST
    \<and> s' = s\<lparr>sh_peerState := (sh_peerState s)(ln_FromPeerID msg \<mapsto> SHARE_SENDING)\<rparr>"
  using assms by (auto simp: share_accept_def and_then_Inr_iff Let_def split: if_splits)

lemma share_step_inv [inv_intros]:
  assumes "share_inv s" and "share_step nfs ev s = Inr (effs, s')"
  shows "share_inv s'" and "sh_info s' = sh_info s" and "sh_id s' = sh_id s"
proof -
  have step: "s' = s \<or> share_select nfs ev s = Inr (effs, s')"
    using assms(2) by (auto simp: share_step_def split: if_splits)
  have "share_inv s' \<and> sh_info s' = sh_info s \<and> sh_id s' = sh_id s" if st: "share_select nfs ev s = Inr (effs, s')"
  proof (cases ev)
    case (ShAccept msg)
    from st ShAccept have acc: "share_accept nfs msg s = Inr (effs, s')" by simp
    have "share_inv (s\<lparr>sh_peerState := (sh_peerState s)(p \<mapsto> SHARE_SENDING)\<rparr>)" if "sh_peerState s p = Some SHARE_ST" for p
    proof -
      have "unfinished (s\<lparr>sh_peerState := (sh_peerState s)(p \<mapsto> SHARE_SENDING)\<rparr>) = unfinished s"
        using that by (auto simp: unfinished_def)
      moreover have "dom ((sh_peerState s)(p \<mapsto> SHARE_SENDING)) = set (si_Peers (sh_info s))"
        using assms(1) that by (auto simp: share_inv_def)
      ultimately show ?thesis using assms(1) by (auto simp: share_inv_def ran_def split: if_splits)
    qed
    then show ?thesis using share_accept_session [OF acc] assms(1) by auto
  next
    case (ShSent r)
    then show ?thesis
      using st finished_one(1) [OF assms(1)] assms(1)
      by (auto simp: share_sent_def Let_def split: if_splits)
  qed (use st assms(1) in \<open>auto simp: share_return_def split: if_splits prod.splits\<close>)
  with step assms(1) show "share_inv s'" "sh_info s' = sh_info s" "sh_id s' = sh_id s" by auto
qed

lemma share_reach_inv:
  assumes "share_reach s0 s" and "share_inv s0"
  shows "share_inv s \<and> sh_info s = sh_info s0 \<and> sh_id s = sh_id s0"
  using assms by (induction rule: share_reach.induct) (auto dest: share_step_inv)

text \<open>In every reachable state of a sharing session with distinct peers, a delivery report ends
  the session with a result exactly when it is the one after which every peer has received the
  files; the result has the session's id and keys and the delivery state of every peer.\<close>
theorem share_result_at_last_delivery:
  assumes "share_Start nfs (NewShareSession i info h c1 c2) = Inr (effs0, s0)"
    and "distinct (si_Peers info)" and "length (si_Peers info) < 2 ^ 32"
    and "share_reach s0 s" and "\<not> sh_returned s" and "share_step nfs' (ShSent result) s = Inr (effs, s')"
  shows "effs = (if (\<forall>p \<in> set (si_Peers info). sh_peerState s' p = Some SHARE_FINISHED)
      \<and> (\<exists>p \<in> set (si_Peers info). sh_peerState s p \<noteq> Some SHARE_FINISHED)
    then [FResult (NewShareResult i (si_Keys info) (sh_peerState s'))] else [])
    \<and> {p \<in> set (si_Peers info). sh_peerState s' p \<noteq> Some SHARE_FINISHED} =
      {p \<in> set (si_Peers info). sh_peerState s p \<noteq> Some SHARE_FINISHED}
        - (if sd_OK result \<and> sh_peerState s (sd_DstPeerID result) = Some SHARE_SENDING then {sd_DstPeerID result} else {})"
proof -
  have inv: "share_inv s" "sh_info s = info" "sh_id s = i"
    using share_reach_inv [OF assms(4) share_Start_inv [OF assms(1-3)]] share_Start_session [OF assms(1)] by auto
  have st: "share_sent result s = (effs, s')" using assms(5,6) by (simp add: share_step_def)
  have un: "{p \<in> set (si_Peers info). sh_peerState t p \<noteq> Some SHARE_FINISHED} = unfinished t" if "sh_info t = info" for t
    using that by (auto simp: unfinished_def)
  show ?thesis
  proof (cases "sd_OK result \<and> sh_peerState s (sd_DstPeerID result) = Some SHARE_SENDING")
    case True
    let ?p = "sd_DstPeerID result"
    let ?s = "s\<lparr>sh_peerState := (sh_peerState s)(?p \<mapsto> SHARE_FINISHED), sh_sendingCnt := sh_sendingCnt s - 1\<rparr>"
    have send: "sh_peerState s ?p = Some SHARE_SENDING" using True by simp
    note f = finished_one [OF inv(1) send]
    have zero: "sh_sendingCnt ?s = 0 \<longleftrightarrow> unfinished ?s = {}"
      using f(1) by (auto simp: share_inv_def unfinished_def unat_eq_0 [symmetric] simp del: unat_eq_0)
    have eq: "effs = (if unfinished ?s = {} then [FResult (NewShareResult i (si_Keys info) (sh_peerState ?s))] else [])"
      "sh_peerState s' = sh_peerState ?s" "sh_info s' = info"
      using st True zero inv by (auto simp: share_sent_def Let_def share_terminate_def split: if_splits)
    have all: "(\<forall>p \<in> set (si_Peers info). sh_peerState s' p = Some SHARE_FINISHED) \<longleftrightarrow> unfinished ?s = {}"
      using eq(2) inv(2) by (auto simp: unfinished_def)
    have ex: "\<exists>p \<in> set (si_Peers info). sh_peerState s p \<noteq> Some SHARE_FINISHED"
      using f(3) inv(2) by (auto simp: unfinished_def)
    have "unfinished s' = unfinished s - {?p}"
      using f(2) eq(2,3) inv(2) by (simp add: unfinished_def)
    moreover have "effs = (if unfinished ?s = {} then [FResult (NewShareResult i (si_Keys info) (sh_peerState s'))] else [])"
      using eq(1,2) by simp
    ultimately show ?thesis
      unfolding un [OF eq(3)] un [OF inv(2)] all using ex True by auto
  next
    case False
    then show ?thesis using st by (auto simp: share_sent_def)
  qed
qed

subsection \<open>Sharing from end to end\<close>

definition shareable :: "naive_fs \<Rightarrow> go_string list \<Rightarrow> bool" where
  "shareable nfs keys \<longleftrightarrow> length keys < 2 ^ 32 \<and> set keys \<subseteq> dom (nf_db nfs)
     \<and> (\<forall>k \<in> set keys. length k < 2 ^ 32 \<and> length (the (nf_db nfs k)) < 2 ^ 32)"

lemma shareable_pack:
  assumes "shareable nfs keys"
  shows "\<exists>bs. encode_with data_pack_c \<lparr>dp_Keys = keys, dp_Data = map (\<lambda>k. the (nf_db nfs k)) keys\<rparr> = Inr bs
    \<and> decode_with data_pack_c bs = Inr \<lparr>dp_Keys = keys, dp_Data = map (\<lambda>k. the (nf_db nfs k)) keys\<rparr>"
  using assms by (intro data_pack.encode_total) (simp add: shareable_def list_all_iff)

lemma ah_id_AddListener [simp]: "ah_id (AddListener l c h) = ah_id h"
  by (simp add: AddListener_def)

lemma pack_hash_files:
  "concat (take (length keys) (map f keys)) = concat (map f keys)"
  by simp

text \<open>C11: Sharing works end to end. A node that has the files \<open>Keys\<close> starts a session: its request
  reaches every peer of the list; the receiving session built from the decoded request answers the
  sender's handler; on that answer the sender sends one pack to the receiver's handler; when the
  pack arrives the receiver reports success and then has, for every key, the file it had before or
  else the sender's file, and no other new file.\<close>
theorem share_end_to_end:
  assumes "shareable nfsA (si_Keys info)" and "peer \<in> set (si_Peers info)"
  shows "\<exists>effs sA m1 req sB m2 sA' m3 n sB' nfsB'.
    share_Start nfsA (NewShareSession i info hA c1 c2) = Inr (effs, sA)
    \<and> FNet (NetSendTo peer m1) \<in> set effs \<and> an_DstListenerID m1 = SPROC_WAIT
    \<and> decode_with share_request_msg_c (an_Data m1) = Inr req
    \<and> recv_Start (NewShareRecvSession (sr_ID req) (sr_Hash req) (sr_Size req) a (an_SrcHandlerID m1) hB c3)
        = Inr ([FNet (NetSendTo a m2)], sB)
    \<and> an_DstHandlerID m2 = ah_id hA \<and> an_DstListenerID m2 = SPROC_SENDER
    \<and> share_step nfsA (ShAccept \<lparr>ln_FromPeerID = peer, ln_FromHandlerID = an_SrcHandlerID m2, ln_Data = an_Data m2\<rparr>) sA
        = Inr ([FNet (NetReliableSendTo peer m3 n c2)], sA')
    \<and> an_DstHandlerID m3 = ah_id hB \<and> an_DstListenerID m3 = SPROC_RECEIVER
    \<and> recv_step (RvData \<lparr>ln_FromPeerID = a, ln_FromHandlerID = an_SrcHandlerID m3, ln_Data = an_Data m3\<rparr>) sB nfsB
        = Inr (([FResult (NewShareRecvRsult True a (si_Keys info))], sB'), nfsB')
    \<and> (\<forall>k. nf_db nfsB' k = (case nf_db nfsB k of Some v \<Rightarrow> Some v
          | None \<Rightarrow> if k \<in> set (si_Keys info) then nf_db nfsA k else None))"
proof -
  let ?keys = "si_Keys info" and ?file = "\<lambda>k. the (nf_db nfsA k)"
  let ?tot = "concat (map ?file ?keys)" and ?hA = "AddListener SPROC_SENDER c1 hA"
  let ?req = "NewShareRequest (si_Origin info) i (GenSHA1 ?tot) (word_of_nat (length ?tot))"
  let ?pack = "\<lparr>dp_Keys = ?keys, dp_Data = map ?file ?keys\<rparr>"
  have get: "go_map (fs_Get nfsA) ?keys = Inr (map ?file ?keys)"
    using assms(1) fs_Get_total by (simp add: shareable_def)
  obtain rbs where rbs: "encode_with share_request_msg_c ?req = Inr rbs" "decode_with share_request_msg_c rbs = Inr ?req"
    using share_request_msg.encode_total [of ?req] by (auto simp: NewShareRequest_def)
  obtain abs where abs: "encode_with share_accept_msg_c \<lparr>sa_ID = i, sa_Hash = GenSHA1 ?tot\<rparr> = Inr abs"
    "decode_with share_accept_msg_c abs = Inr \<lparr>sa_ID = i, sa_Hash = GenSHA1 ?tot\<rparr>"
    using share_accept_msg.encode_total [of "\<lparr>sa_ID = i, sa_Hash = GenSHA1 ?tot\<rparr>"] by auto
  obtain pbs where pbs: "encode_with data_pack_c ?pack = Inr pbs" "decode_with data_pack_c pbs = Inr ?pack"
    using shareable_pack [OF assms(1)] by blast
  obtain effs sA where start: "share_Start nfsA (NewShareSession i info hA c1 c2) = Inr (effs, sA)"
    and effs: "effs = map (\<lambda>p. FNet (appli_SendTo ?hA p StaticHandlerID SPROC_WAIT rbs)) (si_Peers info)"
    using get rbs(1) by (simp add: share_Start_def NewShareSession_def Let_def)
  note sA = share_Start_session [OF start]
  let ?m1 = "NewAppliNetMsg (ah_id ?hA) StaticHandlerID SPROC_WAIT rbs"
  let ?rB = "NewShareRecvSession i (GenSHA1 ?tot) (word_of_nat (length ?tot)) a (ah_id hA) hB c3"
  let ?hB = "AddListener SPROC_RECEIVER c3 hB"
  let ?m2 = "NewAppliNetMsg (ah_id ?hB) (ah_id hA) SPROC_SENDER abs"
  let ?sB = "?rB\<lparr>sv_handler := ?hB, sv_timer := Some (EstimateTimeOut (word_of_nat (length ?tot)))\<rparr>"
  let ?m3 = "NewAppliNetMsg (ah_id hA) (ah_id hB) SPROC_RECEIVER pbs"
  have m1: "FNet (NetSendTo peer ?m1) \<in> set effs" using assms(2) by (auto simp: effs appli_SendTo_def)
  have recv: "recv_Start ?rB = Inr ([FNet (NetSendTo a ?m2)], ?sB)"
    using abs by (simp add: recv_Start_def NewShareRecvSession_def appli_SendTo_def Let_def)
  have acc: "\<exists>n sA'. share_step nfsA (ShAccept \<lparr>ln_FromPeerID = peer, ln_FromHandlerID = ah_id ?hB, ln_Data = abs\<rparr>) sA
      = Inr ([FNet (NetReliableSendTo peer ?m3 n c2)], sA')"
    using abs get pbs sA assms(2) by (simp add: share_step_def share_accept_def appli_ReliableSendTo_def Let_def)
  let ?nfsB' = "fold (\<lambda>(k, v). SetWithInfo k v \<lparr>fi_Owner = a, fi_Peers = Map.empty\<rparr>) (zip ?keys (map ?file ?keys)) nfsB"
  have data: "recv_step (RvData \<lparr>ln_FromPeerID = a, ln_FromHandlerID = ah_id hA, ln_Data = pbs\<rparr>) ?sB nfsB
      = Inr (recv_return True ?keys ?sB, ?nfsB')"
    using recv_data_eq [of "\<lparr>ln_FromPeerID = a, ln_FromHandlerID = ah_id hA, ln_Data = pbs\<rparr>" ?pack] pbs(2)
    by (simp add: recv_step_def NewShareRecvSession_def)
  have db: "nf_db ?nfsB' k = (case nf_db nfsB k of Some v \<Rightarrow> Some v
          | None \<Rightarrow> if k \<in> set ?keys then nf_db nfsA k else None)" for k
    using assms(1) by (auto simp: store_shared_db map_of_zip_map shareable_def split: option.split)
  obtain n sA' where acc': "share_step nfsA (ShAccept \<lparr>ln_FromPeerID = peer, ln_FromHandlerID = ah_id ?hB, ln_Data = abs\<rparr>) sA
      = Inr ([FNet (NetReliableSendTo peer ?m3 n c2)], sA')"
    using acc by blast
  have c: "an_DstListenerID ?m1 = SPROC_WAIT" "decode_with share_request_msg_c (an_Data ?m1) = Inr ?req"
    "recv_Start (NewShareRecvSession (sr_ID ?req) (sr_Hash ?req) (sr_Size ?req) a (an_SrcHandlerID ?m1) hB c3)
        = Inr ([FNet (NetSendTo a ?m2)], ?sB)"
    "an_DstHandlerID ?m2 = ah_id hA" "an_DstListenerID ?m2 = SPROC_SENDER"
    "an_DstHandlerID ?m3 = ah_id hB" "an_DstListenerID ?m3 = SPROC_RECEIVER"
    using rbs(2) recv by (simp_all add: NewShareRequest_def)
  have step: "share_step nfsA (ShAccept \<lparr>ln_FromPeerID = peer, ln_FromHandlerID = an_SrcHandlerID ?m2, ln_Data = an_Data ?m2\<rparr>) sA
      = Inr ([FNet (NetReliableSendTo peer ?m3 n c2)], sA')"
    using acc' by simp
  have final: "recv_step (RvData \<lparr>ln_FromPeerID = a, ln_FromHandlerID = an_SrcHandlerID ?m3, ln_Data = an_Data ?m3\<rparr>) ?sB nfsB
        = Inr (([FResult (NewShareRecvRsult True a ?keys)], ?sB\<lparr>sv_timer := None, sv_returned := True\<rparr>), ?nfsB')"
    using data by (simp add: recv_return_def NewShareRecvSession_def)
  show ?thesis
    by (intro exI conjI) (rule start, rule m1, rule c, rule c, rule c, rule c, rule c, rule step, rule c, rule c,
      rule final, intro allI, rule db)
qed

subsection \<open>Witnesses\<close>

abbreviation demo_handler :: appli_handler where
  "demo_handler \<equiv> \<lparr>ah_id = 3, ah_listeners = Map.empty\<rparr>"

abbreviation demo_empty_fs :: naive_fs where
  "demo_empty_fs \<equiv> NewNaiveFS demo_handler \<lparr>hf_id = 0\<rparr>"

definition demo_fs :: naive_fs where
  "demo_fs = fs_Set [97] [11, 45, 14] (NewNaiveFS \<lparr>ah_id = 0, ah_listeners = Map.empty\<rparr> \<lparr>hf_id = 0\<rparr>)"

lemma demo_fs_db: "nf_db demo_fs = [[97] \<mapsto> [11, 45, 14]]"
  by (simp add: demo_fs_def fs_Set_db) (simp add: NewNaiveFS_def)

definition demo_share :: file_share_info where
  "demo_share = NewFileShareInfo [[97]] () [replicate 20 2] 9"

lemma demo_share_sel [simp]: "si_Keys demo_share = [[97]]" "si_Peers demo_share = [replicate 20 2]"
  by (simp_all add: demo_share_def NewFileShareInfo_def)

lemma demo_shareable: "shareable demo_fs (si_Keys demo_share)"
  by (simp add: shareable_def demo_fs_db)

lemma share_end_to_end_witness:
  "\<exists>rB nfsB' msg sB'. recv_step (RvData msg) rB demo_empty_fs
      = Inr (([FResult (NewShareRecvRsult True [1] [[97]])], sB'), nfsB') \<and> nf_db nfsB' [97] = Some [11, 45, 14]"
proof -
  have "replicate 20 2 \<in> set (si_Peers demo_share)" by simp
  from share_end_to_end [OF demo_shareable this, of 1 "\<lparr>ah_id = 5, ah_listeners = Map.empty\<rparr>" 1 2 "[1]" demo_handler 3 demo_empty_fs]
  obtain sB and m3 :: appli_net_msg and sB' nfsB' where
    "recv_step (RvData \<lparr>ln_FromPeerID = [1], ln_FromHandlerID = an_SrcHandlerID m3, ln_Data = an_Data m3\<rparr>) sB demo_empty_fs
        = Inr (([FResult (NewShareRecvRsult True [1] (si_Keys demo_share))], sB'), nfsB')"
    "\<forall>k. nf_db nfsB' k = (case nf_db demo_empty_fs k of Some v \<Rightarrow> Some v
          | None \<Rightarrow> if k \<in> set (si_Keys demo_share) then nf_db demo_fs k else None)"
    by (elim exE conjE) (rule that)
  note r = this
  have "nf_db nfsB' [97] = Some [11, 45, 14]" using r(2) by (simp add: demo_fs_db NewNaiveFS_def)
  then show ?thesis by (intro exI conjI) (rule r(1) [simplified demo_share_sel], assumption)
qed

lemma demo_pack:
  assumes "length keys < 2 ^ 32" "length datas < 2 ^ 32" "\<forall>k \<in> set keys. length k < 2 ^ 32" "\<forall>d \<in> set datas. length d < 2 ^ 32"
  shows "\<exists>bs. decode_with data_pack_c bs = Inr \<lparr>dp_Keys = keys, dp_Data = datas\<rparr>"
  using data_pack.encode_total [of "\<lparr>dp_Keys = keys, dp_Data = datas\<rparr>"] assms by (auto simp: list_all_iff)

lemma received_files_match_offer_witness:
  "\<exists>bs effs s' nfs'. recv_step (RvData \<lparr>ln_FromPeerID = [1], ln_FromHandlerID = 4, ln_Data = bs\<rparr>)
      (NewShareRecvSession 1 (GenSHA1 [7, 8]) 2 [1] 4 demo_handler 3) demo_fs = Inr ((effs, s'), nfs')
    \<and> nf_db nfs' [98] = Some [8] \<and> nf_db nfs' [97] = Some [11, 45, 14]"
proof -
  let ?pack = "\<lparr>dp_Keys = [[97], [98]], dp_Data = [[7], [8]]\<rparr>"
  obtain bs where bs: "decode_with data_pack_c bs = Inr ?pack"
    using demo_pack [of "[[97], [98]]" "[[7], [8]]"] by auto
  let ?s = "NewShareRecvSession 1 (GenSHA1 [7, 8]) 2 [1] 4 demo_handler 3"
  let ?msg = "\<lparr>ln_FromPeerID = [1], ln_FromHandlerID = 4, ln_Data = bs\<rparr>"
  obtain effs s' nfs' where step: "recv_step (RvData ?msg) ?s demo_fs = Inr ((effs, s'), nfs')"
    using bs by (simp add: recv_step_def recv_data_eq recv_return_def NewShareRecvSession_def)
  have "\<not> sv_returned ?s" by (simp add: NewShareRecvSession_def)
  from received_files_match_offer [OF this step] bs step show ?thesis
    by (intro exI [of _ bs] exI [of _ effs] exI [of _ s'] exI [of _ nfs'])
      (simp add: NewShareRecvSession_def demo_fs_db)
qed

lemma short_pack_panics_receiver_witness:
  "\<exists>bs. recv_step (RvData \<lparr>ln_FromPeerID = [1], ln_FromHandlerID = 4, ln_Data = bs\<rparr>)
      (NewShareRecvSession 1 (replicate 20 0) 2 [1] 4 h 3) nfs = Inl IndexOutOfRange"
proof -
  obtain bs where bs: "decode_with data_pack_c bs = Inr \<lparr>dp_Keys = [[97]], dp_Data = []\<rparr>"
    using demo_pack [of "[[97]]" "[]"] by auto
  have "recv_step (RvData \<lparr>ln_FromPeerID = [1], ln_FromHandlerID = 4, ln_Data = bs\<rparr>)
      (NewShareRecvSession 1 (replicate 20 0) 2 [1] 4 h 3) nfs = Inl IndexOutOfRange"
    by (rule short_pack_panics_receiver [of _ _ "\<lparr>dp_Keys = [[97]], dp_Data = []\<rparr>"])
      (simp_all add: bs NewShareRecvSession_def)
  then show ?thesis by blast
qed

lemma share_result_at_last_delivery_witness:
  "\<exists>effs0 s0 s effs s'. share_Start demo_fs (NewShareSession 1 demo_share demo_handler 1 2) = Inr (effs0, s0)
    \<and> share_reach s0 s \<and> share_step demo_fs (ShSent
        \<lparr>sd_ID = 0, sd_OK = True, sd_DstPeerID = replicate 20 2, sd_DstHandlerID = 4, sd_DstListenerID = SPROC_RECEIVER\<rparr>) s
      = Inr (effs, s') \<and> effs = [FResult (NewShareResult 1 [[97]] [replicate 20 2 \<mapsto> SHARE_FINISHED])]"
proof -
  let ?p = "replicate 20 (2 :: u8)"
  let ?res = "\<lparr>sd_ID = 0, sd_OK = True, sd_DstPeerID = ?p, sd_DstHandlerID = 4, sd_DstListenerID = SPROC_RECEIVER\<rparr>"
  have get: "go_map (fs_Get demo_fs) [[97]] = Inr [[11, 45, 14]]" by (simp add: fs_Get_def demo_fs_db)
  obtain effs0 s0 where start: "share_Start demo_fs (NewShareSession 1 demo_share demo_handler 1 2) = Inr (effs0, s0)"
    using get share_request_msg.encode_total [of "NewShareRequest () 1 (GenSHA1 [11, 45, 14]) 3"]
    by (auto simp: share_Start_def NewShareSession_def Let_def NewShareRequest_def)
  note s0 = share_Start_session [OF start]
  obtain abs where abs: "decode_with share_accept_msg_c abs = Inr \<lparr>sa_ID = 1, sa_Hash = replicate 20 0\<rparr>"
    using share_accept_msg.encode_total [of "\<lparr>sa_ID = 1, sa_Hash = replicate 20 0\<rparr>"] by auto
  obtain pbs where pbs: "encode_with data_pack_c \<lparr>dp_Keys = [[97]], dp_Data = [[11, 45, 14]]\<rparr> = Inr pbs"
    using data_pack.encode_total [of "\<lparr>dp_Keys = [[97]], dp_Data = [[11, 45, 14]]\<rparr>"] by auto
  let ?s = "s0\<lparr>sh_peerState := [?p \<mapsto> SHARE_SENDING]\<rparr>"
  have st: "sh_peerState s0 ?p = Some SHARE_ST" "(sh_peerState s0)(?p \<mapsto> SHARE_SENDING) = [?p \<mapsto> SHARE_SENDING]"
    by (auto simp: s0(3))
  obtain effs1 where "share_step demo_fs (ShAccept \<lparr>ln_FromPeerID = ?p, ln_FromHandlerID = 4, ln_Data = abs\<rparr>) s0
      = Inr (effs1, ?s)"
    using abs pbs s0(1,2,4-7) st by (simp add: share_step_def share_accept_def Let_def fs_Get_def demo_fs_db)
  then have reach: "share_reach s0 ?s" using share_next [OF share_init] by blast
  obtain effs s' where step: "share_step demo_fs (ShSent ?res) ?s = Inr (effs, s')"
    using s0(5) by (cases "share_sent ?res ?s") (simp add: share_step_def)
  have d: "distinct (si_Peers demo_share)" "length (si_Peers demo_share) < 2 ^ 32" "\<not> sh_returned ?s"
    using s0(5) by simp_all
  note r = share_result_at_last_delivery [OF start d(1,2) reach d(3) step]
  have "sh_peerState s' = [?p \<mapsto> SHARE_FINISHED]"
    using step s0(5) by (auto simp: share_step_def share_sent_def Let_def share_terminate_def split: if_splits)
  then have "effs = [FResult (NewShareResult 1 [[97]] [?p \<mapsto> SHARE_FINISHED])]" using r by simp
  with start reach step show ?thesis by blast
qed

end
