(* ===== verification/Purchase_Session.thy ===== *)
theory Purchase_Session
  imports Share_Session "HOL-Library.Sublist"
begin

text \<open>
  \<open>src/src/fs/purchase.go\<close>: the session that buys the files of one key group from one peer, and the
  session that sells files to a peer that asks for them. The conventions are those of
  \<open>Share_Session\<close>.
\<close>

subsection \<open>\<open>PurchaseSession\<close>\<close>

record purchase_session =
  ps_id :: u32
  ps_info :: file_purchase_info
  ps_handler :: appli_handler
  ps_timer :: "i64 option"
  ps_dataChan :: chan
  ps_returned :: bool

definition NewPurchaseSession :: "u32 \<Rightarrow> file_purchase_info \<Rightarrow> appli_handler \<Rightarrow> chan \<Rightarrow> purchase_session" where
  "NewPurchaseSession i purchaseInfo handler dataChan =
     \<lparr>ps_id = i, ps_info = purchaseInfo, ps_handler = handler, ps_timer = None, ps_dataChan = dataChan,
      ps_returned = False\<rparr>"

definition purchase_Start :: "purchase_session \<Rightarrow> (purchase_result fs_effect list \<times> purchase_session) go" where
  "purchase_Start s =
     (let handler = AddListener PPROC_RECEIVER (ps_dataChan s) (ps_handler s) in
      and_then (encode_with purchase_request_msg_c \<lparr>pr_ID = ps_id s, pr_Keys = pi_Keys (ps_info s)\<rparr>) (\<lambda>data.
        Inr ([FNet (appli_SendTo handler (pi_Peer (ps_info s)) StaticHandlerID PPROC_WAIT data)],
             s\<lparr>ps_handler := handler, ps_timer := Some (2 * EstimateTimeOut (pi_Size (ps_info s)))\<rparr>)))"

definition purchase_return :: "bool \<Rightarrow> purchase_session \<Rightarrow> purchase_result fs_effect list \<times> purchase_session" where
  "purchase_return ok s =
     ([FResult (NewPurchaseResult (ps_id s) ok (pi_Peer (ps_info s)) (pi_Keys (ps_info s)))],
      s\<lparr>ps_timer := None, ps_returned := True\<rparr>)"

text \<open>The loop over the keys of a pack: it collects the data and stops at the first key that is not
  the requested one of the same index.\<close>

fun check_keys :: "nat \<Rightarrow> go_string list \<Rightarrow> u8 list list \<Rightarrow> go_string list \<Rightarrow> u8 list \<Rightarrow> (bool \<times> u8 list) go" where
  "check_keys i [] datas wanted totData = Inr (True, totData)"
| "check_keys i (key # keys) datas wanted totData =
     and_then (go_index datas i) (\<lambda>data.
     and_then (go_index wanted i) (\<lambda>w.
       if key \<noteq> w then Inr (False, totData @ data)
       else check_keys (Suc i) keys datas wanted (totData @ data)))"

definition purchase_data :: "listener_net_msg \<Rightarrow> purchase_session \<Rightarrow> naive_fs
    \<Rightarrow> ((purchase_result fs_effect list \<times> purchase_session) \<times> naive_fs) go" where
  "purchase_data msg s nfs =
     (if ln_FromPeerID msg = pi_Peer (ps_info s) then
        and_then (decode_with data_pack_c (ln_Data msg)) (\<lambda>dataPack.
        and_then (check_keys 0 (dp_Keys dataPack) (dp_Data dataPack) (pi_Keys (ps_info s)) []) (\<lambda>(ok, totData).
          if \<not> ok then Inr (purchase_return False s, nfs)
          else if GenSHA1 totData = pi_Hash (ps_info s) then
            and_then (store_pack fs_Set dataPack nfs) (\<lambda>nfs'. Inr (purchase_return True s, nfs'))
          else Inr (purchase_return False s, nfs)))
      else Inr (([], s), nfs))"

datatype purchase_event = PuData listener_net_msg | PuTimer | PuCtrl

fun purchase_select :: "purchase_event \<Rightarrow> purchase_session \<Rightarrow> naive_fs
    \<Rightarrow> ((purchase_result fs_effect list \<times> purchase_session) \<times> naive_fs) go" where
  "purchase_select (PuData msg) s nfs = purchase_data msg s nfs"
| "purchase_select PuTimer s nfs = Inr (if ps_timer s = None then ([], s) else purchase_return False s, nfs)"
| "purchase_select PuCtrl s nfs = Inr (purchase_return False s, nfs)"

definition purchase_step :: "purchase_event \<Rightarrow> purchase_session \<Rightarrow> naive_fs
    \<Rightarrow> ((purchase_result fs_effect list \<times> purchase_session) \<times> naive_fs) go" where
  "purchase_step ev s nfs = (if ps_returned s then Inr (([], s), nfs) else purchase_select ev s nfs)"

subsection \<open>\<open>SellSession\<close>\<close>

record sell_session =
  sl_keys :: "go_string list"
  sl_receiverID :: node_id
  sl_receiverHandlerID :: u16
  sl_handler :: appli_handler
  sl_timer :: "i64 option"
  sl_sendResultChan :: chan
  sl_returned :: bool

definition NewSellSession :: "go_string list \<Rightarrow> node_id \<Rightarrow> u16 \<Rightarrow> appli_handler \<Rightarrow> chan \<Rightarrow> sell_session" where
  "NewSellSession keys receiverID receiverHandlerID handler sendChan =
     \<lparr>sl_keys = keys, sl_receiverID = receiverID, sl_receiverHandlerID = receiverHandlerID,
      sl_handler = handler, sl_timer = None, sl_sendResultChan = sendChan, sl_returned = False\<rparr>"

definition sell_Start :: "naive_fs \<Rightarrow> sell_session \<Rightarrow> (unit fs_effect list \<times> sell_session) go" where
  "sell_Start nfs s =
     and_then (go_map (fs_Get nfs) (sl_keys s)) (\<lambda>datas.
     and_then (encode_with data_pack_c \<lparr>dp_Keys = sl_keys s, dp_Data = datas\<rparr>) (\<lambda>data.
       Inr ([FNet (appli_ReliableSendTo (sl_handler s) (sl_receiverID s) (sl_receiverHandlerID s)
               PPROC_RECEIVER data 0 (sl_sendResultChan s))],
            s\<lparr>sl_timer := Some (EstimateTimeOut (word_of_nat (length (concat datas))))\<rparr>)))"

datatype sell_event = SlSent send_result | SlTimer | SlCtrl

text \<open>Every event ends the session; it does not stop its timer.\<close>

fun sell_step :: "sell_event \<Rightarrow> sell_session \<Rightarrow> sell_session" where
  "sell_step (SlSent result) s = s\<lparr>sl_returned := True\<rparr>"
| "sell_step SlTimer s = s\<lparr>sl_returned := True\<rparr>"
| "sell_step SlCtrl s = s\<lparr>sl_returned := True\<rparr>"

subsection \<open>The key check\<close>

lemma check_keys_prefix:
  assumes "prefix keys (drop i wanted)" and "i + length keys \<le> length datas"
  shows "check_keys i keys datas wanted tot = Inr (True, tot @ concat (take (length keys) (drop i datas)))"
  using assms
proof (induction keys arbitrary: i tot)
  case (Cons key keys)
  have "drop i wanted \<noteq> []" using Cons.prems(1) by auto
  then have i: "i < length wanted" "i < length datas" using Cons.prems(2) by auto
  then have d: "drop i wanted = wanted ! i # drop (Suc i) wanted" "drop i datas = datas ! i # drop (Suc i) datas"
    by (simp_all add: Cons_nth_drop_Suc)
  then have "key = wanted ! i" "prefix keys (drop (Suc i) wanted)" using Cons.prems(1) by simp_all
  then show ?case using Cons.IH [of "Suc i" "tot @ datas ! i"] Cons.prems(2) i d by simp
qed simp

lemma check_keys_short:
  assumes "prefix keys (drop i wanted)" and "length datas < i + length keys" and "i \<le> length datas"
  shows "check_keys i keys datas wanted tot = Inl IndexOutOfRange"
  using assms
proof (induction keys arbitrary: i tot)
  case (Cons key keys)
  show ?case
  proof (cases "i < length datas")
    case True
    have "drop i wanted \<noteq> []" using Cons.prems(1) by auto
    then have "drop i wanted = wanted ! i # drop (Suc i) wanted" "i < length wanted"
      by (auto simp: Cons_nth_drop_Suc)
    then show ?thesis using Cons.IH [of "Suc i"] Cons.prems True by simp
  qed simp
qed simp

lemma check_keys_True:
  assumes "check_keys i keys datas wanted tot = Inr (True, r)" and "i \<le> length wanted"
  shows "prefix keys (drop i wanted) \<and> (keys \<noteq> [] \<longrightarrow> i + length keys \<le> length datas)"
  using assms
proof (induction keys arbitrary: i tot)
  case (Cons key keys)
  have i: "i < length wanted" "i < length datas" "key = wanted ! i"
    and rest: "check_keys (Suc i) keys datas wanted (tot @ datas ! i) = Inr (True, r)"
    using Cons.prems(1) by (auto simp: and_then_Inr_iff dest!: go_index_InrD split: if_splits)
  have "prefix keys (drop (Suc i) wanted) \<and> (keys \<noteq> [] \<longrightarrow> Suc i + length keys \<le> length datas)"
    using Cons.IH [OF rest] i(1) by simp
  moreover have "drop i wanted = wanted ! i # drop (Suc i) wanted" using i(1) by (simp add: Cons_nth_drop_Suc)
  ultimately show ?case using i by (cases "keys = []") auto
qed simp

text \<open>The keys run past the requested ones: the index expression panics.\<close>

lemma check_keys_too_long:
  assumes "strict_prefix (drop i wanted) keys" and "i \<le> length wanted" and "length wanted < length datas"
  shows "check_keys i keys datas wanted tot = Inl IndexOutOfRange"
  using assms
proof (induction keys arbitrary: i tot)
  case (Cons key keys)
  show ?case
  proof (cases "i = length wanted")
    case False
    then have i: "i < length wanted" using Cons.prems(2) by simp
    then have "drop i wanted = wanted ! i # drop (Suc i) wanted" by (simp add: Cons_nth_drop_Suc)
    then have "key = wanted ! i" "strict_prefix (drop (Suc i) wanted) keys" using Cons.prems(1) by simp_all
    then show ?thesis using Cons.IH [of "Suc i"] i Cons.prems(3) by simp
  qed (use Cons.prems(3) in simp)
qed simp

lemma bought_db:
  "nf_db (fold (\<lambda>(k, v). fs_Set k v) kvs nfs) k = (case nf_db nfs k of Some v \<Rightarrow> Some v | None \<Rightarrow> map_of kvs k)"
  using own_files.load_store_all [of kvs nfs k] by (simp add: own_files.store_all_def)

lemma purchase_data_prefix:
  assumes "ln_FromPeerID msg = pi_Peer (ps_info s)" and "decode_with data_pack_c (ln_Data msg) = Inr pack"
    and "prefix (dp_Keys pack) (pi_Keys (ps_info s))" and "length (dp_Keys pack) \<le> length (dp_Data pack)"
  shows "purchase_data msg s nfs =
    (if GenSHA1 (concat (take (length (dp_Keys pack)) (dp_Data pack))) = pi_Hash (ps_info s)
     then Inr (purchase_return True s, fold (\<lambda>(k, v). fs_Set k v) (zip (dp_Keys pack) (dp_Data pack)) nfs)
     else Inr (purchase_return False s, nfs))"
  using check_keys_prefix [of "dp_Keys pack" 0 "pi_Keys (ps_info s)" "dp_Data pack" "[]"] assms
  by (simp add: purchase_data_def store_pack_ok)

text \<open>C34: A purchase succeeds only with data of the peer it was asked from, whose keys are an initial
  part of the requested ones and whose bytes, concatenated, have the requested hash. Then these
  files are stored unless there is a file of that name; in every other case no file changes.\<close>
theorem purchase_success_sound:
  assumes "\<not> ps_returned s" and "purchase_step (PuData msg) s nfs = Inr ((effs, s'), nfs')"
    and "decode_with data_pack_c (ln_Data msg) = Inr pack"
  shows "if ln_FromPeerID msg = pi_Peer (ps_info s)
         \<and> prefix (dp_Keys pack) (pi_Keys (ps_info s))
         \<and> GenSHA1 (concat (take (length (dp_Keys pack)) (dp_Data pack))) = pi_Hash (ps_info s)
       then (effs, s') = purchase_return True s
         \<and> (\<forall>k. nf_db nfs' k = (case nf_db nfs k of Some v \<Rightarrow> Some v | None \<Rightarrow> map_of (zip (dp_Keys pack) (dp_Data pack)) k))
       else nfs' = nfs \<and> (effs, s') = (if ln_FromPeerID msg = pi_Peer (ps_info s) then purchase_return False s else ([], s))"
proof -
  have data: "purchase_data msg s nfs = Inr ((effs, s'), nfs')" using assms(1,2) by (simp add: purchase_step_def)
  show ?thesis
  proof (cases "ln_FromPeerID msg = pi_Peer (ps_info s)")
    case peer: True
    obtain ok tot where check: "check_keys 0 (dp_Keys pack) (dp_Data pack) (pi_Keys (ps_info s)) [] = Inr (ok, tot)"
      using data peer assms(3) by (auto simp: purchase_data_def and_then_Inr_iff)
    show ?thesis
    proof (cases "prefix (dp_Keys pack) (pi_Keys (ps_info s))")
      case True
      have "length (dp_Keys pack) \<le> length (dp_Data pack)"
        using check_keys_short [of "dp_Keys pack" 0 "pi_Keys (ps_info s)" "dp_Data pack" "[]"] check True
        by (cases "length (dp_Keys pack) \<le> length (dp_Data pack)") auto
      from purchase_data_prefix [OF peer assms(3) True this] data show ?thesis
        using peer True by (auto simp: bought_db split: if_splits)
    next
      case False
      then have "\<not> ok" using check_keys_True [of 0] check by fastforce
      then show ?thesis using data peer False check assms(3) by (simp add: purchase_data_def)
    qed
  qed (use data in \<open>simp add: purchase_data_def\<close>)
qed

text \<open>The hash covers only the concatenated bytes: a seller that sends them all under the first
  key is paid - the purchase reports success - although another requested file is still missing,
  so that reading it afterwards panics.\<close>
theorem merged_pack_accepted:
  assumes "\<not> ps_returned s" and "ln_FromPeerID msg = pi_Peer (ps_info s)"
    and "decode_with data_pack_c (ln_Data msg) = Inr \<lparr>dp_Keys = [k1], dp_Data = [data]\<rparr>"
    and "pi_Keys (ps_info s) = k1 # ks" and "GenSHA1 data = pi_Hash (ps_info s)"
    and "k2 \<in> set ks" and "k2 \<noteq> k1" and "nf_db nfs k2 = None"
  shows "\<exists>nfs'. purchase_step (PuData msg) s nfs = Inr (purchase_return True s, nfs')
    \<and> fs_Get nfs' k2 = Inl BadTypeAssertion"
proof -
  have "purchase_data msg s nfs = Inr (purchase_return True s, fs_Set k1 data nfs)"
    using purchase_data_prefix [OF assms(2,3)] assms(4,5) by simp
  moreover have "fs_Get (fs_Set k1 data nfs) k2 = Inl BadTypeAssertion"
    using assms(7,8) by (simp add: fs_Get_def fs_Set_db split: option.split)
  ultimately show ?thesis using assms(1) by (simp add: purchase_step_def)
qed

text \<open>C12: Buying works end to end. The purchaser's request reaches the static handler of the peer; the
  selling session built from the decoded request sends one pack to the purchaser's handler; if the
  purchaser knows the hash of the files it then reports success and has, for every key, the file
  it had before or else the seller's file, and no other new file.\<close>
theorem purchase_end_to_end:
  assumes "shareable nfsA (pi_Keys info)"
    and "pi_Hash info = GenSHA1 (concat (map (\<lambda>k. the (nf_db nfsA k)) (pi_Keys info)))"
  shows "\<exists>m1 sB req m2 sA sB' nfsB'.
    purchase_Start (NewPurchaseSession i info hB c1) = Inr ([FNet (NetSendTo (pi_Peer info) m1)], sB)
    \<and> an_DstHandlerID m1 = StaticHandlerID \<and> an_DstListenerID m1 = PPROC_WAIT
    \<and> decode_with purchase_request_msg_c (an_Data m1) = Inr req
    \<and> sell_Start nfsA (NewSellSession (pr_Keys req) b (an_SrcHandlerID m1) hA c2)
        = Inr ([FNet (NetReliableSendTo b m2 0 c2)], sA)
    \<and> an_DstHandlerID m2 = ah_id hB \<and> an_DstListenerID m2 = PPROC_RECEIVER
    \<and> purchase_step (PuData \<lparr>ln_FromPeerID = pi_Peer info, ln_FromHandlerID = an_SrcHandlerID m2, ln_Data = an_Data m2\<rparr>) sB nfsB
        = Inr (([FResult (NewPurchaseResult i True (pi_Peer info) (pi_Keys info))], sB'), nfsB')
    \<and> (\<forall>k. nf_db nfsB' k = (case nf_db nfsB k of Some v \<Rightarrow> Some v
          | None \<Rightarrow> if k \<in> set (pi_Keys info) then nf_db nfsA k else None))"
proof -
  let ?keys = "pi_Keys info" and ?file = "\<lambda>k. the (nf_db nfsA k)"
  let ?req = "\<lparr>pr_ID = i, pr_Keys = ?keys\<rparr>" and ?pack = "\<lparr>dp_Keys = ?keys, dp_Data = map ?file ?keys\<rparr>"
  have get: "go_map (fs_Get nfsA) ?keys = Inr (map ?file ?keys)"
    using assms(1) fs_Get_total by (simp add: shareable_def)
  obtain rbs where rbs: "encode_with purchase_request_msg_c ?req = Inr rbs" "decode_with purchase_request_msg_c rbs = Inr ?req"
    using purchase_request_msg.encode_total [of ?req] assms(1) by (auto simp: shareable_def list_all_iff)
  obtain pbs where pbs: "encode_with data_pack_c ?pack = Inr pbs" "decode_with data_pack_c pbs = Inr ?pack"
    using shareable_pack [OF assms(1)] by blast
  let ?m1 = "NewAppliNetMsg (ah_id hB) StaticHandlerID PPROC_WAIT rbs"
  let ?sB = "(NewPurchaseSession i info hB c1)\<lparr>ps_handler := AddListener PPROC_RECEIVER c1 hB,
      ps_timer := Some (2 * EstimateTimeOut (pi_Size info))\<rparr>"
  let ?m2 = "NewAppliNetMsg (ah_id hA) (ah_id hB) PPROC_RECEIVER pbs"
  let ?sA = "(NewSellSession ?keys b (ah_id hB) hA c2)\<lparr>sl_timer := Some (EstimateTimeOut (word_of_nat (length (concat (map ?file ?keys)))))\<rparr>"
  let ?nfs = "fold (\<lambda>(k, v). fs_Set k v) (zip ?keys (map ?file ?keys)) nfsB"
  let ?msg = "\<lparr>ln_FromPeerID = pi_Peer info, ln_FromHandlerID = an_SrcHandlerID ?m2, ln_Data = an_Data ?m2\<rparr>"
  have start: "purchase_Start (NewPurchaseSession i info hB c1) = Inr ([FNet (NetSendTo (pi_Peer info) ?m1)], ?sB)"
    using rbs(1) by (simp add: purchase_Start_def NewPurchaseSession_def appli_SendTo_def Let_def)
  have sell: "sell_Start nfsA (NewSellSession (pr_Keys ?req) b (an_SrcHandlerID ?m1) hA c2)
      = Inr ([FNet (NetReliableSendTo b ?m2 0 c2)], ?sA)"
    using get pbs(1) by (simp add: sell_Start_def NewSellSession_def appli_ReliableSendTo_def)
  have "purchase_data ?msg ?sB nfsB = Inr (purchase_return True ?sB, ?nfs)"
    using purchase_data_prefix [of ?msg ?sB ?pack nfsB] pbs(2) assms(2) by (simp add: NewPurchaseSession_def)
  then have buy: "purchase_step (PuData ?msg) ?sB nfsB
      = Inr (([FResult (NewPurchaseResult i True (pi_Peer info) ?keys)], ?sB\<lparr>ps_timer := None, ps_returned := True\<rparr>), ?nfs)"
    by (simp add: purchase_step_def purchase_return_def NewPurchaseSession_def)
  have db: "nf_db ?nfs k = (case nf_db nfsB k of Some v \<Rightarrow> Some v
          | None \<Rightarrow> if k \<in> set ?keys then nf_db nfsA k else None)" for k
    using assms(1) by (auto simp: bought_db map_of_zip_map shareable_def split: option.split)
  have c: "an_DstHandlerID ?m1 = StaticHandlerID" "an_DstListenerID ?m1 = PPROC_WAIT"
    "decode_with purchase_request_msg_c (an_Data ?m1) = Inr ?req"
    "an_DstHandlerID ?m2 = ah_id hB" "an_DstListenerID ?m2 = PPROC_RECEIVER"
    using rbs(2) by simp_all
  show ?thesis
    by (intro exI conjI) (rule start, rule c, rule c, rule c, rule sell, rule c, rule c, rule buy, intro allI, rule db)
qed

subsection \<open>Witnesses\<close>

definition demo_purchase :: file_purchase_info where
  "demo_purchase = NewFilePurchaseInfo [[97]] 3 [1] (GenSHA1 [11, 45, 14]) 9"

lemma demo_purchase_sel [simp]:
  "pi_Keys demo_purchase = [[97]]" "pi_Peer demo_purchase = [1]" "pi_Hash demo_purchase = GenSHA1 [11, 45, 14]"
  by (simp_all add: demo_purchase_def NewFilePurchaseInfo_def)

lemma purchase_end_to_end_witness:
  "\<exists>sB msg sB' nfsB'. purchase_step (PuData msg) sB demo_empty_fs
      = Inr (([FResult (NewPurchaseResult 1 True [1] [[97]])], sB'), nfsB') \<and> nf_db nfsB' [97] = Some [11, 45, 14]"
proof -
  have "shareable demo_fs (pi_Keys demo_purchase)" by (simp add: shareable_def demo_fs_db)
  moreover have "pi_Hash demo_purchase = GenSHA1 (concat (map (\<lambda>k. the (nf_db demo_fs k)) (pi_Keys demo_purchase)))"
    by (simp add: demo_fs_db)
  ultimately obtain sB and m2 :: appli_net_msg and sB' nfsB' where
    r: "purchase_step (PuData \<lparr>ln_FromPeerID = pi_Peer demo_purchase, ln_FromHandlerID = an_SrcHandlerID m2, ln_Data = an_Data m2\<rparr>)
        sB demo_empty_fs = Inr (([FResult (NewPurchaseResult 1 True (pi_Peer demo_purchase) (pi_Keys demo_purchase))], sB'), nfsB')"
    and db: "\<forall>k. nf_db nfsB' k = (case nf_db demo_empty_fs k of Some v \<Rightarrow> Some v
          | None \<Rightarrow> if k \<in> set (pi_Keys demo_purchase) then nf_db demo_fs k else None)"
    by (rule purchase_end_to_end [of demo_fs demo_purchase 1 demo_handler 2 "[5]" demo_handler 3 "demo_empty_fs", elim_format])
      (elim exE conjE, rule that)
  have "nf_db nfsB' [97] = Some [11, 45, 14]" using db by (simp add: demo_fs_db NewNaiveFS_def)
  then show ?thesis by (intro exI conjI) (rule r [simplified demo_purchase_sel], assumption)
qed

lemma merged_pack_accepted_witness:
  "\<exists>msg nfs'. purchase_step (PuData msg) (NewPurchaseSession 1 (NewFilePurchaseInfo [[97], [98]] 3 [1] (GenSHA1 [7, 8]) 9) demo_handler 3)
      demo_empty_fs = Inr (purchase_return True
        (NewPurchaseSession 1 (NewFilePurchaseInfo [[97], [98]] 3 [1] (GenSHA1 [7, 8]) 9) demo_handler 3), nfs')
    \<and> fs_Get nfs' [98] = Inl BadTypeAssertion"
proof -
  obtain bs where bs: "decode_with data_pack_c bs = Inr \<lparr>dp_Keys = [[97]], dp_Data = [[7, 8]]\<rparr>"
    using demo_pack [of "[[97]]" "[[7, 8]]"] by auto
  let ?s = "NewPurchaseSession 1 (NewFilePurchaseInfo [[97], [98]] 3 [1] (GenSHA1 [7, 8]) 9) demo_handler 3"
  let ?msg = "\<lparr>ln_FromPeerID = [1], ln_FromHandlerID = 4, ln_Data = bs\<rparr>"
  have "\<exists>nfs'. purchase_step (PuData ?msg) ?s demo_empty_fs = Inr (purchase_return True ?s, nfs')
      \<and> fs_Get nfs' [98] = Inl BadTypeAssertion"
    by (rule merged_pack_accepted [of ?s ?msg "[97]" "[7, 8]" "[[98]]"])
      (simp_all add: bs NewPurchaseSession_def NewFilePurchaseInfo_def NewNaiveFS_def)
  then show ?thesis by blast
qed

lemma purchase_success_sound_witness:
  "\<exists>bs effs s' nfs'. purchase_step (PuData \<lparr>ln_FromPeerID = [1], ln_FromHandlerID = 4, ln_Data = bs\<rparr>)
      (NewPurchaseSession 1 demo_purchase demo_handler 3) demo_empty_fs = Inr ((effs, s'), nfs')
    \<and> nf_db nfs' [97] = Some [11, 45, 14]"
proof -
  let ?s = "NewPurchaseSession 1 demo_purchase demo_handler 3" and ?pack = "\<lparr>dp_Keys = [[97]], dp_Data = [[11, 45, 14]]\<rparr>"
  obtain bs where bs: "decode_with data_pack_c bs = Inr ?pack"
    using demo_pack [of "[[97]]" "[[11, 45, 14]]"] by auto
  let ?msg = "\<lparr>ln_FromPeerID = [1], ln_FromHandlerID = 4, ln_Data = bs\<rparr>"
  have sel: "ps_info ?s = demo_purchase" "\<not> ps_returned ?s" by (simp_all add: NewPurchaseSession_def)
  have "purchase_data ?msg ?s demo_empty_fs = Inr (purchase_return True ?s, fs_Set [97] [11, 45, 14] demo_empty_fs)"
    using purchase_data_prefix [of ?msg ?s ?pack] bs sel by simp
  then obtain effs s' nfs' where step: "purchase_step (PuData ?msg) ?s demo_empty_fs = Inr ((effs, s'), nfs')"
    using sel(2) by (simp add: purchase_step_def purchase_return_def)
  have "nf_db nfs' [97] = Some [11, 45, 14]"
    using purchase_success_sound [OF sel(2) step, of ?pack] bs sel(1) by (simp add: NewNaiveFS_def)
  with step show ?thesis by blast
qed

end
