(* ===== verification/Tracker_Session.thy ===== *)
theory Tracker_Session
  imports Purchase_Session
begin

text \<open>
  \<open>src/src/fs/tracker.go\<close>: the session that asks trackers which nodes hold the key groups of a task
  and buys every group from one of them, trying another peer when a purchase fails. The order in
  which \<open>for peer := range\<close> visits the remaining peers is an argument of the event. After success
  \<open>run\<close> goes on with a stopped timer.
\<close>

datatype tracker_session_state = TRACKER_UNKOWN | TRACKER_PURCHASING | TRACKER_PURCHASED

record pp_session =
  tp_id :: u32
  tp_request :: paralleled_purchase_info
  tp_peerGroup :: "(node_id \<rightharpoonup> unit) list"
  tp_fileState :: "tracker_session_state list"
  tp_unpurchasedCnt :: u32
  tp_handler :: appli_handler
  tp_timer :: "i64 option"
  tp_trackerResultChan :: chan
  tp_purchaseResultChan :: chan
  tp_returned :: bool

definition NewParalleledPurchaseSession :: "u32 \<Rightarrow> paralleled_purchase_info \<Rightarrow> appli_handler \<Rightarrow> chan \<Rightarrow> chan
    \<Rightarrow> pp_session" where
  "NewParalleledPurchaseSession i request handler trackerChan purchaseChan =
     (let l = length (tf_KeyGroup (pp_FileInfo request)) in
      \<lparr>tp_id = i, tp_request = request, tp_peerGroup = replicate l Map.empty,
       tp_fileState = replicate l TRACKER_UNKOWN, tp_unpurchasedCnt = word_of_nat l, tp_handler = handler,
       tp_timer = None, tp_trackerResultChan = trackerChan, tp_purchaseResultChan = purchaseChan,
       tp_returned = False\<rparr>)"

abbreviation tp_files :: "pp_session \<Rightarrow> task_file_meta_info" where
  "tp_files s \<equiv> pp_FileInfo (tp_request s)"

definition pp_Start :: "pp_session \<Rightarrow> (paralleled_purchase_result fs_effect list \<times> pp_session) go" where
  "pp_Start s =
     (let handler = AddListener TPROC_RECEIVER (tp_trackerResultChan s) (tp_handler s) in
      and_then (encode_with tracker_request_msg_c \<lparr>tq_KeyGroup = tf_KeyGroup (tp_files s)\<rparr>) (\<lambda>msg.
        Inr (map (\<lambda>peer. FNet (appli_SendTo handler peer StaticHandlerID TPROC_WAIT msg)) (tf_Trackers (tp_files s)),
             s\<lparr>tp_handler := handler,
               tp_timer := Some (3 * EstimateTimeOut (fold (\<lambda>sz tot. tot + sz) (tf_Sizes (tp_files s)) 0))\<rparr>)))"

definition pp_purchase :: "nat \<Rightarrow> node_id \<Rightarrow> pp_session
    \<Rightarrow> (paralleled_purchase_result fs_effect list \<times> pp_session) go" where
  "pp_purchase i peer s =
     and_then (go_index (tp_fileState s) i) (\<lambda>state.
       if state = TRACKER_UNKOWN then
         and_then (go_index (tf_KeyGroup (tp_files s)) i) (\<lambda>keys.
         and_then (go_index (tf_Sizes (tp_files s)) i) (\<lambda>sz.
         and_then (go_index (tf_Hashes (tp_files s)) i) (\<lambda>hash.
           Inr ([FPurchase (NewFilePurchaseInfo keys sz peer hash (tp_purchaseResultChan s))],
                s\<lparr>tp_fileState := (tp_fileState s)[i := TRACKER_PURCHASING]\<rparr>))))
       else Inr ([], s))"

definition pp_add_peer :: "nat \<Rightarrow> node_id \<Rightarrow> pp_session \<Rightarrow> pp_session go" where
  "pp_add_peer i peer s =
     and_then (go_index (tp_peerGroup s) i) (\<lambda>m.
       Inr (s\<lparr>tp_peerGroup := (tp_peerGroup s)[i := m(peer \<mapsto> ())]\<rparr>))"

text \<open>The loop over the peers of group \<open>i\<close>: a purchase is tried with the first one only.\<close>

fun update_group :: "nat \<Rightarrow> node_id list \<Rightarrow> bool \<Rightarrow> pp_session
    \<Rightarrow> (paralleled_purchase_result fs_effect list \<times> pp_session) go" where
  "update_group i [] purchased s = Inr ([], s)"
| "update_group i (peer # peers) purchased s =
     and_then (if purchased then Inr ([], s) else pp_purchase i peer s) (\<lambda>(effs, s1).
     and_then (pp_add_peer i peer s1) (\<lambda>s2.
     and_then (update_group i peers True s2) (\<lambda>(effs', s3). Inr (effs @ effs', s3))))"

fun updatePeers :: "(nat \<times> node_id list) list \<Rightarrow> pp_session
    \<Rightarrow> (paralleled_purchase_result fs_effect list \<times> pp_session) go" where
  "updatePeers [] s = Inr ([], s)"
| "updatePeers ((i, peers) # groups) s =
     and_then (update_group i peers False s) (\<lambda>(effs, s1).
     and_then (updatePeers groups s1) (\<lambda>(effs', s2). Inr (effs @ effs', s2)))"

definition pp_tracker_result :: "listener_net_msg \<Rightarrow> pp_session
    \<Rightarrow> (paralleled_purchase_result fs_effect list \<times> pp_session) go" where
  "pp_tracker_result msg s =
     and_then (decode_with tracker_result_msg_c (ln_Data msg)) (\<lambda>result.
       if length (tr_PeerGroup result) = length (tf_KeyGroup (tp_files s))
       then updatePeers (enumerate 0 (tr_PeerGroup result)) s else Inr ([], s))"

text \<open>The first group, from \<open>i\<close> on, whose first key is the first key of the result.\<close>

fun find_group :: "nat \<Rightarrow> go_string list list \<Rightarrow> go_string list \<Rightarrow> nat option go" where
  "find_group i [] keys = Inr None"
| "find_group i (g # gs) keys =
     and_then (go_index keys 0) (\<lambda>k.
     and_then (go_index g 0) (\<lambda>k'.
       if k = k' then Inr (Some i) else find_group (Suc i) gs keys))"

definition pp_terminate :: "bool \<Rightarrow> pp_session \<Rightarrow> paralleled_purchase_result fs_effect list \<times> pp_session" where
  "pp_terminate ok s = ([FResult (NewParalleledPurchaseResult (tp_id s) ok)], s\<lparr>tp_timer := None\<rparr>)"

definition pp_purchase_result :: "node_id list \<Rightarrow> purchase_result \<Rightarrow> pp_session
    \<Rightarrow> (paralleled_purchase_result fs_effect list \<times> pp_session) go" where
  "pp_purchase_result ord result s =
     and_then (find_group 0 (tf_KeyGroup (tp_files s)) (pu_Keys result)) (\<lambda>found. case found of
         None \<Rightarrow> Inr ([], s)
       | Some i \<Rightarrow>
           and_then (go_index (tp_peerGroup s) i) (\<lambda>m.
           let m' = m(pu_Peer result := None);
               s1 = s\<lparr>tp_peerGroup := (tp_peerGroup s)[i := m']\<rparr>
           in if pu_OK result then
                and_then (go_store (tp_fileState s1) i TRACKER_PURCHASED) (\<lambda>states.
                  let s2 = s1\<lparr>tp_fileState := states, tp_unpurchasedCnt := tp_unpurchasedCnt s1 - 1\<rparr>
                  in Inr (if tp_unpurchasedCnt s2 = 0 then pp_terminate True s2 else ([], s2)))
              else
                and_then (go_store (tp_fileState s1) i TRACKER_UNKOWN) (\<lambda>states.
                  let s2 = s1\<lparr>tp_fileState := states\<rparr>
                  in case go_range ord m' of [] \<Rightarrow> Inr ([], s2) | (peer, _) # _ \<Rightarrow> pp_purchase i peer s2)))"

datatype pp_event = PpTracker listener_net_msg | PpPurchase "node_id list" purchase_result | PpTimer | PpCtrl

definition pp_return :: "pp_session \<Rightarrow> paralleled_purchase_result fs_effect list \<times> pp_session" where
  "pp_return s = (let (effs, s') = pp_terminate False s in (effs, s'\<lparr>tp_returned := True\<rparr>))"

fun pp_select :: "pp_event \<Rightarrow> pp_session \<Rightarrow> (paralleled_purchase_result fs_effect list \<times> pp_session) go" where
  "pp_select (PpTracker msg) s = pp_tracker_result msg s"
| "pp_select (PpPurchase ord result) s = pp_purchase_result ord result s"
| "pp_select PpTimer s = Inr (if tp_timer s = None then ([], s) else pp_return s)"
| "pp_select PpCtrl s = Inr (pp_return s)"

definition pp_step :: "pp_event \<Rightarrow> pp_session \<Rightarrow> (paralleled_purchase_result fs_effect list \<times> pp_session) go" where
  "pp_step ev s = (if tp_returned s then Inr ([], s) else pp_select ev s)"

subsection \<open>The file system as the session's environment\<close>

text \<open>\<open>pp_reach s0 out s\<close>: the session reaches \<open>s\<close> while the purchases \<open>out\<close> that it requested are not yet
  answered. The file system answers a purchase once, with the keys and the peer of the request.\<close>

fun purchases :: "paralleled_purchase_result fs_effect list \<Rightarrow> file_purchase_info list" where
  "purchases [] = []"
| "purchases (FPurchase p # effs) = p # purchases effs"
| "purchases (e # effs) = purchases effs"

inductive pp_reach :: "pp_session \<Rightarrow> file_purchase_info list \<Rightarrow> pp_session \<Rightarrow> bool" for s0 where
  pp_init: "pp_reach s0 [] s0"
| pp_tracker: "pp_reach s0 out s \<Longrightarrow> pp_step (PpTracker msg) s = Inr (effs, s')
    \<Longrightarrow> pp_reach s0 (out @ purchases effs) s'"
| pp_answer: "pp_reach s0 out s \<Longrightarrow> p \<in> set out \<Longrightarrow> pu_Keys r = pi_Keys p \<Longrightarrow> pu_Peer r = pi_Peer p
    \<Longrightarrow> pp_step (PpPurchase ord r) s = Inr (effs, s') \<Longrightarrow> pp_reach s0 (remove1 p out @ purchases effs) s'"

subsection \<open>The invariant\<close>

definition group_cnt :: "pp_session \<Rightarrow> nat" where
  "group_cnt s = length (tf_KeyGroup (tp_files s))"

definition unpurchased :: "pp_session \<Rightarrow> nat list" where
  "unpurchased s = filter (\<lambda>i. tp_fileState s ! i \<noteq> TRACKER_PURCHASED) [0..<group_cnt s]"

text \<open>A request whose groups can be told apart by their first keys.\<close>

definition good_request :: "task_file_meta_info \<Rightarrow> bool" where
  "good_request f \<longleftrightarrow> [] \<notin> set (tf_KeyGroup f) \<and> distinct (map hd (tf_KeyGroup f))
     \<and> length (tf_KeyGroup f) < 2 ^ 32
     \<and> length (tf_Sizes f) = length (tf_KeyGroup f) \<and> length (tf_Hashes f) = length (tf_KeyGroup f)"

definition outstanding :: "file_purchase_info list \<Rightarrow> pp_session \<Rightarrow> nat \<Rightarrow> nat" where
  "outstanding out s i = length (filter (\<lambda>p. pi_Keys p = tf_KeyGroup (tp_files s) ! i) out)"

definition pp_inv :: "file_purchase_info list \<Rightarrow> pp_session \<Rightarrow> bool" where
  "pp_inv out s \<longleftrightarrow> good_request (tp_files s)
     \<and> length (tp_fileState s) = group_cnt s \<and> length (tp_peerGroup s) = group_cnt s
     \<and> unat (tp_unpurchasedCnt s) = length (unpurchased s)
     \<and> (\<forall>i < group_cnt s. outstanding out s i = (if tp_fileState s ! i = TRACKER_PURCHASING then 1 else 0))
     \<and> (\<forall>p \<in> set out. pi_Keys p \<in> set (tf_KeyGroup (tp_files s)))"

text \<open>What asking for purchases leaves as it is.\<close>

definition pp_frame :: "pp_session \<Rightarrow> pp_session \<Rightarrow> bool" where
  "pp_frame s s' \<longleftrightarrow> tp_request s' = tp_request s \<and> tp_id s' = tp_id s \<and> tp_returned s' = tp_returned s
     \<and> tp_timer s' = tp_timer s \<and> tp_unpurchasedCnt s' = tp_unpurchasedCnt s
     \<and> unpurchased s' = unpurchased s"

lemma pp_frame_refl [simp]: "pp_frame s s" by (simp add: pp_frame_def)

lemma pp_frame_trans: "pp_frame s t \<Longrightarrow> pp_frame t u \<Longrightarrow> pp_frame s u" by (simp add: pp_frame_def)

lemma pp_frame_cnt [simp]: "pp_frame s s' \<Longrightarrow> group_cnt s' = group_cnt s"
  by (simp add: pp_frame_def group_cnt_def)

definition only_purchases :: "paralleled_purchase_result fs_effect list \<Rightarrow> bool" where
  "only_purchases effs \<longleftrightarrow> (\<forall>e \<in> set effs. \<exists>p. e = FPurchase p)"

lemma only_purchases_simps [simp]:
  "only_purchases []" "only_purchases (FPurchase p # effs) = only_purchases effs"
  "only_purchases (effs @ effs') \<longleftrightarrow> only_purchases effs \<and> only_purchases effs'"
  by (auto simp: only_purchases_def)

lemma purchases_append [simp]: "purchases (a @ b) = purchases a @ purchases b"
  by (induction a rule: purchases.induct) simp_all

lemma hd_group_inj:
  "good_request f \<Longrightarrow> i < length (tf_KeyGroup f) \<Longrightarrow> j < length (tf_KeyGroup f)
    \<Longrightarrow> hd (tf_KeyGroup f ! i) = hd (tf_KeyGroup f ! j) \<Longrightarrow> i = j"
  by (metis good_request_def length_map nth_eq_iff_index_eq nth_map)

lemma group_inj:
  "good_request f \<Longrightarrow> i < length (tf_KeyGroup f) \<Longrightarrow> j < length (tf_KeyGroup f)
    \<Longrightarrow> tf_KeyGroup f ! i = tf_KeyGroup f ! j \<longleftrightarrow> i = j"
  using hd_group_inj by metis

lemma pp_purchase_ok:
  assumes "pp_inv out s" and "i < group_cnt s"
  shows "\<exists>effs s'. pp_purchase i peer s = Inr (effs, s') \<and> only_purchases effs
    \<and> pp_inv (out @ purchases effs) s' \<and> pp_frame s s'"
proof (cases "tp_fileState s ! i = TRACKER_UNKOWN")
  case True
  let ?f = "tp_files s"
  let ?p = "NewFilePurchaseInfo (tf_KeyGroup ?f ! i) (tf_Sizes ?f ! i) peer (tf_Hashes ?f ! i) (tp_purchaseResultChan s)"
  let ?s = "s\<lparr>tp_fileState := (tp_fileState s)[i := TRACKER_PURCHASING]\<rparr>"
  have len: "length (tp_fileState s) = group_cnt s" "length (tp_peerGroup s) = group_cnt s" "good_request ?f"
    using assms(1) by (simp_all add: pp_inv_def)
  have n: "i < length (tf_KeyGroup ?f)" "i < length (tf_Sizes ?f)" "i < length (tf_Hashes ?f)"
    using assms(2) len(3) by (simp_all add: group_cnt_def good_request_def)
  have run: "pp_purchase i peer s = Inr ([FPurchase ?p], ?s)"
    using True len assms(2) n by (simp add: pp_purchase_def)
  have "(tp_fileState s)[i := TRACKER_PURCHASING] ! j = TRACKER_PURCHASED \<longleftrightarrow> tp_fileState s ! j = TRACKER_PURCHASED" for j
    using True len(1) assms(2) by (cases "i = j") simp_all
  then have un: "unpurchased ?s = unpurchased s"
    by (simp add: unpurchased_def group_cnt_def)
  have "outstanding (out @ [?p]) ?s j = (if tp_fileState ?s ! j = TRACKER_PURCHASING then 1 else 0)"
    if "j < group_cnt ?s" for j
  proof -
    have j: "j < length (tf_KeyGroup ?f)" using that by (simp add: group_cnt_def)
    have "outstanding out s j = (if tp_fileState s ! j = TRACKER_PURCHASING then 1 else 0)"
      using assms(1) j by (simp add: pp_inv_def group_cnt_def)
    moreover have "outstanding (out @ [?p]) ?s j = outstanding out s j + (if j = i then 1 else 0)"
      using group_inj [OF len(3) n(1) j] by (auto simp: outstanding_def NewFilePurchaseInfo_def)
    ultimately show ?thesis using True len(1) assms(2) by (auto simp: nth_list_update)
  qed
  then have "pp_inv (out @ [?p]) ?s"
    using assms(1) un n(1) by (auto simp: pp_inv_def group_cnt_def NewFilePurchaseInfo_def)
  then show ?thesis using run un by (simp add: pp_frame_def)
next
  case False
  then show ?thesis using assms by (simp add: pp_purchase_def pp_inv_def)
qed

lemma pp_add_peer_ok:
  assumes "pp_inv out s" and "i < group_cnt s"
  shows "\<exists>s'. pp_add_peer i peer s = Inr s' \<and> pp_inv out s' \<and> pp_frame s s'"
proof -
  let ?s = "s\<lparr>tp_peerGroup := (tp_peerGroup s)[i := (tp_peerGroup s ! i)(peer \<mapsto> ())]\<rparr>"
  have g: "group_cnt ?s = group_cnt s" "unpurchased ?s = unpurchased s" "outstanding out ?s = outstanding out s"
    by (simp_all add: group_cnt_def unpurchased_def outstanding_def fun_eq_iff)
  have inv: "pp_inv out ?s" using assms(1) by (simp add: pp_inv_def g)
  have len: "i < length (tp_peerGroup s)" using assms by (simp add: pp_inv_def)
  have run: "pp_add_peer i peer s = Inr ?s" using len by (simp add: pp_add_peer_def)
  have fr: "pp_frame s ?s" by (simp add: pp_frame_def g(2))
  show ?thesis by (intro exI [of _ ?s] conjI run inv fr)
qed

lemma update_group_ok:
  assumes "pp_inv out s" and "i < group_cnt s"
  shows "\<exists>effs s'. update_group i peers b s = Inr (effs, s') \<and> only_purchases effs
    \<and> pp_inv (out @ purchases effs) s' \<and> pp_frame s s'"
  using assms
proof (induction peers arbitrary: b s out)
  case (Cons peer peers)
  obtain e1 s1 where 1: "(if b then Inr ([], s) else pp_purchase i peer s) = Inr (e1, s1)"
    "only_purchases e1" "pp_inv (out @ purchases e1) s1" "pp_frame s s1"
    using pp_purchase_ok [OF Cons.prems, of peer] Cons.prems(1) by (cases b) auto
  obtain s2 where 2: "pp_add_peer i peer s1 = Inr s2" "pp_inv (out @ purchases e1) s2" "pp_frame s1 s2"
    using pp_add_peer_ok [OF 1(3), of i peer] 1(4) Cons.prems(2) by auto
  obtain e3 s3 where 3: "update_group i peers True s2 = Inr (e3, s3)" "only_purchases e3"
    "pp_inv ((out @ purchases e1) @ purchases e3) s3" "pp_frame s2 s3"
    using Cons.IH [OF 2(2), of True] 1(4) 2(3) Cons.prems(2) by auto
  have "pp_frame s s3" using 1(4) 2(3) 3(4) pp_frame_trans by blast
  then show ?case using 1 2 3 by simp
qed auto

lemma updatePeers_ok:
  assumes "pp_inv out s" and "\<forall>g \<in> set gs. fst g < group_cnt s"
  shows "\<exists>effs s'. updatePeers gs s = Inr (effs, s') \<and> only_purchases effs
    \<and> pp_inv (out @ purchases effs) s' \<and> pp_frame s s'"
  using assms
proof (induction gs arbitrary: s out)
  case (Cons g gs)
  obtain i peers where g: "g = (i, peers)" by (cases g)
  obtain e1 s1 where 1: "update_group i peers False s = Inr (e1, s1)" "only_purchases e1"
    "pp_inv (out @ purchases e1) s1" "pp_frame s s1"
    using update_group_ok [OF Cons.prems(1), of i] Cons.prems(2) g by force
  obtain e2 s2 where 2: "updatePeers gs s1 = Inr (e2, s2)" "only_purchases e2"
    "pp_inv ((out @ purchases e1) @ purchases e2) s2" "pp_frame s1 s2"
    using Cons.IH [OF 1(3)] Cons.prems(2) 1(4) by force
  have "pp_frame s s2" using 1(4) 2(4) pp_frame_trans by blast
  then show ?case using 1 2 g by simp
qed auto

lemma tracker_result_ok:
  assumes "pp_inv out s"
  shows "\<exists>effs s'. pp_tracker_result msg s = Inr (effs, s') \<and> only_purchases effs
    \<and> pp_inv (out @ purchases effs) s' \<and> pp_frame s s'"
proof -
  obtain r where r: "decode_with tracker_result_msg_c (ln_Data msg) = Inr r"
    using tracker_result_msg.decode_total by blast
  show ?thesis
  proof (cases "length (tr_PeerGroup r) = length (tf_KeyGroup (tp_files s))")
    case True
    then have "\<forall>g \<in> set (enumerate 0 (tr_PeerGroup r)). fst g < group_cnt s"
      by (auto simp: group_cnt_def in_set_enumerate_eq)
    from updatePeers_ok [OF assms this] show ?thesis using r True by (simp add: pp_tracker_result_def)
  qed (use assms r in \<open>simp add: pp_tracker_result_def\<close>)
qed

lemma find_group_hit:
  assumes "i < length gs" and "[] \<notin> set gs" and "distinct (map hd gs)"
  shows "find_group k gs (gs ! i) = Inr (Some (k + i))"
  using assms
proof (induction gs arbitrary: i k)
  case (Cons g gs)
  show ?case
  proof (cases i)
    case 0
    then show ?thesis using Cons.prems by (cases g) simp_all
  next
    case (Suc j)
    then have j: "j < length gs" "gs ! j \<in> set gs" using Cons.prems(1) by simp_all
    have "hd (gs ! j) \<in> hd ` set gs" using j(2) by (rule imageI)
    then have "hd (gs ! j) \<noteq> hd g" using Cons.prems(3) by auto
    moreover have "gs ! j \<noteq> []" "g \<noteq> []" using Cons.prems(2) j(2) by auto
    ultimately show ?thesis using Cons.IH [OF j(1), of "Suc k"] Cons.prems(2,3) Suc
      by (cases g; cases "gs ! j") simp_all
  qed
qed simp

lemma length_filter_remove1:
  "p \<in> set xs \<Longrightarrow> length (filter P (remove1 p xs)) = length (filter P xs) - (if P p then 1 else 0)"
  by (simp add: filter_remove1 length_remove1)

lemma length_filter_neq: "distinct xs \<Longrightarrow> i \<in> set xs \<Longrightarrow> Suc (length (filter (\<lambda>j. j \<noteq> i) xs)) = length xs"
proof -
  assume a: "distinct xs" "i \<in> set xs"
  have "filter (\<lambda>j. j \<noteq> i) xs = remove1 i xs"
    using distinct_remove1_removeAll [OF a(1), of i] removeAll_filter_not_eq [of i]
    by (metis (mono_tags, lifting) filter_cong)
  then show "Suc (length (filter (\<lambda>j. j \<noteq> i) xs)) = length xs"
    using a length_pos_if_in_set [OF a(2)] by (simp add: length_remove1)
qed

lemma unpurchased_update:
  assumes "i < length xs" and "xs ! i = TRACKER_PURCHASING"
  shows "filter (\<lambda>j. xs[i := st] ! j \<noteq> TRACKER_PURCHASED) [0..<n]
    = (if st = TRACKER_PURCHASED then filter (\<lambda>j. j \<noteq> i) (filter (\<lambda>j. xs ! j \<noteq> TRACKER_PURCHASED) [0..<n])
       else filter (\<lambda>j. xs ! j \<noteq> TRACKER_PURCHASED) [0..<n])"
proof -
  have "xs[i := st] ! j \<noteq> TRACKER_PURCHASED \<longleftrightarrow>
      (if st = TRACKER_PURCHASED then j \<noteq> i \<and> xs ! j \<noteq> TRACKER_PURCHASED else xs ! j \<noteq> TRACKER_PURCHASED)" for j
    using assms by (cases "i = j") auto
  then show ?thesis by (simp add: conj_commute)
qed

text \<open>An unanswered purchase of a group means that the group is being purchased.\<close>

lemma pending:
  assumes "pp_inv out s" and "p \<in> set out" and "i < group_cnt s" and "pi_Keys p = tf_KeyGroup (tp_files s) ! i"
  shows "tp_fileState s ! i = TRACKER_PURCHASING"
proof -
  have "p \<in> set (filter (\<lambda>p. pi_Keys p = tf_KeyGroup (tp_files s) ! i) out)" using assms(2,4) by simp
  then have "0 < outstanding out s i" unfolding outstanding_def by (rule length_pos_if_in_set)
  moreover have "outstanding out s i = (if tp_fileState s ! i = TRACKER_PURCHASING then 1 else 0)"
    using assms(1,3) by (simp add: pp_inv_def)
  ultimately show ?thesis by (simp split: if_splits)
qed

text \<open>Setting the state of the group whose purchase was answered.\<close>

lemma answered_inv:
  assumes "pp_inv out s" and "p \<in> set out" and "i < group_cnt s" and "pi_Keys p = tf_KeyGroup (tp_files s) ! i"
    and "st \<noteq> TRACKER_PURCHASING"
    and "s' = s\<lparr>tp_peerGroup := (tp_peerGroup s)[i := m], tp_fileState := (tp_fileState s)[i := st], tp_unpurchasedCnt := c\<rparr>"
    and "unat c = length (unpurchased s')"
  shows "pp_inv (remove1 p out) s'"
proof -
  have len: "length (tp_fileState s) = group_cnt s" "good_request (tp_files s)" using assms(1) by (simp_all add: pp_inv_def)
  have i: "i < length (tf_KeyGroup (tp_files s))" using assms(3) by (simp add: group_cnt_def)
  have pend: "tp_fileState s ! i = TRACKER_PURCHASING" by (rule pending [OF assms(1-4)])
  have g: "group_cnt s' = group_cnt s" "tp_request s' = tp_request s" by (simp_all add: assms(6) group_cnt_def)
  have "outstanding (remove1 p out) s' j = (if tp_fileState s' ! j = TRACKER_PURCHASING then 1 else 0)"
    if "j < group_cnt s'" for j
  proof -
    have j: "j < length (tf_KeyGroup (tp_files s))" using that g(1) by (simp add: group_cnt_def)
    have old: "outstanding out s j = (if tp_fileState s ! j = TRACKER_PURCHASING then 1 else 0)"
      using assms(1) j by (simp add: pp_inv_def group_cnt_def)
    have "outstanding (remove1 p out) s' j = outstanding out s j - (if j = i then 1 else 0)"
      using length_filter_remove1 [OF assms(2)] assms(4) group_inj [OF len(2) i j]
      by (auto simp: outstanding_def g(2))
    moreover have "tp_fileState s' ! j = (if j = i then st else tp_fileState s ! j)"
      using assms(3) len(1) by (simp add: assms(6))
    ultimately show ?thesis using old pend assms(5) by simp
  qed
  moreover have "pi_Keys q \<in> set (tf_KeyGroup (tp_files s'))" if "q \<in> set (remove1 p out)" for q
    using that assms(1) notin_set_remove1 unfolding g(2) pp_inv_def by fast
  moreover have "length (tp_fileState s') = group_cnt s" "length (tp_peerGroup s') = group_cnt s"
    using assms(1) by (simp_all add: assms(6) pp_inv_def)
  moreover have "unat (tp_unpurchasedCnt s') = length (unpurchased s')" using assms(6,7) by simp
  ultimately show "pp_inv (remove1 p out) s'"
    using len(2) by (simp add: pp_inv_def g)
qed

lemma unpurchased_all: "unpurchased s = [] \<longleftrightarrow> (\<forall>j < group_cnt s. tp_fileState s ! j = TRACKER_PURCHASED)"
  by (auto simp: unpurchased_def filter_empty_conv)

lemma pp_terminate_eq: "pp_terminate ok s = ([FResult (NewParalleledPurchaseResult (tp_id s) ok)], s\<lparr>tp_timer := None\<rparr>)"
  by (simp add: pp_terminate_def)

lemma pp_inv_timer [simp]: "pp_inv out (s\<lparr>tp_timer := t\<rparr>) = pp_inv out s"
  by (simp add: pp_inv_def unpurchased_def outstanding_def group_cnt_def)

lemma purchase_result_ok:
  assumes "pp_inv out s" and "p \<in> set out" and "pu_Keys r = pi_Keys p"
  shows "\<exists>effs s'. pp_purchase_result ord r s = Inr (effs, s') \<and> pp_inv (remove1 p out @ purchases effs) s'
    \<and> tp_request s' = tp_request s \<and> tp_id s' = tp_id s \<and> tp_returned s' = tp_returned s
    \<and> {x. FResult x \<in> set effs} = (if \<forall>j < group_cnt s'. tp_fileState s' ! j = TRACKER_PURCHASED
        then {NewParalleledPurchaseResult (tp_id s) True} else {})"
proof -
  let ?f = "tp_files s"
  have len: "length (tp_fileState s) = group_cnt s" "length (tp_peerGroup s) = group_cnt s" "good_request ?f"
    using assms(1) by (simp_all add: pp_inv_def)
  have "pi_Keys p \<in> set (tf_KeyGroup ?f)" using assms(1,2) by (simp add: pp_inv_def)
  then obtain i where i: "i < group_cnt s" "pi_Keys p = tf_KeyGroup ?f ! i"
    unfolding group_cnt_def by (metis in_set_conv_nth)
  have find: "find_group 0 (tf_KeyGroup ?f) (pu_Keys r) = Inr (Some i)"
    using find_group_hit [of i "tf_KeyGroup ?f" 0] i len(3) assms(3) by (simp add: group_cnt_def good_request_def)
  let ?m = "(tp_peerGroup s ! i)(pu_Peer r := None)"
  let ?pg = "(tp_peerGroup s)[i := ?m]"
  have pend: "tp_fileState s ! i = TRACKER_PURCHASING" by (rule pending [OF assms(1,2) i])
  show ?thesis
  proof (cases "pu_OK r")
    case True
    let ?c = "tp_unpurchasedCnt s - 1"
    let ?s = "s\<lparr>tp_peerGroup := ?pg, tp_fileState := (tp_fileState s)[i := TRACKER_PURCHASED], tp_unpurchasedCnt := ?c\<rparr>"
    have un: "unpurchased ?s = filter (\<lambda>j. j \<noteq> i) (unpurchased s)"
      using unpurchased_update [of i "tp_fileState s"] pend len(1) i(1) by (simp add: unpurchased_def group_cnt_def)
    have "i \<in> set (unpurchased s)" "distinct (unpurchased s)" using pend i(1) by (simp_all add: unpurchased_def)
    then have "Suc (length (unpurchased ?s)) = length (unpurchased s)" unfolding un by (rule length_filter_neq [rotated])
    then have less: "length (unpurchased ?s) = length (unpurchased s) - 1" "0 < length (unpurchased s)" by linarith+
    have cnt: "unat (tp_unpurchasedCnt s) = length (unpurchased s)" using assms(1) by (simp add: pp_inv_def)
    then have "tp_unpurchasedCnt s \<noteq> 0" using less(2) by auto
    then have "unat ?c = length (unpurchased ?s)" using unat_minus_one [of "tp_unpurchasedCnt s"] cnt less(1) by simp
    then have inv: "pp_inv (remove1 p out) ?s" by (intro answered_inv [OF assms(1,2) i _ refl]) simp_all
    have zero: "?c = 0 \<longleftrightarrow> (\<forall>j < group_cnt ?s. tp_fileState ?s ! j = TRACKER_PURCHASED)"
      using \<open>unat ?c = length (unpurchased ?s)\<close> unfolding unpurchased_all [symmetric]
      by (metis length_0_conv unat_eq_zero)
    have run: "pp_purchase_result ord r s = Inr (if ?c = 0 then pp_terminate True ?s else ([], ?s))"
      using find True len i(1) by (simp add: pp_purchase_result_def Let_def)
    show ?thesis
      using run inv zero by (cases "?c = 0") (simp_all add: pp_terminate_eq group_cnt_def)
  next
    case False
    let ?s = "s\<lparr>tp_peerGroup := ?pg, tp_fileState := (tp_fileState s)[i := TRACKER_UNKOWN]\<rparr>"
    have un: "unpurchased ?s = unpurchased s"
      using unpurchased_update [of i "tp_fileState s"] pend len(1) i(1) by (simp add: unpurchased_def group_cnt_def)
    have cnt: "unat (tp_unpurchasedCnt s) = length (unpurchased ?s)" using assms(1) un by (simp add: pp_inv_def)
    have s: "?s = s\<lparr>tp_peerGroup := ?pg, tp_fileState := (tp_fileState s)[i := TRACKER_UNKOWN], tp_unpurchasedCnt := tp_unpurchasedCnt s\<rparr>"
      by simp
    have inv: "pp_inv (remove1 p out) ?s" by (rule answered_inv [OF assms(1,2) i _ s cnt]) simp
    have i': "i < group_cnt ?s" using i(1) by (simp add: group_cnt_def)
    have "\<exists>effs s'. (case go_range ord ?m of [] \<Rightarrow> Inr ([], ?s) | (peer, _) # _ \<Rightarrow> pp_purchase i peer ?s) = Inr (effs, s')
      \<and> only_purchases effs \<and> pp_inv (remove1 p out @ purchases effs) s' \<and> pp_frame ?s s'"
    proof (cases "go_range ord ?m")
      case Nil
      then show ?thesis using inv by (intro exI [of _ "[]"] exI [of _ ?s]) (simp del: pp_inv_timer)
    next
      case (Cons pu us)
      then show ?thesis using pp_purchase_ok [OF inv i', of "fst pu"] by (simp add: case_prod_beta)
    qed
    then obtain effs s' where buy: "(case go_range ord ?m of [] \<Rightarrow> Inr ([], ?s) | (peer, _) # _ \<Rightarrow> pp_purchase i peer ?s) = Inr (effs, s')"
      "only_purchases effs" "pp_inv (remove1 p out @ purchases effs) s'" "pp_frame ?s s'"
      by (elim exE conjE) (rule that)
    have run: "pp_purchase_result ord r s = Inr (effs, s')"
      using find False len i(1) buy(1) by (simp add: pp_purchase_result_def Let_def)
    have "unpurchased s' = unpurchased s" using buy(4) unfolding pp_frame_def un by blast
    moreover have "i \<in> set (unpurchased s)" using pend i(1) by (simp add: unpurchased_def)
    ultimately have "unpurchased s' \<noteq> []" by auto
    then have "\<not> (\<forall>j < group_cnt s'. tp_fileState s' ! j = TRACKER_PURCHASED)" by (simp add: unpurchased_all)
    moreover have "{x. FResult x \<in> set effs} = {}" using buy(2) by (auto simp: only_purchases_def)
    moreover have "tp_request s' = tp_request s" "tp_id s' = tp_id s" "tp_returned s' = tp_returned s"
      using buy(4) by (simp_all add: pp_frame_def)
    ultimately show ?thesis using run buy(3) by (intro exI [of _ effs] exI [of _ s']) auto
  qed
qed

subsection \<open>Properties\<close>

lemma pp_Start_session:
  assumes "pp_Start (NewParalleledPurchaseSession i request h c1 c2) = Inr (effs, s)"
  shows "tp_request s = request" "tp_id s = i" "\<not> tp_returned s" "tp_fileState s = replicate (group_cnt s) TRACKER_UNKOWN"
    "tp_peerGroup s = replicate (group_cnt s) Map.empty" "tp_unpurchasedCnt s = word_of_nat (group_cnt s)"
  using assms by (auto simp: pp_Start_def NewParalleledPurchaseSession_def and_then_Inr_iff Let_def group_cnt_def)

lemma pp_Start_inv:
  assumes "pp_Start (NewParalleledPurchaseSession i request h c1 c2) = Inr (effs, s)"
    and "good_request (pp_FileInfo request)"
  shows "pp_inv [] s"
proof -
  note s = pp_Start_session [OF assms(1)]
  have n: "group_cnt s < 2 ^ 32" using assms(2) s(1) by (simp add: group_cnt_def good_request_def)
  have "unpurchased s = [0..<group_cnt s]" by (simp add: unpurchased_def s(4) cong: filter_cong)
  then show ?thesis using assms(2) s n by (simp add: pp_inv_def outstanding_def unat_word_of_nat)
qed

lemma pp_step_tracker:
  assumes "pp_inv out s"
  shows "\<exists>effs s'. pp_step (PpTracker msg) s = Inr (effs, s') \<and> only_purchases effs
    \<and> pp_inv (out @ purchases effs) s' \<and> tp_request s' = tp_request s \<and> tp_id s' = tp_id s"
  using tracker_result_ok [OF assms, of msg] assms by (auto simp: pp_step_def pp_frame_def)

lemma pp_step_answer:
  assumes "pp_inv out s" and "p \<in> set out" and "pu_Keys r = pi_Keys p" and "\<not> tp_returned s"
  shows "\<exists>effs s'. pp_step (PpPurchase ord r) s = Inr (effs, s') \<and> pp_inv (remove1 p out @ purchases effs) s'
    \<and> tp_request s' = tp_request s \<and> tp_id s' = tp_id s \<and> tp_returned s' = tp_returned s
    \<and> {x. FResult x \<in> set effs} = (if \<forall>j < group_cnt s'. tp_fileState s' ! j = TRACKER_PURCHASED
        then {NewParalleledPurchaseResult (tp_id s) True} else {})"
  using purchase_result_ok [OF assms(1-3), of ord] assms(4) by (simp add: pp_step_def)

lemma pp_reach_inv:
  assumes "pp_reach s0 out s" and "pp_inv [] s0" and "\<not> tp_returned s0"
  shows "pp_inv out s \<and> tp_request s = tp_request s0 \<and> tp_id s = tp_id s0 \<and> \<not> tp_returned s"
  using assms
proof (induction rule: pp_reach.induct)
  case (pp_tracker out s msg effs s')
  then have inv: "pp_inv out s" "\<not> tp_returned s" by simp_all
  have "pp_tracker_result msg s = Inr (effs, s')" using pp_tracker inv(2) by (simp add: pp_step_def)
  then have "pp_inv (out @ purchases effs) s' \<and> pp_frame s s'" using tracker_result_ok [OF inv(1), of msg] by auto
  then show ?case using pp_tracker by (simp add: pp_frame_def)
next
  case (pp_answer out s p r ord effs s')
  then have inv: "pp_inv out s" "\<not> tp_returned s" by simp_all
  have "pp_inv (remove1 p out @ purchases effs) s' \<and> tp_request s' = tp_request s \<and> tp_id s' = tp_id s
      \<and> tp_returned s' = tp_returned s"
    using pp_step_answer [OF inv(1) pp_answer(2,3) inv(2), of ord] pp_answer(5) by auto
  then show ?case using pp_answer inv by simp
qed simp



text \<open>Two groups with the same first key: the second purchase is credited to the first group, and the
  session reports success although the second group was never marked as purchased.\<close>

lemma shared_first_key_credits_wrong_group:
  assumes "tf_KeyGroup (tp_files s) = [k # ks, k # ls]" and "length (tp_peerGroup s) = 2"
    and "tp_fileState s = [TRACKER_PURCHASED, TRACKER_PURCHASING]" and "tp_unpurchasedCnt s = 1"
    and "\<not> tp_returned s" and "pu_Keys r = k # ls" and "pu_OK r"
  shows "\<exists>s'. pp_step (PpPurchase ord r) s = Inr ([FResult (NewParalleledPurchaseResult (tp_id s) True)], s')
    \<and> tp_fileState s' ! 1 = TRACKER_PURCHASING"
  using assms by (simp add: pp_step_def pp_purchase_result_def pp_terminate_def Let_def)

subsection \<open>Witnesses\<close>

definition demo_pp :: paralleled_purchase_info where
  "demo_pp = NewParalleledPurchaseInfo (NewTaskFileMetaInfo [[[97]]] [3] [GenSHA1 [11, 45, 14]] []) 9"

lemma demo_pp_sel [simp]:
  "tf_KeyGroup (pp_FileInfo demo_pp) = [[[97]]]" "tf_Sizes (pp_FileInfo demo_pp) = [3]"
  "tf_Hashes (pp_FileInfo demo_pp) = [GenSHA1 [11, 45, 14]]"
  by (simp_all add: demo_pp_def NewParalleledPurchaseInfo_def NewTaskFileMetaInfo_def)

lemma demo_pp_good: "good_request (pp_FileInfo demo_pp)"
  by (simp add: good_request_def)

lemma demo_pp_run:
  "\<exists>effs0 s0 s p. pp_Start (NewParalleledPurchaseSession 1 demo_pp h 1 2) = Inr (effs0, s0)
    \<and> pp_reach s0 [p] s \<and> pi_Keys p = [[97]]"
proof -
  let ?s0 = "NewParalleledPurchaseSession 1 demo_pp h 1 2"
  obtain bs where "encode_with tracker_request_msg_c \<lparr>tq_KeyGroup = [[[97]]]\<rparr> = Inr bs"
    using tracker_request_msg.encode_total [of "\<lparr>tq_KeyGroup = [[[97]]]\<rparr>"] by auto
  then obtain effs0 s0 where start: "pp_Start ?s0 = Inr (effs0, s0)"
    by (simp add: pp_Start_def NewParalleledPurchaseSession_def Let_def)
  note s0 = pp_Start_session [OF start]
  let ?res = "\<lparr>tr_PeerGroup = [[replicate 20 5]]\<rparr>"
  obtain tbs where tbs: "decode_with tracker_result_msg_c tbs = Inr ?res"
    using tracker_result_msg.encode_total [of ?res] by auto
  let ?msg = "\<lparr>ln_FromPeerID = [], ln_FromHandlerID = 0, ln_Data = tbs\<rparr>"
  have n: "group_cnt s0 = 1" by (simp add: group_cnt_def s0(1))
  obtain p s where "pp_step (PpTracker ?msg) s0 = Inr ([FPurchase p], s)" "pi_Keys p = [[97]]"
    using s0 tbs n
    by (simp add: pp_step_def pp_tracker_result_def pp_purchase_def pp_add_peer_def NewFilePurchaseInfo_def)
  then show ?thesis using start pp_tracker [OF pp_init, of ?msg] by fastforce
qed



end
