(* ===== verification/File_System.thy ===== *)
theory File_System
  imports Share_Session Purchase_Session Tracker_Session
begin

text \<open>
  The loop of \<open>NaiveFS\<close> (\<open>src/src/fs/fs.go\<close>): it starts the sessions for the requests of its users and
  of other nodes, keeps the books of who holds which file, hands results back and answers tracker
  requests. \<open>fs_step\<close> is one turn of its \<open>select\<close>, or the turn of one of the goroutines that it
  starts to hand a result to a user. New channels and the orders of map iterations are arguments.
\<close>

subsection \<open>State, events and outputs\<close>

text \<open>A goroutine that hands over a result: before the send, and between the send and \<open>delete\<close>.\<close>

datatype fs_task =
    GiveShare share_result | ForgetShare u32
  | GivePurchase purchase_result | ForgetPurchase u32
  | GiveParalleled paralleled_purchase_result | ForgetParalleled u32

record fs_state =
  fs_nfs :: naive_fs
  fs_net :: emulator
  fs_tasks :: "fs_task list"
  fs_stopped :: bool

datatype fs_event =
    FsShare file_share_info chan chan
  | FsShareRequest listener_net_msg chan
  | FsShareResult "node_id list" share_result
  | FsShareRecvResult share_recv_result
  | FsPurchase file_purchase_info chan
  | FsPurchaseRequest listener_net_msg chan
  | FsPurchaseResult purchase_result
  | FsParalleled paralleled_purchase_info chan chan
  | FsParalleledResult paralleled_purchase_result
  | FsTracker "nat \<Rightarrow> node_id list" listener_net_msg
  | FsCtrl
  | FsTask nat

datatype fs_output =
    OutShare share_session "share_result fs_effect list"
  | OutRecv share_recv_session "share_recv_result fs_effect list"
  | OutPurchase purchase_session "purchase_result fs_effect list"
  | OutSell sell_session "unit fs_effect list"
  | OutParalleled pp_session "paralleled_purchase_result fs_effect list"
  | OutNet net_call
  | UserShare chan share_result
  | UserPurchase chan purchase_result
  | UserParalleled chan paralleled_purchase_result

subsection \<open>Starting sessions\<close>

text \<open>\<open>GetHandler\<close> on the factory of the file system.\<close>

definition fs_GetHandler :: "fs_state \<Rightarrow> appli_handler \<times> fs_state" where
  "fs_GetHandler st = (let (h, factory, e) = GetHandler (nf_factory (fs_nfs st)) (fs_net st)
     in (h, st\<lparr>fs_nfs := (fs_nfs st)\<lparr>nf_factory := factory\<rparr>, fs_net := e\<rparr>))"

text \<open>The session and the network share the new handler: what \<open>Start\<close> adds to it, the network sees.\<close>

definition fs_put_handler :: "appli_handler \<Rightarrow> fs_state \<Rightarrow> fs_state" where
  "fs_put_handler h st = st\<lparr>fs_net := on_handler (ah_id h) (\<lambda>_. h) (fs_net st)\<rparr>"

text \<open>\<open>Start\<close>: the listeners of the static handler.\<close>

definition fs_Start :: "chan \<Rightarrow> chan \<Rightarrow> chan \<Rightarrow> fs_state \<Rightarrow> fs_state" where
  "fs_Start shareRequestChan purchaseRequestChan trackerRequestChan st =
     (let h = AddListener TPROC_WAIT trackerRequestChan (AddListener PPROC_WAIT purchaseRequestChan
            (AddListener SPROC_WAIT shareRequestChan (nf_static (fs_nfs st))))
      in fs_put_handler h (st\<lparr>fs_nfs := (fs_nfs st)\<lparr>nf_static := h\<rparr>\<rparr>))"

definition fs_next_id :: "fs_state \<Rightarrow> u32" where
  "fs_next_id st = nf_sessionId (fs_nfs st) + 1"

definition fs_share :: "file_share_info \<Rightarrow> chan \<Rightarrow> chan \<Rightarrow> fs_state \<Rightarrow> (fs_output list \<times> fs_state) go" where
  "fs_share info c1 c2 st =
     (let i = fs_next_id st;
          st1 = st\<lparr>fs_nfs := (fs_nfs st)\<lparr>nf_sessionId := i,
             nf_userShareResultChans := (nf_userShareResultChans (fs_nfs st))(i \<mapsto> si_ResultChan info)\<rparr>\<rparr>;
          (handler, st2) = fs_GetHandler st1;
          session = NewShareSession i info handler c1 c2
      in and_then (share_Start (fs_nfs st2) session) (\<lambda>(effs, s).
           Inr ([OutShare s effs], fs_put_handler (sh_handler s) st2)))"

definition fs_share_request :: "listener_net_msg \<Rightarrow> chan \<Rightarrow> fs_state \<Rightarrow> (fs_output list \<times> fs_state) go" where
  "fs_share_request msg c st =
     and_then (decode_with share_request_msg_c (ln_Data msg)) (\<lambda>req.
       let (handler, st1) = fs_GetHandler st;
           session = NewShareRecvSession (sr_ID req) (sr_Hash req) (sr_Size req) (ln_FromPeerID msg)
             (ln_FromHandlerID msg) handler c
       in and_then (recv_Start session) (\<lambda>(effs, s).
            Inr ([OutRecv s effs], fs_put_handler (sv_handler s) st1)))"

definition fs_purchase :: "file_purchase_info \<Rightarrow> chan \<Rightarrow> fs_state \<Rightarrow> (fs_output list \<times> fs_state) go" where
  "fs_purchase info c st =
     (let i = fs_next_id st;
          st1 = st\<lparr>fs_nfs := (fs_nfs st)\<lparr>nf_sessionId := i,
             nf_userPurchaseResultChans := (nf_userPurchaseResultChans (fs_nfs st))(i \<mapsto> pi_ResultChan info)\<rparr>\<rparr>;
          (handler, st2) = fs_GetHandler st1;
          session = NewPurchaseSession i info handler c
      in and_then (purchase_Start session) (\<lambda>(effs, s).
           Inr ([OutPurchase s effs], fs_put_handler (ps_handler s) st2)))"

definition fs_purchase_request :: "listener_net_msg \<Rightarrow> chan \<Rightarrow> fs_state \<Rightarrow> (fs_output list \<times> fs_state) go" where
  "fs_purchase_request msg c st =
     and_then (decode_with purchase_request_msg_c (ln_Data msg)) (\<lambda>req.
       let (handler, st1) = fs_GetHandler st;
           session = NewSellSession (pr_Keys req) (ln_FromPeerID msg) (ln_FromHandlerID msg) handler c
       in and_then (sell_Start (fs_nfs st1) session) (\<lambda>(effs, s).
            Inr ([OutSell s effs], st1)))"

definition fs_paralleled :: "paralleled_purchase_info \<Rightarrow> chan \<Rightarrow> chan \<Rightarrow> fs_state \<Rightarrow> (fs_output list \<times> fs_state) go" where
  "fs_paralleled info c1 c2 st =
     (let i = fs_next_id st;
          st1 = st\<lparr>fs_nfs := (fs_nfs st)\<lparr>nf_sessionId := i, nf_userParalleledPurchaseResultChans :=
             (nf_userParalleledPurchaseResultChans (fs_nfs st))(i \<mapsto> pp_ResultChan info)\<rparr>\<rparr>;
          (handler, st2) = fs_GetHandler st1;
          session = NewParalleledPurchaseSession i info handler c1 c2
      in and_then (pp_Start session) (\<lambda>(effs, s).
           Inr ([OutParalleled s effs], fs_put_handler (tp_handler s) st2)))"

subsection \<open>The books\<close>

definition fs_load_peer :: "node_id \<Rightarrow> naive_fs \<Rightarrow> fs_peer_info" where
  "fs_load_peer peer nfs = (case nf_peerInfoDB nfs peer of
     None \<Rightarrow> \<lparr>fp_FilesFrom = Map.empty, fp_FilesTo = Map.empty\<rparr> | Some info \<Rightarrow> info)"

definition fs_store_peer :: "node_id \<Rightarrow> fs_peer_info \<Rightarrow> naive_fs \<Rightarrow> naive_fs" where
  "fs_store_peer peer info nfs = nfs\<lparr>nf_peerInfoDB := (nf_peerInfoDB nfs)(peer \<mapsto> info)\<rparr>"

text \<open>One file of a share that \<open>peer\<close> received; \<open>finfo.(*FileInfo)\<close> panics for a file without info.\<close>

definition share_one_file :: "node_id \<Rightarrow> go_string \<Rightarrow> fs_peer_info \<times> naive_fs \<Rightarrow> (fs_peer_info \<times> naive_fs) go" where
  "share_one_file peer file = (\<lambda>(peerInfo, nfs).
     and_then (go_assert (nf_fileInfoDB nfs file)) (\<lambda>fileInfo.
       Inr (peerInfo\<lparr>fp_FilesTo := (fp_FilesTo peerInfo)(file \<mapsto> ())\<rparr>,
            nfs\<lparr>nf_fileInfoDB := (nf_fileInfoDB nfs)(file \<mapsto>
              fileInfo\<lparr>fi_Peers := (fi_Peers fileInfo)(peer \<mapsto> ())\<rparr>)\<rparr>)))"

definition share_one_peer :: "go_string list \<Rightarrow> node_id \<times> share_session_state \<Rightarrow> naive_fs \<Rightarrow> naive_fs go" where
  "share_one_peer keys = (\<lambda>(peer, state) nfs.
     if state = SHARE_FINISHED then
       and_then (go_fold (share_one_file peer) keys (fs_load_peer peer nfs, nfs)) (\<lambda>(peerInfo, nfs').
         Inr (fs_store_peer peer peerInfo nfs'))
     else Inr nfs)"

definition fs_share_result :: "node_id list \<Rightarrow> share_result \<Rightarrow> fs_state \<Rightarrow> (fs_output list \<times> fs_state) go" where
  "fs_share_result ord result st =
     and_then (go_fold (share_one_peer (rs_Keys result)) (go_range ord (rs_PeerStates result)) (fs_nfs st)) (\<lambda>nfs.
       Inr ([], st\<lparr>fs_nfs := nfs, fs_tasks := fs_tasks st @ [GiveShare result]\<rparr>))"

definition fs_share_recv_result :: "share_recv_result \<Rightarrow> fs_state \<Rightarrow> fs_state" where
  "fs_share_recv_result result st =
     (if rr_OK result then
        (let peerInfo = fs_load_peer (rr_From result) (fs_nfs st);
             info = peerInfo\<lparr>fp_FilesFrom := fold (\<lambda>file m. m(file \<mapsto> ())) (rr_Keys result) (fp_FilesFrom peerInfo)\<rparr>
         in st\<lparr>fs_nfs := fs_store_peer (rr_From result) info (fs_nfs st)\<rparr>)
      else st)"

text \<open>The peers that hold one of \<open>keys\<close>, as the set \<open>peerMap\<close>.\<close>

definition peer_map :: "naive_fs \<Rightarrow> go_string list \<Rightarrow> (node_id \<rightharpoonup> unit)" where
  "peer_map nfs keys = fold (\<lambda>key m. case nf_fileInfoDB nfs key of
     None \<Rightarrow> m | Some fileInfo \<Rightarrow> m ++ fi_Peers fileInfo) keys Map.empty"

definition tracker_answer :: "(nat \<Rightarrow> node_id list) \<Rightarrow> naive_fs \<Rightarrow> go_string list list \<Rightarrow> node_id list list" where
  "tracker_answer ord nfs keyGroup =
     map (\<lambda>(i, keys). map fst (go_range (ord i) (peer_map nfs keys))) (enumerate 0 keyGroup)"

definition fs_tracker :: "(nat \<Rightarrow> node_id list) \<Rightarrow> listener_net_msg \<Rightarrow> fs_state \<Rightarrow> (fs_output list \<times> fs_state) go" where
  "fs_tracker ord msg st =
     and_then (decode_with tracker_request_msg_c (ln_Data msg)) (\<lambda>req.
     and_then (encode_with tracker_result_msg_c
         \<lparr>tr_PeerGroup = tracker_answer ord (fs_nfs st) (tq_KeyGroup req)\<rparr>) (\<lambda>data.
       Inr ([OutNet (appli_SendTo (nf_static (fs_nfs st)) (ln_FromPeerID msg) (ln_FromHandlerID msg)
               TPROC_RECEIVER data)], st)))"

subsection \<open>Handing results over\<close>

text \<open>A send on a channel that is no longer in the map is a send on a nil channel: the goroutine
  blocks for ever and does not reach \<open>delete\<close>.\<close>

fun run_task :: "fs_task \<Rightarrow> naive_fs \<Rightarrow> fs_output list \<times> fs_task list \<times> naive_fs" where
  "run_task (GiveShare r) nfs = (case nf_userShareResultChans nfs (rs_ID r) of
     None \<Rightarrow> ([], [], nfs) | Some c \<Rightarrow> ([UserShare c r], [ForgetShare (rs_ID r)], nfs))"
| "run_task (ForgetShare i) nfs =
     ([], [], nfs\<lparr>nf_userShareResultChans := (nf_userShareResultChans nfs)(i := None)\<rparr>)"
| "run_task (GivePurchase r) nfs = (case nf_userPurchaseResultChans nfs (pu_ID r) of
     None \<Rightarrow> ([], [], nfs) | Some c \<Rightarrow> ([UserPurchase c r], [ForgetPurchase (pu_ID r)], nfs))"
| "run_task (ForgetPurchase i) nfs =
     ([], [], nfs\<lparr>nf_userPurchaseResultChans := (nf_userPurchaseResultChans nfs)(i := None)\<rparr>)"
| "run_task (GiveParalleled r) nfs = (case nf_userParalleledPurchaseResultChans nfs (pq_ID r) of
     None \<Rightarrow> ([], [], nfs) | Some c \<Rightarrow> ([UserParalleled c r], [ForgetParalleled (pq_ID r)], nfs))"
| "run_task (ForgetParalleled i) nfs = ([], [],
     nfs\<lparr>nf_userParalleledPurchaseResultChans := (nf_userParalleledPurchaseResultChans nfs)(i := None)\<rparr>)"

definition fs_run_task :: "nat \<Rightarrow> fs_state \<Rightarrow> fs_output list \<times> fs_state" where
  "fs_run_task n st =
     (if n < length (fs_tasks st) then
        (let (outs, tasks, nfs) = run_task (fs_tasks st ! n) (fs_nfs st)
         in (outs, st\<lparr>fs_nfs := nfs, fs_tasks := take n (fs_tasks st) @ tasks @ drop (Suc n) (fs_tasks st)\<rparr>))
      else ([], st))"

definition add_task :: "fs_task \<Rightarrow> fs_state \<Rightarrow> fs_state" where
  "add_task t st = st\<lparr>fs_tasks := fs_tasks st @ [t]\<rparr>"

subsection \<open>The loop\<close>

fun fs_select :: "fs_event \<Rightarrow> fs_state \<Rightarrow> (fs_output list \<times> fs_state) go" where
  "fs_select (FsShare info c1 c2) st = fs_share info c1 c2 st"
| "fs_select (FsShareRequest msg c) st = fs_share_request msg c st"
| "fs_select (FsShareResult ord result) st = fs_share_result ord result st"
| "fs_select (FsShareRecvResult result) st = Inr ([], fs_share_recv_result result st)"
| "fs_select (FsPurchase info c) st = fs_purchase info c st"
| "fs_select (FsPurchaseRequest msg c) st = fs_purchase_request msg c st"
| "fs_select (FsPurchaseResult result) st = Inr ([], add_task (GivePurchase result) st)"
| "fs_select (FsParalleled info c1 c2) st = fs_paralleled info c1 c2 st"
| "fs_select (FsParalleledResult result) st = Inr ([], add_task (GiveParalleled result) st)"
| "fs_select (FsTracker ord msg) st = fs_tracker ord msg st"
| "fs_select FsCtrl st = Inr ([], st\<lparr>fs_stopped := True\<rparr>)"
| "fs_select (FsTask n) st = Inr (fs_run_task n st)"

fun is_task :: "fs_event \<Rightarrow> bool" where
  "is_task (FsTask n) = True"
| "is_task _ = False"

definition fs_step :: "fs_event \<Rightarrow> fs_state \<Rightarrow> (fs_output list \<times> fs_state) go" where
  "fs_step ev st = (if fs_stopped st \<and> \<not> is_task ev then Inr ([], st) else fs_select ev st)"

subsection \<open>Runs\<close>

text \<open>\<open>fs_runs st0 evs outs st\<close>: the loop gets from \<open>st0\<close> to \<open>st\<close> by the events \<open>evs\<close> with the outputs
  \<open>outs\<close>, while the sessions and the user store files.\<close>

inductive fs_runs :: "fs_state \<Rightarrow> fs_event list \<Rightarrow> fs_output list \<Rightarrow> fs_state \<Rightarrow> bool" for st0 where
  runs_start: "fs_runs st0 [] [] st0"
| runs_step: "fs_runs st0 evs outs st \<Longrightarrow> fs_step ev st = Inr (out, st') \<Longrightarrow> fs_runs st0 (evs @ [ev]) (outs @ out) st'"
| runs_store: "fs_runs st0 evs outs st \<Longrightarrow> fs_runs st0 evs outs
    (st\<lparr>fs_nfs := SetWithInfo k v \<lparr>fi_Owner = p, fi_Peers = Map.empty\<rparr> (fs_nfs st)\<rparr>)"

definition fs_init :: "appli_handler \<Rightarrow> handler_factory \<Rightarrow> emulator \<Rightarrow> fs_state" where
  "fs_init h f e = \<lparr>fs_nfs = NewNaiveFS h f, fs_net = e, fs_tasks = [], fs_stopped = False\<rparr>"

text \<open>The parts of the state that the branches leave alone.\<close>

lemma fs_GetHandler_sel:
  assumes "fs_GetHandler st = (h, st')"
  shows "nf_db (fs_nfs st') = nf_db (fs_nfs st)" "nf_fileInfoDB (fs_nfs st') = nf_fileInfoDB (fs_nfs st)"
    "nf_peerInfoDB (fs_nfs st') = nf_peerInfoDB (fs_nfs st)" "nf_sessionId (fs_nfs st') = nf_sessionId (fs_nfs st)"
    "nf_userShareResultChans (fs_nfs st') = nf_userShareResultChans (fs_nfs st)"
    "nf_userPurchaseResultChans (fs_nfs st') = nf_userPurchaseResultChans (fs_nfs st)"
    "nf_userParalleledPurchaseResultChans (fs_nfs st') = nf_userParalleledPurchaseResultChans (fs_nfs st)"
    "fs_tasks st' = fs_tasks st" "fs_stopped st' = fs_stopped st" "nf_static (fs_nfs st') = nf_static (fs_nfs st)"
  using assms by (auto simp: fs_GetHandler_def split: prod.splits)

lemma fs_put_handler_sel [simp]:
  "fs_nfs (fs_put_handler h st) = fs_nfs st" "fs_tasks (fs_put_handler h st) = fs_tasks st"
  "fs_stopped (fs_put_handler h st) = fs_stopped st"
  by (simp_all add: fs_put_handler_def)

lemma fs_store_peer_sel [simp]:
  "nf_db (fs_store_peer p i nfs) = nf_db nfs" "nf_fileInfoDB (fs_store_peer p i nfs) = nf_fileInfoDB nfs"
  "nf_sessionId (fs_store_peer p i nfs) = nf_sessionId nfs"
  "nf_userShareResultChans (fs_store_peer p i nfs) = nf_userShareResultChans nfs"
  "nf_userPurchaseResultChans (fs_store_peer p i nfs) = nf_userPurchaseResultChans nfs"
  "nf_userParalleledPurchaseResultChans (fs_store_peer p i nfs) = nf_userParalleledPurchaseResultChans nfs"
  by (simp_all add: fs_store_peer_def)

text \<open>Who is recorded as a holder of a file, and what grows with time.\<close>

definition holders :: "naive_fs \<Rightarrow> go_string \<Rightarrow> node_id set" where
  "holders nfs k = (case nf_fileInfoDB nfs k of None \<Rightarrow> {} | Some info \<Rightarrow> dom (fi_Peers info))"

definition fs_grows :: "naive_fs \<Rightarrow> naive_fs \<Rightarrow> bool" where
  "fs_grows nfs nfs' \<longleftrightarrow> dom (nf_db nfs) \<subseteq> dom (nf_db nfs') \<and> (\<forall>k. holders nfs k \<subseteq> holders nfs' k)
     \<and> (fs_inv nfs \<longrightarrow> fs_inv nfs')"

lemma fs_grows_refl [simp, intro]: "fs_grows nfs nfs"
  by (simp add: fs_grows_def)

lemma fs_grows_trans [trans]: "fs_grows a b \<Longrightarrow> fs_grows b c \<Longrightarrow> fs_grows a c"
  unfolding fs_grows_def by blast

lemma fs_grows_same:
  "nf_db nfs' = nf_db nfs \<Longrightarrow> nf_fileInfoDB nfs' = nf_fileInfoDB nfs \<Longrightarrow> fs_grows nfs nfs'"
  by (simp add: fs_grows_def holders_def fs_inv_def)

lemma fs_grows_SetWithInfo: "fs_inv nfs \<Longrightarrow> fs_grows nfs (SetWithInfo k v info nfs)"
proof -
  assume inv: "fs_inv nfs"
  have "nf_db nfs k = None \<Longrightarrow> nf_fileInfoDB nfs k = None" using inv by (auto simp: fs_inv_def)
  then show ?thesis using fs_inv_SetWithInfo [OF inv]
    by (auto simp: fs_grows_def holders_def SetWithInfo_def split: option.splits)
qed

subsection \<open>The bookkeeping of a share\<close>

lemma share_files_spec:
  assumes "set keys \<subseteq> dom (nf_fileInfoDB nfs)"
  obtains pinfo nfs' where "go_fold (share_one_file peer) keys (pinfo0, nfs) = Inr (pinfo, nfs')"
    "nf_db nfs' = nf_db nfs" "dom (nf_fileInfoDB nfs') = dom (nf_fileInfoDB nfs)"
    "\<And>k. holders nfs' k = holders nfs k \<union> (if k \<in> set keys then {peer} else {})"
    "\<And>k. fp_FilesTo pinfo k = (if k \<in> set keys then Some () else fp_FilesTo pinfo0 k)"
  using assms
proof (induction keys arbitrary: pinfo0 nfs thesis)
  case Nil
  show ?case by (rule Nil(1) [of pinfo0 nfs]) simp_all
next
  case (Cons key keys)
  obtain info where info: "nf_fileInfoDB nfs key = Some info" using Cons.prems(2) by auto
  let ?p = "pinfo0\<lparr>fp_FilesTo := (fp_FilesTo pinfo0)(key \<mapsto> ())\<rparr>"
  let ?n = "nfs\<lparr>nf_fileInfoDB := (nf_fileInfoDB nfs)(key \<mapsto> info\<lparr>fi_Peers := (fi_Peers info)(peer \<mapsto> ())\<rparr>)\<rparr>"
  have "set keys \<subseteq> dom (nf_fileInfoDB ?n)" using Cons.prems(2) by auto
  then obtain pinfo nfs' where *: "go_fold (share_one_file peer) keys (?p, ?n) = Inr (pinfo, nfs')"
    "nf_db nfs' = nf_db ?n" "dom (nf_fileInfoDB nfs') = dom (nf_fileInfoDB ?n)"
    "\<And>k. holders nfs' k = holders ?n k \<union> (if k \<in> set keys then {peer} else {})"
    "\<And>k. fp_FilesTo pinfo k = (if k \<in> set keys then Some () else fp_FilesTo ?p k)"
    by (rule Cons.IH [of ?p ?n, rotated]) blast
  have h: "holders ?n k = holders nfs k \<union> (if k = key then {peer} else {})" for k
    using info by (auto simp: holders_def split: option.splits)
  show ?case
  proof (rule Cons.prems(1) [of pinfo nfs'])
    show "go_fold (share_one_file peer) (key # keys) (pinfo0, nfs) = Inr (pinfo, nfs')"
      using *(1) info by (simp add: share_one_file_def)
    show "holders nfs' k = holders nfs k \<union> (if k \<in> set (key # keys) then {peer} else {})" for k
      using *(4) [of k] h [of k] by auto
    show "dom (nf_fileInfoDB nfs') = dom (nf_fileInfoDB nfs)" using *(3) info by auto
  qed (use *(2,5) in simp_all)
qed

definition finished_peers :: "(node_id \<times> share_session_state) list \<Rightarrow> node_id set" where
  "finished_peers ps = {p. (p, SHARE_FINISHED) \<in> set ps}"

lemma share_peers_spec:
  assumes "set keys \<subseteq> dom (nf_fileInfoDB nfs)"
  obtains nfs' where "go_fold (share_one_peer keys) ps nfs = Inr nfs'"
    "nf_db nfs' = nf_db nfs" "dom (nf_fileInfoDB nfs') = dom (nf_fileInfoDB nfs)"
    "\<And>k. holders nfs' k = holders nfs k \<union> (if k \<in> set keys then finished_peers ps else {})"
  using assms
proof (induction ps arbitrary: nfs thesis)
  case Nil
  show ?case by (rule Nil(1) [of nfs]) (simp_all add: finished_peers_def)
next
  case (Cons x ps)
  obtain p st where x: "x = (p, st)" by (cases x)
  obtain n1 where n1: "share_one_peer keys x nfs = Inr n1" "nf_db n1 = nf_db nfs"
    "dom (nf_fileInfoDB n1) = dom (nf_fileInfoDB nfs)"
    "\<And>k. holders n1 k = holders nfs k \<union> (if k \<in> set keys \<and> st = SHARE_FINISHED then {p} else {})"
  proof (cases "st = SHARE_FINISHED")
    case True
    obtain pinfo n0 where n0: "go_fold (share_one_file p) keys (fs_load_peer p nfs, nfs) = Inr (pinfo, n0)"
      "nf_db n0 = nf_db nfs" "dom (nf_fileInfoDB n0) = dom (nf_fileInfoDB nfs)"
      "\<And>k. holders n0 k = holders nfs k \<union> (if k \<in> set keys then {p} else {})"
      by (rule share_files_spec [OF Cons.prems(2), of p "fs_load_peer p nfs"]) blast
    have "holders (fs_store_peer p pinfo n0) k = holders n0 k" for k by (simp add: holders_def)
    then show thesis using n0 True
      by (intro that [of "fs_store_peer p pinfo n0"]) (simp_all add: share_one_peer_def x)
  next
    case False
    then show thesis by (intro that [of nfs]) (simp_all add: share_one_peer_def x)
  qed
  have "set keys \<subseteq> dom (nf_fileInfoDB n1)" using Cons.prems(2) n1(3) by simp
  then obtain nfs' where *: "go_fold (share_one_peer keys) ps n1 = Inr nfs'"
    "nf_db nfs' = nf_db n1" "dom (nf_fileInfoDB nfs') = dom (nf_fileInfoDB n1)"
    "\<And>k. holders nfs' k = holders n1 k \<union> (if k \<in> set keys then finished_peers ps else {})"
    by (rule Cons.IH [of n1, rotated]) blast
  show ?case
    by (rule Cons.prems(1) [of nfs']) (use n1 * x in \<open>auto simp: finished_peers_def\<close>)
qed

subsection \<open>Growth\<close>

lemma fs_GetHandler_grows: "fs_GetHandler st = (h, st') \<Longrightarrow> fs_grows (fs_nfs st) (fs_nfs st')"
  by (rule fs_grows_same) (simp_all add: fs_GetHandler_sel)

lemma fs_share_sel:
  assumes "fs_share info c1 c2 st = Inr (outs, st')"
  obtains s effs where "outs = [OutShare s effs]" "sh_info s = info" "sh_id s = fs_next_id st"
    "set (si_Keys info) \<subseteq> dom (nf_db (fs_nfs st))" "fs_tasks st' = fs_tasks st"
    "nf_sessionId (fs_nfs st') = fs_next_id st" "nf_db (fs_nfs st') = nf_db (fs_nfs st)"
    "nf_fileInfoDB (fs_nfs st') = nf_fileInfoDB (fs_nfs st)"
    "nf_userShareResultChans (fs_nfs st') = (nf_userShareResultChans (fs_nfs st))(fs_next_id st \<mapsto> si_ResultChan info)"
    "nf_userPurchaseResultChans (fs_nfs st') = nf_userPurchaseResultChans (fs_nfs st)"
    "nf_userParalleledPurchaseResultChans (fs_nfs st') = nf_userParalleledPurchaseResultChans (fs_nfs st)"
proof -
  let ?i = "fs_next_id st"
  let ?st1 = "st\<lparr>fs_nfs := (fs_nfs st)\<lparr>nf_sessionId := ?i,
     nf_userShareResultChans := (nf_userShareResultChans (fs_nfs st))(?i \<mapsto> si_ResultChan info)\<rparr>\<rparr>"
  obtain h st2 where h: "fs_GetHandler ?st1 = (h, st2)" by (cases "fs_GetHandler ?st1")
  note sel = fs_GetHandler_sel [OF h]
  obtain effs s where s: "share_Start (fs_nfs st2) (NewShareSession ?i info h c1 c2) = Inr (effs, s)"
    "outs = [OutShare s effs]" "st' = fs_put_handler (sh_handler s) st2"
    using assms h by (auto simp: fs_share_def Let_def and_then_Inr_iff)
  have "sh_info s = info" "sh_id s = ?i" by (rule share_Start_session [OF s(1)])+
  moreover have "set (si_Keys info) \<subseteq> dom (nf_db (fs_nfs st))"
    using s(1) fs_Get_all_Inr [of "fs_nfs st2" "si_Keys info"] sel(1)
    by (auto simp: share_Start_def NewShareSession_def Let_def and_then_Inr_iff)
  ultimately show thesis using s(2,3) sel by (intro that [of s effs]) simp_all
qed

lemma fs_run_task_sel:
  "nf_db (fs_nfs (snd (fs_run_task n st))) = nf_db (fs_nfs st)"
  "nf_fileInfoDB (fs_nfs (snd (fs_run_task n st))) = nf_fileInfoDB (fs_nfs st)"
proof -
  have "nf_db (snd (snd (run_task t nfs))) = nf_db nfs \<and> nf_fileInfoDB (snd (snd (run_task t nfs))) = nf_fileInfoDB nfs"
    for t nfs by (cases t) (auto split: option.splits)
  then show "nf_db (fs_nfs (snd (fs_run_task n st))) = nf_db (fs_nfs st)"
    "nf_fileInfoDB (fs_nfs (snd (fs_run_task n st))) = nf_fileInfoDB (fs_nfs st)"
    by (simp_all add: fs_run_task_def Let_def case_prod_beta)
qed

lemma fs_share_result_grows:
  assumes "fs_share_result ord r st = Inr (outs, st')"
  shows "fs_grows (fs_nfs st) (fs_nfs st')"
proof -
  have one: "fs_grows nfs nfs'" if sf: "share_one_file p k (pi, nfs) = Inr (pi', nfs')" for p k pi nfs pi' nfs'
  proof -
    obtain x where x: "nf_fileInfoDB nfs k = Some x"
      "nfs' = nfs\<lparr>nf_fileInfoDB := (nf_fileInfoDB nfs)(k \<mapsto> x\<lparr>fi_Peers := (fi_Peers x)(p \<mapsto> ())\<rparr>)\<rparr>"
      using sf by (auto simp: share_one_file_def and_then_Inr_iff dest!: go_assert_InrD)
    have "holders nfs' j = holders nfs j \<union> (if j = k then {p} else {})" for j
      using x(1) by (auto simp: holders_def x(2) split: option.splits)
    moreover have "dom (nf_fileInfoDB nfs') = dom (nf_fileInfoDB nfs)" using x(1) by (auto simp: x(2))
    ultimately show ?thesis by (simp add: fs_grows_def fs_inv_def) (simp add: x(2))
  qed
  have files: "fs_grows nfs nfs'" if "go_fold (share_one_file p) ks (pi, nfs) = Inr (pi', nfs')" for p ks pi nfs pi' nfs'
    using that
  proof (induction ks arbitrary: pi nfs)
    case (Cons k ks)
    then obtain pi1 n1 where "share_one_file p k (pi, nfs) = Inr (pi1, n1)"
      "go_fold (share_one_file p) ks (pi1, n1) = Inr (pi', nfs')" by (auto simp: and_then_Inr_iff)
    then show ?case using one Cons.IH fs_grows_trans by blast
  qed simp
  have peer: "fs_grows nfs nfs'" if sp: "share_one_peer keys x nfs = Inr nfs'" for keys x nfs nfs'
  proof -
    obtain p st where x: "x = (p, st)" by (cases x)
    show ?thesis
    proof (cases "st = SHARE_FINISHED")
      case True
      then obtain pinfo n1 where n1: "go_fold (share_one_file p) keys (fs_load_peer p nfs, nfs) = Inr (pinfo, n1)"
        "nfs' = fs_store_peer p pinfo n1"
        using sp by (auto simp: share_one_peer_def x and_then_Inr_iff)
      have "fs_grows n1 nfs'" unfolding n1(2) by (rule fs_grows_same) simp_all
      then show ?thesis using files [OF n1(1)] fs_grows_trans by blast
    qed (use sp in \<open>simp add: share_one_peer_def x\<close>)
  qed
  have "fs_grows nfs nfs'" if "go_fold (share_one_peer keys) ps nfs = Inr nfs'" for keys ps nfs nfs'
    using that
  proof (induction ps arbitrary: nfs)
    case (Cons x ps)
    then obtain n1 where "share_one_peer keys x nfs = Inr n1" "go_fold (share_one_peer keys) ps n1 = Inr nfs'"
      by (auto simp: and_then_Inr_iff)
    then show ?case using peer Cons.IH fs_grows_trans by blast
  qed simp
  then show ?thesis using assms by (auto simp: fs_share_result_def and_then_Inr_iff)
qed

lemma fs_step_grows:
  assumes "fs_step ev st = Inr (outs, st')"
  shows "fs_grows (fs_nfs st) (fs_nfs st')"
proof (cases "fs_stopped st \<and> \<not> is_task ev")
  case True
  then show ?thesis using assms by (simp add: fs_step_def)
next
  case False
  then have sel: "fs_select ev st = Inr (outs, st')" using assms by (auto simp: fs_step_def split: if_splits)
  obtain h st1 where gh: "fs_GetHandler st = (h, st1)" by (cases "fs_GetHandler st")
  show ?thesis
  proof (cases ev)
    case (FsShare info c1 c2)
    then show ?thesis using sel by (auto elim!: fs_share_sel intro!: fs_grows_same)
  next
    case (FsShareResult ord r)
    then show ?thesis using sel fs_share_result_grows by simp
  next
    case (FsTask n)
    then show ?thesis using sel fs_run_task_sel [of n st] by (auto intro!: fs_grows_same)
  qed (use sel in \<open>auto simp: fs_share_request_def fs_purchase_def fs_purchase_request_def fs_paralleled_def
      fs_share_recv_result_def fs_tracker_def add_task_def Let_def and_then_Inr_iff fs_GetHandler_sel gh
      fs_GetHandler_sel [OF gh] split: prod.splits if_splits intro!: fs_grows_same\<close>)
qed

lemma fs_runs_grow:
  assumes "fs_runs st0 evs outs st" and "fs_inv (fs_nfs st0)"
  shows "fs_grows (fs_nfs st0) (fs_nfs st)"
  using assms
proof (induction rule: fs_runs.induct)
  case (runs_step evs outs st ev out st')
  then show ?case using fs_step_grows fs_grows_trans by blast
next
  case (runs_store evs outs st k v p)
  then have "fs_inv (fs_nfs st)" by (simp add: fs_grows_def)
  then show ?case using runs_store fs_grows_SetWithInfo fs_grows_trans by fastforce
qed simp

text \<open>The files of every share that was started are stored.\<close>

lemma fs_runs_shares:
  assumes "fs_runs st0 evs outs st" and "fs_inv (fs_nfs st0)" and "OutShare s effs \<in> set outs"
  shows "set (si_Keys (sh_info s)) \<subseteq> dom (nf_db (fs_nfs st))"
  using assms
proof (induction rule: fs_runs.induct)
  case (runs_step evs outs st ev out st')
  have g: "fs_grows (fs_nfs st) (fs_nfs st')" by (rule fs_step_grows [OF runs_step.hyps(2)])
  show ?case
  proof (cases "OutShare s effs \<in> set outs")
    case True
    then show ?thesis using runs_step g by (force simp: fs_grows_def)
  next
    case False
    then have out: "OutShare s effs \<in> set out" using runs_step.prems by simp
    have "out = [] \<or> fs_select ev st = Inr (out, st')"
      using runs_step.hyps(2) by (auto simp: fs_step_def split: if_splits)
    then have sel: "fs_select ev st = Inr (out, st')" using out by auto
    have tasks: "OutShare s effs \<notin> set (fst (fs_run_task n st))" for n
    proof -
      have "OutShare s effs \<notin> set (fst (run_task t nfs))" for t nfs
        by (cases t) (auto split: option.splits)
      then show ?thesis by (simp add: fs_run_task_def Let_def case_prod_beta)
    qed
    obtain h st1 where gh: "fs_GetHandler st = (h, st1)" by (cases "fs_GetHandler st")
    show ?thesis
    proof (cases ev)
      case (FsShare info c1 c2)
      then have "fs_share info c1 c2 st = Inr (out, st')" using sel by simp
      then show ?thesis using out by (auto elim!: fs_share_sel)
    next
      case (FsTask n)
      then have "out = fst (fs_run_task n st)" using sel by simp
      then show ?thesis using out tasks by simp
    qed (use sel out in \<open>auto simp: fs_share_request_def fs_purchase_def fs_purchase_request_def
        fs_paralleled_def fs_share_result_def fs_tracker_def Let_def and_then_Inr_iff gh split: prod.splits\<close>)
  qed
next
  case (runs_store evs outs st k v p)
  then show ?case by (auto simp: SetWithInfo_db split: option.splits)
qed simp

subsection \<open>Properties\<close>

lemma dom_peer_map: "dom (peer_map nfs keys) = (\<Union>k \<in> set keys. holders nfs k)"
proof -
  have "dom (fold (\<lambda>key m. case nf_fileInfoDB nfs key of None \<Rightarrow> m | Some fileInfo \<Rightarrow> m ++ fi_Peers fileInfo) keys m)
      = dom m \<union> (\<Union>k \<in> set keys. holders nfs k)" for m
    by (induction keys arbitrary: m) (auto simp: holders_def split: option.splits)
  then show ?thesis by (simp add: peer_map_def)
qed

lemma fs_init_inv [simp]: "fs_inv (fs_nfs (fs_init h f e))"
  by (simp add: fs_init_def)

text \<open>C14: A share result never panics the file system when its keys are those of a share that was
  started: every such file is still stored and has its info. From then on, whatever happens, each
  peer that finished the share is recorded as a holder of each of the shared files.\<close>
theorem shared_file_is_tracked:
  assumes "fs_runs (fs_init h f e) evs outs st" and "\<not> fs_stopped st" and "OutShare s effs \<in> set outs"
    and "rs_Keys r = si_Keys (sh_info s)" and "enumerates ord (rs_PeerStates r)"
  shows "\<exists>st1. fs_step (FsShareResult ord r) st = Inr ([], st1)
    \<and> (\<forall>evs' outs' st2 k p. fs_runs st1 evs' outs' st2 \<and> k \<in> set (rs_Keys r)
         \<and> rs_PeerStates r p = Some SHARE_FINISHED \<longrightarrow> p \<in> holders (fs_nfs st2) k)"
proof -
  have inv: "fs_inv (fs_nfs st)" using fs_runs_grow [OF assms(1)] by (simp add: fs_grows_def)
  have "set (rs_Keys r) \<subseteq> dom (nf_fileInfoDB (fs_nfs st))"
    using fs_runs_shares [OF assms(1) fs_init_inv assms(3)] inv assms(4) by (simp add: fs_inv_def)
  then obtain nfs' where n: "go_fold (share_one_peer (rs_Keys r)) (go_range ord (rs_PeerStates r)) (fs_nfs st) = Inr nfs'"
    "\<And>k. holders nfs' k = holders (fs_nfs st) k
      \<union> (if k \<in> set (rs_Keys r) then finished_peers (go_range ord (rs_PeerStates r)) else {})"
    by (rule share_peers_spec) blast
  let ?st1 = "st\<lparr>fs_nfs := nfs', fs_tasks := fs_tasks st @ [GiveShare r]\<rparr>"
  have step: "fs_step (FsShareResult ord r) st = Inr ([], ?st1)"
    using assms(2) n(1) by (simp add: fs_step_def fs_share_result_def)
  have inv1: "fs_inv (fs_nfs ?st1)" using fs_step_grows [OF step] inv by (simp add: fs_grows_def)
  have fin: "finished_peers (go_range ord (rs_PeerStates r)) = {p. rs_PeerStates r p = Some SHARE_FINISHED}"
    using set_go_range_enumerates [OF assms(5)] by (auto simp: finished_peers_def)
  have "p \<in> holders (fs_nfs st2) k"
    if "fs_runs ?st1 evs' outs' st2" "k \<in> set (rs_Keys r)" "rs_PeerStates r p = Some SHARE_FINISHED" for evs' outs' st2 k p
  proof -
    have "p \<in> holders nfs' k" using n(2) [of k] that(2,3) fin by simp
    moreover have "holders nfs' k \<subseteq> holders (fs_nfs st2) k"
      using fs_runs_grow [OF that(1) inv1] by (simp add: fs_grows_def)
    ultimately show ?thesis by blast
  qed
  with step show ?thesis by blast
qed

text \<open>C15: A tracker request is answered with, for each group of keys, exactly the recorded holders of
  a file of the group, each once; the requester decodes that answer.\<close>
theorem tracker_lists_holders:
  assumes "\<not> fs_stopped st" and "decode_with tracker_request_msg_c (ln_Data msg) = Inr req"
    and "\<And>i. i < length (tq_KeyGroup req) \<Longrightarrow> enumerates (ord i) (peer_map (fs_nfs st) (tq_KeyGroup req ! i))"
    and "\<And>i. i < length (tq_KeyGroup req) \<Longrightarrow> length (ord i) < 2 ^ 32"
    and "\<And>k p. p \<in> holders (fs_nfs st) k \<Longrightarrow> bytes20 p"
  shows "\<exists>data groups. fs_step (FsTracker ord msg) st = Inr ([OutNet (appli_SendTo (nf_static (fs_nfs st))
        (ln_FromPeerID msg) (ln_FromHandlerID msg) TPROC_RECEIVER data)], st)
    \<and> decode_with tracker_result_msg_c data = Inr \<lparr>tr_PeerGroup = groups\<rparr>
    \<and> length groups = length (tq_KeyGroup req)
    \<and> (\<forall>i < length groups. distinct (groups ! i)
         \<and> set (groups ! i) = (\<Union>k \<in> set (tq_KeyGroup req ! i). holders (fs_nfs st) k))"
proof -
  let ?kg = "tq_KeyGroup req"
  let ?groups = "tracker_answer ord (fs_nfs st) ?kg"
  have nth: "?groups ! i = ord i" if "i < length ?kg" for i
    using that map_fst_go_range [OF assms(3) [OF that]] by (simp add: tracker_answer_def nth_enumerate_eq)
  have len: "length ?groups = length ?kg" by (simp add: tracker_answer_def)
  have set: "set (ord i) = (\<Union>k \<in> set (?kg ! i). holders (fs_nfs st) k)" if "i < length ?kg" for i
    using assms(3) [OF that] by (simp add: enumerates_def dom_peer_map)
  have "length ?kg < 2 ^ 32" using tracker_request_msg.decode_total [of "ln_Data msg"] assms(2) by auto
  moreover have "length g < 2 ^ 32 \<and> list_all bytes20 g" if "g \<in> set ?groups" for g
  proof -
    obtain i where i: "i < length ?kg" "g = ord i" using \<open>g \<in> set ?groups\<close> nth len by (auto simp: in_set_conv_nth)
    then show ?thesis using assms(4) [OF i(1)] set [OF i(1)] assms(5) by (auto simp: list_all_iff)
  qed
  ultimately have "c_wf tracker_result_msg_c \<lparr>tr_PeerGroup = ?groups\<rparr>" by (simp add: len list_all_iff)
  then obtain data where d: "encode_with tracker_result_msg_c \<lparr>tr_PeerGroup = ?groups\<rparr> = Inr data"
    "decode_with tracker_result_msg_c data = Inr \<lparr>tr_PeerGroup = ?groups\<rparr>"
    using tracker_result_msg.encode_total by blast
  have "fs_step (FsTracker ord msg) st = Inr ([OutNet (appli_SendTo (nf_static (fs_nfs st))
        (ln_FromPeerID msg) (ln_FromHandlerID msg) TPROC_RECEIVER data)], st)"
    using assms(1,2) d(1) by (simp add: fs_step_def fs_tracker_def)
  with d(2) len nth set assms(3) show ?thesis
    by (intro exI [of _ data] exI [of _ ?groups] conjI) (simp_all add: enumerates_def)
qed

text \<open>C17: A purchase request from another node panics this node exactly when it names a file that is
  not stored here: \<open>SellSession\<close> reads every requested file with \<open>Get\<close>.\<close>
theorem purchase_request_panics_iff:
  assumes "\<not> fs_stopped st" and "decode_with purchase_request_msg_c (ln_Data msg) = Inr req"
    and "\<And>v. v \<in> ran (nf_db (fs_nfs st)) \<Longrightarrow> length v < 2 ^ 32"
  shows "(\<exists>p. fs_step (FsPurchaseRequest msg c) st = Inl p) \<longleftrightarrow> \<not> set (pr_Keys req) \<subseteq> dom (nf_db (fs_nfs st))"
proof -
  obtain h st1 where gh: "fs_GetHandler st = (h, st1)" by (cases "fs_GetHandler st")
  note db = fs_GetHandler_sel(1) [OF gh]
  let ?s = "NewSellSession (pr_Keys req) (ln_FromPeerID msg) (ln_FromHandlerID msg) h c"
  have step: "fs_step (FsPurchaseRequest msg c) st
      = and_then (sell_Start (fs_nfs st1) ?s) (\<lambda>(effs, s). Inr ([OutSell s effs], st1))"
    using assms(1,2) by (simp add: fs_step_def fs_purchase_request_def gh)
  show ?thesis
  proof (cases "set (pr_Keys req) \<subseteq> dom (nf_db (fs_nfs st))")
    case True
    have keys: "length (pr_Keys req) < 2 ^ 32" "\<And>k. k \<in> set (pr_Keys req) \<Longrightarrow> length k < 2 ^ 32"
      using purchase_request_msg.decode_total [of "ln_Data msg"] assms(2)
      by (auto simp: list_all_iff string_c_def)
    have "length (the (nf_db (fs_nfs st1) k)) < 2 ^ 32" if k: "k \<in> set (pr_Keys req)" for k
    proof -
      obtain v where "nf_db (fs_nfs st) k = Some v" using k True by auto
      then show ?thesis using assms(3) [of v] db by (auto simp: ran_def)
    qed
    then have "shareable (fs_nfs st1) (pr_Keys req)" using True keys db by (simp add: shareable_def)
    from shareable_pack [OF this] obtain bs where
      "encode_with data_pack_c \<lparr>dp_Keys = pr_Keys req, dp_Data = map (\<lambda>k. the (nf_db (fs_nfs st1) k)) (pr_Keys req)\<rparr> = Inr bs"
      by blast
    then have "\<exists>r. fs_step (FsPurchaseRequest msg c) st = Inr r"
      using True db fs_Get_total [of "pr_Keys req" "fs_nfs st1"] by (simp add: step sell_Start_def NewSellSession_def)
    then show ?thesis using True by auto
  next
    case False
    then obtain p where "go_map (fs_Get (fs_nfs st1)) (pr_Keys req) = Inl p"
      using fs_Get_all_Inr [of "fs_nfs st1" "pr_Keys req"] db by (cases "go_map (fs_Get (fs_nfs st1)) (pr_Keys req)") auto
    then show ?thesis using False by (simp add: step sell_Start_def NewSellSession_def)
  qed
qed

subsection \<open>Who receives a result\<close>

fun user_request :: "fs_event \<Rightarrow> bool" where
  "user_request (FsShare info c1 c2) = True"
| "user_request (FsPurchase info c) = True"
| "user_request (FsParalleled info c1 c2) = True"
| "user_request _ = False"

text \<open>\<open>asked evs k c q\<close>: the request with id \<open>k\<close> wants its result on \<open>c\<close> and is one that \<open>q\<close> describes.\<close>

definition asked :: "fs_event list \<Rightarrow> u32 \<Rightarrow> (fs_event \<Rightarrow> bool) \<Rightarrow> bool" where
  "asked evs k q \<longleftrightarrow> (\<exists>i < length (filter user_request evs). k = word_of_nat (Suc i) \<and> q (filter user_request evs ! i))"

fun wants_share :: "chan \<Rightarrow> fs_event \<Rightarrow> bool" where
  "wants_share c (FsShare info c1 c2) \<longleftrightarrow> si_ResultChan info = c" | "wants_share c _ \<longleftrightarrow> False"
fun wants_purchase :: "chan \<Rightarrow> fs_event \<Rightarrow> bool" where
  "wants_purchase c (FsPurchase info c1) \<longleftrightarrow> pi_ResultChan info = c" | "wants_purchase c _ \<longleftrightarrow> False"
fun wants_paralleled :: "chan \<Rightarrow> fs_event \<Rightarrow> bool" where
  "wants_paralleled c (FsParalleled info c1 c2) \<longleftrightarrow> pp_ResultChan info = c" | "wants_paralleled c _ \<longleftrightarrow> False"

lemma asked_append: "asked evs k q \<Longrightarrow> asked (evs @ es) k q"
proof -
  assume "asked evs k q"
  then obtain i where "i < length (filter user_request evs)" "k = word_of_nat (Suc i)" "q (filter user_request evs ! i)"
    by (auto simp: asked_def)
  then show ?thesis unfolding asked_def by (intro exI [of _ i]) (simp add: nth_append)
qed

lemma asked_new:
  "user_request ev \<Longrightarrow> q ev \<Longrightarrow> asked (evs @ [ev]) (word_of_nat (Suc (length (filter user_request evs)))) q"
  unfolding asked_def by (intro exI [of _ "length (filter user_request evs)"]) (simp add: nth_append del: of_nat_Suc)

definition chans_asked :: "fs_event list \<Rightarrow> naive_fs \<Rightarrow> bool" where
  "chans_asked evs nfs \<longleftrightarrow>
     (\<forall>k c. nf_userShareResultChans nfs k = Some c \<longrightarrow> asked evs k (wants_share c))
   \<and> (\<forall>k c. nf_userPurchaseResultChans nfs k = Some c \<longrightarrow> asked evs k (wants_purchase c))
   \<and> (\<forall>k c. nf_userParalleledPurchaseResultChans nfs k = Some c \<longrightarrow> asked evs k (wants_paralleled c))"

lemma chans_asked_append: "chans_asked evs nfs \<Longrightarrow> chans_asked (evs @ es) nfs"
  unfolding chans_asked_def using asked_append by blast

lemma chans_asked_same:
  assumes "chans_asked evs nfs" and "nf_userShareResultChans nfs' = nf_userShareResultChans nfs"
    and "nf_userPurchaseResultChans nfs' = nf_userPurchaseResultChans nfs"
    and "nf_userParalleledPurchaseResultChans nfs' = nf_userParalleledPurchaseResultChans nfs"
  shows "chans_asked evs nfs'"
  using assms by (simp add: chans_asked_def)

text \<open>What a branch other than a request does to the channels and to the id.\<close>

lemma share_result_chans:
  assumes "fs_share_result ord r st = Inr (outs, st')"
  shows "outs = []" "fs_stopped st' = fs_stopped st"
    "nf_sessionId (fs_nfs st') = nf_sessionId (fs_nfs st)"
    "nf_userShareResultChans (fs_nfs st') = nf_userShareResultChans (fs_nfs st)"
    "nf_userPurchaseResultChans (fs_nfs st') = nf_userPurchaseResultChans (fs_nfs st)"
    "nf_userParalleledPurchaseResultChans (fs_nfs st') = nf_userParalleledPurchaseResultChans (fs_nfs st)"
proof -
  define same where "same n n' \<longleftrightarrow> nf_sessionId n' = nf_sessionId n
    \<and> nf_userShareResultChans n' = nf_userShareResultChans n
    \<and> nf_userPurchaseResultChans n' = nf_userPurchaseResultChans n
    \<and> nf_userParalleledPurchaseResultChans n' = nf_userParalleledPurchaseResultChans n" for n n' :: naive_fs
  have tr: "same a b \<Longrightarrow> same b c \<Longrightarrow> same a c" for a b c by (simp add: same_def)
  have files: "same n n'" if "go_fold (share_one_file p) ks (i, n) = Inr (i', n')" for p ks i n i' n'
    using that
  proof (induction ks arbitrary: i n)
    case (Cons k ks)
    then obtain i1 n1 where "share_one_file p k (i, n) = Inr (i1, n1)" "go_fold (share_one_file p) ks (i1, n1) = Inr (i', n')"
      by (auto simp: and_then_Inr_iff)
    moreover from this(1) have "same n n1" by (auto simp: share_one_file_def and_then_Inr_iff same_def)
    ultimately show ?case using Cons.IH tr by blast
  qed (simp add: same_def)
  have peers: "same n n'" if "go_fold (share_one_peer keys) ps n = Inr n'" for keys ps n n'
    using that
  proof (induction ps arbitrary: n)
    case (Cons x ps)
    then obtain n1 where n1: "share_one_peer keys x n = Inr n1" "go_fold (share_one_peer keys) ps n1 = Inr n'"
      by (auto simp: and_then_Inr_iff)
    have "same n n1"
    proof (cases "snd x = SHARE_FINISHED")
      case True
      then obtain i n0 where "go_fold (share_one_file (fst x)) keys (fs_load_peer (fst x) n, n) = Inr (i, n0)"
        "n1 = fs_store_peer (fst x) i n0"
        using n1(1) by (auto simp: share_one_peer_def case_prod_beta and_then_Inr_iff)
      then show ?thesis using files [of "fst x" keys _ n i n0] by (simp add: same_def)
    qed (use n1(1) in \<open>simp add: share_one_peer_def case_prod_beta same_def\<close>)
    then show ?case using Cons.IH n1(2) tr by blast
  qed (simp add: same_def)
  obtain n' where "go_fold (share_one_peer (rs_Keys r)) (go_range ord (rs_PeerStates r)) (fs_nfs st) = Inr n'"
    "outs = []" "st' = st\<lparr>fs_nfs := n', fs_tasks := fs_tasks st @ [GiveShare r]\<rparr>"
    using assms by (auto simp: fs_share_result_def and_then_Inr_iff)
  then show "outs = []" "fs_stopped st' = fs_stopped st"
    "nf_sessionId (fs_nfs st') = nf_sessionId (fs_nfs st)"
    "nf_userShareResultChans (fs_nfs st') = nf_userShareResultChans (fs_nfs st)"
    "nf_userPurchaseResultChans (fs_nfs st') = nf_userPurchaseResultChans (fs_nfs st)"
    "nf_userParalleledPurchaseResultChans (fs_nfs st') = nf_userParalleledPurchaseResultChans (fs_nfs st)"
    using peers by (auto simp: same_def)
qed

text \<open>One step: a request takes the next id and enters its channel under it, no other step enters
  a channel or changes the id; a result is given to the channel under its id.\<close>

definition fs_ids :: "fs_event list \<Rightarrow> fs_state \<Rightarrow> bool" where
  "fs_ids evs st \<longleftrightarrow> chans_asked evs (fs_nfs st)
     \<and> (fs_stopped st \<or> nf_sessionId (fs_nfs st) = word_of_nat (length (filter user_request evs)))"

definition asked_outputs :: "fs_event list \<Rightarrow> fs_output list \<Rightarrow> bool" where
  "asked_outputs evs outs \<longleftrightarrow>
     (\<forall>c r. UserShare c r \<in> set outs \<longrightarrow> asked evs (rs_ID r) (wants_share c))
   \<and> (\<forall>c r. UserPurchase c r \<in> set outs \<longrightarrow> asked evs (pu_ID r) (wants_purchase c))
   \<and> (\<forall>c r. UserParalleled c r \<in> set outs \<longrightarrow> asked evs (pq_ID r) (wants_paralleled c))"

lemma asked_outputs_append:
  "asked_outputs evs outs \<Longrightarrow> asked_outputs evs outs' \<Longrightarrow> asked_outputs evs (outs @ outs')"
  by (auto simp: asked_outputs_def)

lemma asked_outputs_later: "asked_outputs evs outs \<Longrightarrow> asked_outputs (evs @ es) outs"
  unfolding asked_outputs_def using asked_append by blast

lemma run_task_chans:
  assumes "chans_asked evs nfs" and "run_task t nfs = (outs, tasks, nfs')"
  shows "chans_asked evs nfs'" "asked_outputs evs outs" "nf_sessionId nfs' = nf_sessionId nfs"
  using assms by (cases t; force simp: chans_asked_def asked_outputs_def split: option.splits if_splits)+

lemma next_id:
  assumes "fs_ids evs st" and "\<not> fs_stopped st"
  shows "fs_next_id st = word_of_nat (Suc (length (filter user_request evs)))"
  using assms by (simp add: fs_ids_def fs_next_id_def)

lemma fs_ids_request:
  assumes "fs_ids evs st" and "\<not> fs_stopped st" and "user_request ev" and "\<not> fs_stopped st'"
    and "nf_sessionId (fs_nfs st') = fs_next_id st" and "chans_asked (evs @ [ev]) (fs_nfs st')"
  shows "fs_ids (evs @ [ev]) st'"
  using assms by (simp add: fs_ids_def fs_next_id_def)

lemma fs_ids_other:
  assumes "fs_ids evs st" and "\<not> user_request ev" and "fs_stopped st' = fs_stopped st"
    and "nf_sessionId (fs_nfs st') = nf_sessionId (fs_nfs st)"
    and "nf_userShareResultChans (fs_nfs st') = nf_userShareResultChans (fs_nfs st)"
    and "nf_userPurchaseResultChans (fs_nfs st') = nf_userPurchaseResultChans (fs_nfs st)"
    and "nf_userParalleledPurchaseResultChans (fs_nfs st') = nf_userParalleledPurchaseResultChans (fs_nfs st)"
  shows "fs_ids (evs @ [ev]) st'"
  using assms chans_asked_append by (auto simp: fs_ids_def chans_asked_def)

lemma chans_asked_enter:
  assumes "fs_ids evs st" and "\<not> fs_stopped st" and "user_request ev"
  shows "wants_share c ev \<Longrightarrow> nf_userShareResultChans nfs' = (nf_userShareResultChans (fs_nfs st))(fs_next_id st \<mapsto> c)
      \<Longrightarrow> nf_userPurchaseResultChans nfs' = nf_userPurchaseResultChans (fs_nfs st)
      \<Longrightarrow> nf_userParalleledPurchaseResultChans nfs' = nf_userParalleledPurchaseResultChans (fs_nfs st)
      \<Longrightarrow> chans_asked (evs @ [ev]) nfs'"
    and "wants_purchase c ev \<Longrightarrow> nf_userShareResultChans nfs' = nf_userShareResultChans (fs_nfs st)
      \<Longrightarrow> nf_userPurchaseResultChans nfs' = (nf_userPurchaseResultChans (fs_nfs st))(fs_next_id st \<mapsto> c)
      \<Longrightarrow> nf_userParalleledPurchaseResultChans nfs' = nf_userParalleledPurchaseResultChans (fs_nfs st)
      \<Longrightarrow> chans_asked (evs @ [ev]) nfs'"
    and "wants_paralleled c ev \<Longrightarrow> nf_userShareResultChans nfs' = nf_userShareResultChans (fs_nfs st)
      \<Longrightarrow> nf_userPurchaseResultChans nfs' = nf_userPurchaseResultChans (fs_nfs st)
      \<Longrightarrow> nf_userParalleledPurchaseResultChans nfs'
            = (nf_userParalleledPurchaseResultChans (fs_nfs st))(fs_next_id st \<mapsto> c)
      \<Longrightarrow> chans_asked (evs @ [ev]) nfs'"
proof -
  have old: "chans_asked (evs @ [ev]) (fs_nfs st)" using assms(1) chans_asked_append by (simp add: fs_ids_def)
  have new: "q ev \<Longrightarrow> asked (evs @ [ev]) (fs_next_id st) q" for q
    unfolding next_id [OF assms(1,2)] by (rule asked_new [OF assms(3)])
  show "wants_share c ev \<Longrightarrow> nf_userShareResultChans nfs' = (nf_userShareResultChans (fs_nfs st))(fs_next_id st \<mapsto> c)
      \<Longrightarrow> nf_userPurchaseResultChans nfs' = nf_userPurchaseResultChans (fs_nfs st)
      \<Longrightarrow> nf_userParalleledPurchaseResultChans nfs' = nf_userParalleledPurchaseResultChans (fs_nfs st)
      \<Longrightarrow> chans_asked (evs @ [ev]) nfs'"
    using old new [of "wants_share c"] by (auto simp: chans_asked_def)
  show "wants_purchase c ev \<Longrightarrow> nf_userShareResultChans nfs' = nf_userShareResultChans (fs_nfs st)
      \<Longrightarrow> nf_userPurchaseResultChans nfs' = (nf_userPurchaseResultChans (fs_nfs st))(fs_next_id st \<mapsto> c)
      \<Longrightarrow> nf_userParalleledPurchaseResultChans nfs' = nf_userParalleledPurchaseResultChans (fs_nfs st)
      \<Longrightarrow> chans_asked (evs @ [ev]) nfs'"
    using old new [of "wants_purchase c"] by (auto simp: chans_asked_def)
  show "wants_paralleled c ev \<Longrightarrow> nf_userShareResultChans nfs' = nf_userShareResultChans (fs_nfs st)
      \<Longrightarrow> nf_userPurchaseResultChans nfs' = nf_userPurchaseResultChans (fs_nfs st)
      \<Longrightarrow> nf_userParalleledPurchaseResultChans nfs'
            = (nf_userParalleledPurchaseResultChans (fs_nfs st))(fs_next_id st \<mapsto> c)
      \<Longrightarrow> chans_asked (evs @ [ev]) nfs'"
    using old new [of "wants_paralleled c"] by (auto simp: chans_asked_def)
qed

lemma fs_share_ids:
  assumes "fs_ids evs st" and "\<not> fs_stopped st" and "fs_share info c1 c2 st = Inr (outs, st')"
  shows "fs_ids (evs @ [FsShare info c1 c2]) st' \<and> asked_outputs es outs"
proof -
  let ?i = "fs_next_id st"
  let ?st1 = "st\<lparr>fs_nfs := (fs_nfs st)\<lparr>nf_sessionId := ?i,
     nf_userShareResultChans := (nf_userShareResultChans (fs_nfs st))(?i \<mapsto> si_ResultChan info)\<rparr>\<rparr>"
  obtain h st2 where h: "fs_GetHandler ?st1 = (h, st2)" by (cases "fs_GetHandler ?st1")
  obtain hd s effs where s: "outs = [OutShare s effs]" "st' = fs_put_handler hd st2"
    using assms(3) h by (auto simp: fs_share_def Let_def and_then_Inr_iff)
  have "chans_asked (evs @ [FsShare info c1 c2]) (fs_nfs st')"
    by (rule chans_asked_enter(1) [OF assms(1,2), of _ "si_ResultChan info"])
      (simp_all add: s fs_GetHandler_sel [OF h])
  then show ?thesis using assms(1,2) s(1) fs_GetHandler_sel [OF h]
    by (auto intro!: fs_ids_request simp: s(2) asked_outputs_def)
qed

lemma fs_purchase_ids:
  assumes "fs_ids evs st" and "\<not> fs_stopped st" and "fs_purchase info c st = Inr (outs, st')"
  shows "fs_ids (evs @ [FsPurchase info c]) st' \<and> asked_outputs es outs"
proof -
  let ?i = "fs_next_id st"
  let ?st1 = "st\<lparr>fs_nfs := (fs_nfs st)\<lparr>nf_sessionId := ?i,
     nf_userPurchaseResultChans := (nf_userPurchaseResultChans (fs_nfs st))(?i \<mapsto> pi_ResultChan info)\<rparr>\<rparr>"
  obtain h st2 where h: "fs_GetHandler ?st1 = (h, st2)" by (cases "fs_GetHandler ?st1")
  obtain hd s effs where s: "outs = [OutPurchase s effs]" "st' = fs_put_handler hd st2"
    using assms(3) h by (auto simp: fs_purchase_def Let_def and_then_Inr_iff)
  have "chans_asked (evs @ [FsPurchase info c]) (fs_nfs st')"
    by (rule chans_asked_enter(2) [OF assms(1,2), of _ "pi_ResultChan info"])
      (simp_all add: s fs_GetHandler_sel [OF h])
  then show ?thesis using assms(1,2) s(1) fs_GetHandler_sel [OF h]
    by (auto intro!: fs_ids_request simp: s(2) asked_outputs_def)
qed

lemma fs_paralleled_ids:
  assumes "fs_ids evs st" and "\<not> fs_stopped st" and "fs_paralleled info c1 c2 st = Inr (outs, st')"
  shows "fs_ids (evs @ [FsParalleled info c1 c2]) st' \<and> asked_outputs es outs"
proof -
  let ?i = "fs_next_id st"
  let ?st1 = "st\<lparr>fs_nfs := (fs_nfs st)\<lparr>nf_sessionId := ?i, nf_userParalleledPurchaseResultChans :=
     (nf_userParalleledPurchaseResultChans (fs_nfs st))(?i \<mapsto> pp_ResultChan info)\<rparr>\<rparr>"
  obtain h st2 where h: "fs_GetHandler ?st1 = (h, st2)" by (cases "fs_GetHandler ?st1")
  obtain hd s effs where s: "outs = [OutParalleled s effs]" "st' = fs_put_handler hd st2"
    using assms(3) h by (auto simp: fs_paralleled_def Let_def and_then_Inr_iff)
  have "chans_asked (evs @ [FsParalleled info c1 c2]) (fs_nfs st')"
    by (rule chans_asked_enter(3) [OF assms(1,2), of _ "pp_ResultChan info"])
      (simp_all add: s fs_GetHandler_sel [OF h])
  then show ?thesis using assms(1,2) s(1) fs_GetHandler_sel [OF h]
    by (auto intro!: fs_ids_request simp: s(2) asked_outputs_def)
qed

lemma fs_step_ids:
  assumes "fs_ids evs st" and "fs_step ev st = Inr (outs, st')"
  shows "fs_ids (evs @ [ev]) st' \<and> asked_outputs (evs @ [ev]) outs"
proof (cases "fs_stopped st \<and> \<not> is_task ev")
  case True
  then show ?thesis using assms chans_asked_append [of evs "fs_nfs st" "[ev]"]
    by (auto simp: fs_step_def fs_ids_def asked_outputs_def)
next
  case False
  then have sel: "fs_select ev st = Inr (outs, st')" using assms(2) by (auto simp: fs_step_def split: if_splits)
  obtain h st1 where gh: "fs_GetHandler st = (h, st1)" by (cases "fs_GetHandler st")
  note ghs = fs_GetHandler_sel [OF gh]
  show ?thesis
  proof (cases ev)
    case (FsShare info c1 c2)
    then show ?thesis using fs_share_ids [OF assms(1)] sel False by simp
  next
    case (FsPurchase info c)
    then show ?thesis using fs_purchase_ids [OF assms(1)] sel False by simp
  next
    case (FsParalleled info c1 c2)
    then show ?thesis using fs_paralleled_ids [OF assms(1)] sel False by simp
  next
    case (FsShareResult ord r)
    then have r: "fs_share_result ord r st = Inr (outs, st')" using sel by simp
    show ?thesis using fs_ids_other [OF assms(1), of ev st'] share_result_chans [OF r] FsShareResult
      by (simp add: asked_outputs_def)
  next
    case (FsTask n)
    show ?thesis
    proof (cases "n < length (fs_tasks st)")
      case True
      obtain o1 tasks nfs where rt: "run_task (fs_tasks st ! n) (fs_nfs st) = (o1, tasks, nfs)"
        by (cases "run_task (fs_tasks st ! n) (fs_nfs st)")
      have ca: "chans_asked (evs @ [ev]) (fs_nfs st)" using assms(1) chans_asked_append by (simp add: fs_ids_def)
      note t = run_task_chans [OF ca rt]
      have st': "outs = o1" "fs_nfs st' = nfs" "fs_stopped st' = fs_stopped st"
        using sel True by (auto simp: FsTask fs_run_task_def rt)
      show ?thesis using assms(1) t st' by (simp add: fs_ids_def FsTask)
    next
      case False
      then have "outs = []" "st' = st" using sel by (simp_all add: FsTask fs_run_task_def)
      then show ?thesis using fs_ids_other [OF assms(1), of ev st] by (simp add: FsTask asked_outputs_def)
    qed
  next
    case FsCtrl
    then show ?thesis using sel assms(1) chans_asked_append [of evs "fs_nfs st" "[ev]"]
      by (auto simp: fs_ids_def asked_outputs_def)
  qed (use sel fs_ids_other [OF assms(1), of ev st'] ghs in \<open>auto simp: fs_share_request_def fs_purchase_request_def
      fs_share_recv_result_def fs_tracker_def add_task_def asked_outputs_def Let_def and_then_Inr_iff gh
      split: prod.splits if_splits\<close>)
qed

lemma fs_runs_ids:
  "fs_runs st0 evs outs st \<Longrightarrow> fs_ids [] st0 \<Longrightarrow> fs_ids evs st \<and> asked_outputs evs outs"
proof (induction rule: fs_runs.induct)
  case (runs_step evs outs st ev out st')
  then show ?case using fs_step_ids asked_outputs_append asked_outputs_later by blast
next
  case (runs_store evs outs st k v p)
  then show ?case by (auto simp: fs_ids_def SetWithInfo_def chans_asked_def split: option.splits)
qed (simp add: asked_outputs_def)

text \<open>C16: Every result that a user receives is the answer to the user's own request: the result's id
  says which request of the run it belongs to, and it is given to the channel of that request.\<close>
theorem results_reach_requester:
  assumes "fs_runs (fs_init h f e) evs outs st" and "length (filter user_request evs) < 2 ^ 32"
  shows "(UserShare c r \<in> set outs \<longrightarrow> 0 < rs_ID r \<and> unat (rs_ID r) \<le> length (filter user_request evs)
        \<and> wants_share c (filter user_request evs ! (unat (rs_ID r) - 1)))
    \<and> (UserPurchase c q \<in> set outs \<longrightarrow> 0 < pu_ID q \<and> unat (pu_ID q) \<le> length (filter user_request evs)
        \<and> wants_purchase c (filter user_request evs ! (unat (pu_ID q) - 1)))
    \<and> (UserParalleled c p \<in> set outs \<longrightarrow> 0 < pq_ID p \<and> unat (pq_ID p) \<le> length (filter user_request evs)
        \<and> wants_paralleled c (filter user_request evs ! (unat (pq_ID p) - 1)))"
proof -
  have "fs_ids [] (fs_init h f e)" by (simp add: fs_ids_def chans_asked_def fs_init_def NewNaiveFS_def)
  then have ask: "asked_outputs evs outs" using fs_runs_ids [OF assms(1)] by blast
  have "0 < k \<and> unat k \<le> length (filter user_request evs) \<and> g (filter user_request evs ! (unat k - 1))"
    if "asked evs k g" for k g
  proof -
    obtain i where i: "i < length (filter user_request evs)" "k = word_of_nat (Suc i)" "g (filter user_request evs ! i)"
      using \<open>asked evs k g\<close> by (auto simp: asked_def)
    have "unat k = Suc i" using i(1,2) assms(2) by (simp add: unat_word_of_nat del: of_nat_Suc)
    then show ?thesis using i(1,3) by (simp add: word_less_nat_alt)
  qed
  then show ?thesis using ask unfolding asked_outputs_def by blast
qed

subsection \<open>Witnesses\<close>

abbreviation demo_init :: fs_state where
  "demo_init \<equiv> fs_init \<lparr>ah_id = 0, ah_listeners = Map.empty\<rparr> NewNaiveAppliNetHandlerFactory
     \<lparr>em_handlers = Map.empty, em_queue = []\<rparr>"

text \<open>A file system that stored one file and shares it.\<close>

lemma demo_shared:
  "\<exists>s effs st. fs_runs (demo_init) [FsShare demo_share 1 2] [OutShare s effs] st
    \<and> sh_info s = demo_share \<and> \<not> fs_stopped st"
proof -
  let ?st = "demo_init"
  let ?st1 = "?st\<lparr>fs_nfs := SetWithInfo [97] [11] \<lparr>fi_Owner = [], fi_Peers = Map.empty\<rparr> (fs_nfs ?st)\<rparr>"
  have r1: "fs_runs ?st [] [] ?st1" by (rule runs_store [OF runs_start])
  have db: "nf_db (fs_nfs ?st1) = [[97] \<mapsto> [11]]" "\<not> fs_stopped ?st1"
    by (simp_all add: SetWithInfo_db fs_init_def NewNaiveFS_def)
  let ?i = "fs_next_id ?st1"
  let ?st2 = "?st1\<lparr>fs_nfs := (fs_nfs ?st1)\<lparr>nf_sessionId := ?i,
     nf_userShareResultChans := (nf_userShareResultChans (fs_nfs ?st1))(?i \<mapsto> si_ResultChan demo_share)\<rparr>\<rparr>"
  obtain hd st3 where gh: "fs_GetHandler ?st2 = (hd, st3)" by (cases "fs_GetHandler ?st2")
  have db3: "nf_db (fs_nfs st3) = [[97] \<mapsto> [11]]" "\<not> fs_stopped st3"
    using fs_GetHandler_sel [OF gh] db by simp_all
  obtain bs where "encode_with share_request_msg_c (NewShareRequest (si_Origin demo_share) ?i (GenSHA1 [11]) (word_of_nat 1)) = Inr bs"
    using share_request_msg.encode_total [of "NewShareRequest (si_Origin demo_share) ?i (GenSHA1 [11]) (word_of_nat 1)"]
    by (auto simp: NewShareRequest_def)
  then have "\<exists>r. share_Start (fs_nfs st3) (NewShareSession ?i demo_share hd 1 2) = Inr r"
    using db3(1) by (simp add: share_Start_def NewShareSession_def Let_def fs_Get_def)
  then obtain effs s where ss: "share_Start (fs_nfs st3) (NewShareSession ?i demo_share hd 1 2) = Inr (effs, s)"
    by force
  have "fs_step (FsShare demo_share 1 2) ?st1 = Inr ([OutShare s effs], fs_put_handler (sh_handler s) st3)"
    using db(2) gh ss by (simp add: fs_step_def fs_share_def Let_def)
  from runs_step [OF r1 this] show ?thesis using share_Start_session(1) [OF ss] db3(2)
    by (intro exI [of _ s] exI [of _ effs] exI [of _ "fs_put_handler (sh_handler s) st3"]) simp
qed

lemma shared_file_is_tracked_witness:
  "\<exists>evs outs st st1. fs_runs (demo_init) evs outs st
    \<and> fs_step (FsShareResult [replicate 20 2] (NewShareResult 1 [[97]] [replicate 20 2 \<mapsto> SHARE_FINISHED])) st = Inr ([], st1)
    \<and> replicate 20 2 \<in> holders (fs_nfs st1) [97]"
proof -
  obtain s effs st where d: "fs_runs (demo_init) [FsShare demo_share 1 2] [OutShare s effs] st"
    "sh_info s = demo_share" "\<not> fs_stopped st"
    using demo_shared by blast
  let ?r = "NewShareResult 1 [[97]] [replicate 20 2 \<mapsto> SHARE_FINISHED]"
  obtain st1 where st1: "fs_step (FsShareResult [replicate 20 2] ?r) st = Inr ([], st1)"
    "\<forall>evs' outs' st2 k p. fs_runs st1 evs' outs' st2 \<and> k \<in> set (rs_Keys ?r)
         \<and> rs_PeerStates ?r p = Some SHARE_FINISHED \<longrightarrow> p \<in> holders (fs_nfs st2) k"
    using shared_file_is_tracked [OF d(1,3), of s effs ?r "[replicate 20 2]"] d(2)
    by (auto simp: NewShareResult_def enumerates_def)
  have "replicate 20 2 \<in> holders (fs_nfs st1) [97]"
    using st1(2) runs_start [of st1] by (simp add: NewShareResult_def)
  with d(1) st1(1) show ?thesis by blast
qed

lemma tracker_lists_holders_witness:
  "\<exists>msg data groups st. fs_step (FsTracker (\<lambda>i. if i = 0 then [replicate 20 2] else []) msg) st
      = Inr ([OutNet (appli_SendTo (nf_static (fs_nfs st)) [8] 6 TPROC_RECEIVER data)], st)
    \<and> decode_with tracker_result_msg_c data = Inr \<lparr>tr_PeerGroup = groups\<rparr>
    \<and> set (groups ! 0) = {replicate 20 2} \<and> set (groups ! 1) = {}"
proof -
  let ?nfs = "(fs_nfs demo_init)\<lparr>nf_fileInfoDB := [[97] \<mapsto> \<lparr>fi_Owner = [], fi_Peers = [replicate 20 2 \<mapsto> ()]\<rparr>]\<rparr>"
  let ?st = "(demo_init)\<lparr>fs_nfs := ?nfs\<rparr>"
  let ?req = "\<lparr>tq_KeyGroup = [[[97]], [[98]]]\<rparr>"
  let ?ord = "\<lambda>i :: nat. if i = 0 then [replicate 20 2] else [] :: node_id list"
  obtain bs where bs: "decode_with tracker_request_msg_c bs = Inr ?req"
    using tracker_request_msg.encode_total [of ?req] by (auto simp: string_c_def)
  let ?msg = "\<lparr>ln_FromPeerID = [8], ln_FromHandlerID = 6, ln_Data = bs\<rparr>"
  have hold: "holders ?nfs k = (if k = [97] then {replicate 20 2} else {})" for k
    by (simp add: holders_def NewNaiveFS_def)
  have en: "enumerates (?ord i) (peer_map ?nfs (tq_KeyGroup ?req ! i))" if "i < 2" for i
    using that hold less_2_cases [of i] by (auto simp: enumerates_def dom_peer_map)
  have "\<exists>data groups. fs_step (FsTracker ?ord ?msg) ?st = Inr ([OutNet (appli_SendTo (nf_static (fs_nfs ?st))
        (ln_FromPeerID ?msg) (ln_FromHandlerID ?msg) TPROC_RECEIVER data)], ?st)
    \<and> decode_with tracker_result_msg_c data = Inr \<lparr>tr_PeerGroup = groups\<rparr>
    \<and> length groups = length (tq_KeyGroup ?req)
    \<and> (\<forall>i < length groups. distinct (groups ! i)
         \<and> set (groups ! i) = (\<Union>k \<in> set (tq_KeyGroup ?req ! i). holders (fs_nfs ?st) k))"
    by (rule tracker_lists_holders) (use bs en hold in \<open>auto simp: fs_init_def split: if_splits\<close>)
  then obtain data groups where g: "fs_step (FsTracker ?ord ?msg) ?st = Inr ([OutNet (appli_SendTo (nf_static (fs_nfs ?st))
        (ln_FromPeerID ?msg) (ln_FromHandlerID ?msg) TPROC_RECEIVER data)], ?st)"
    "decode_with tracker_result_msg_c data = Inr \<lparr>tr_PeerGroup = groups\<rparr>" "length groups = length (tq_KeyGroup ?req)"
    "\<forall>i < length groups. distinct (groups ! i)
         \<and> set (groups ! i) = (\<Union>k \<in> set (tq_KeyGroup ?req ! i). holders (fs_nfs ?st) k)"
    by (elim exE conjE) (rule that)
  show ?thesis
    by (intro exI [of _ ?msg] exI [of _ data] exI [of _ groups] exI [of _ ?st] conjI)
      (use g hold in simp_all)
qed

lemma purchase_request_panics_iff_witness:
  "\<exists>msg p. fs_step (FsPurchaseRequest msg 5) demo_init = Inl p"
proof -
  let ?req = "\<lparr>pr_ID = 1, pr_Keys = [[97]]\<rparr>"
  obtain bs where bs: "decode_with purchase_request_msg_c bs = Inr ?req"
    using purchase_request_msg.encode_total [of ?req] by (auto simp: string_c_def)
  have "\<exists>p. fs_step (FsPurchaseRequest \<lparr>ln_FromPeerID = [8], ln_FromHandlerID = 6, ln_Data = bs\<rparr> 5) demo_init = Inl p"
    by (subst purchase_request_panics_iff [of _ _ ?req])
      (use bs in \<open>simp_all add: fs_init_def NewNaiveFS_def\<close>)
  then show ?thesis by blast
qed

lemma results_reach_requester_witness:
  "\<exists>outs st. fs_runs (demo_init) [FsPurchase demo_purchase 5,
      FsPurchaseResult (NewPurchaseResult 1 True [1] [[97]]), FsTask 0] outs st
    \<and> UserPurchase 9 (NewPurchaseResult 1 True [1] [[97]]) \<in> set outs \<and> wants_purchase 9 (FsPurchase demo_purchase 5)"
proof -
  let ?st = "demo_init" and ?r = "NewPurchaseResult 1 True [1] [[97]]"
  let ?st1 = "?st\<lparr>fs_nfs := (fs_nfs ?st)\<lparr>nf_sessionId := 1, nf_userPurchaseResultChans := [1 \<mapsto> 9]\<rparr>\<rparr>"
  obtain hd st2 where gh: "fs_GetHandler ?st1 = (hd, st2)" by (cases "fs_GetHandler ?st1")
  obtain bs where "encode_with purchase_request_msg_c \<lparr>pr_ID = 1, pr_Keys = [[97]]\<rparr> = Inr bs"
    using purchase_request_msg.encode_total [of "\<lparr>pr_ID = 1, pr_Keys = [[97]]\<rparr>"] by (auto simp: string_c_def)
  then have "\<exists>r. purchase_Start (NewPurchaseSession 1 demo_purchase hd 5) = Inr r"
    by (simp add: purchase_Start_def NewPurchaseSession_def Let_def)
  then obtain effs s where ss: "purchase_Start (NewPurchaseSession 1 demo_purchase hd 5) = Inr (effs, s)" by force
  let ?st3 = "fs_put_handler (ps_handler s) st2"
  have s1: "fs_step (FsPurchase demo_purchase 5) ?st = Inr ([OutPurchase s effs], ?st3)"
    using gh ss by (simp add: fs_step_def fs_purchase_def fs_next_id_def fs_init_def NewNaiveFS_def Let_def
        demo_purchase_def NewFilePurchaseInfo_def)
  have f3: "nf_userPurchaseResultChans (fs_nfs ?st3) = [1 \<mapsto> 9]" "\<not> fs_stopped ?st3" "fs_tasks ?st3 = []"
    using fs_GetHandler_sel [OF gh] by (simp_all add: fs_init_def)
  let ?st4 = "add_task (GivePurchase ?r) ?st3"
  have s2: "fs_step (FsPurchaseResult ?r) ?st3 = Inr ([], ?st4)" using f3(2) by (simp add: fs_step_def)
  have "\<exists>st5. fs_step (FsTask 0) ?st4 = Inr ([UserPurchase 9 ?r], st5)"
    using f3 by (simp add: fs_step_def fs_run_task_def add_task_def NewPurchaseResult_def)
  then obtain st5 where s3: "fs_step (FsTask 0) ?st4 = Inr ([UserPurchase 9 ?r], st5)" by blast
  have r: "fs_runs ?st [FsPurchase demo_purchase 5, FsPurchaseResult ?r, FsTask 0]
      [OutPurchase s effs, UserPurchase 9 ?r] st5"
    using runs_step [OF runs_step [OF runs_step [OF runs_start s1] s2] s3] by simp
  have "wants_purchase 9 (FsPurchase demo_purchase 5)"
    using results_reach_requester [OF r, where c = 9 and q = ?r] by (simp add: NewPurchaseResult_def)
  with r show ?thesis by (intro exI [of _ "[OutPurchase s effs, UserPurchase 9 ?r]"] exI [of _ st5]) simp
qed

end
