(* ===== verification/Spec2Isabelle.thy ===== *)
theory Spec2Isabelle
  imports P2P_Server Pack_End_To_End Task_Protocol File_System
begin

text \<open>
  Verification of \<open>gcbb\<close>, a Go program for computing on machines that do not trust each other.
  A master puts a task of several sub-tasks on a chain contract; workers validate it, fetch their
  input from peers, execute it and submit confounded hashes of their results; the master unconfounds
  them and takes, for every unit task, the answer of a strict majority. Files travel between nodes by
  share and purchase sessions, and everything runs over a peer-to-peer layer of UDP handlers and a
  Kademlia table. The code is under \<open>src/src\<close>; file names below are relative to it.

  \<^bold>\<open>How the code is translated.\<close> A struct is a record, an enum a datatype, an integer a word of its width
  (\<open>int\<close> is 64 bits wide), a map a partial function, a slice a list. A function that can panic
  returns a value of \<open>'a go\<close>: \<open>Inl\<close> the panic (index or slice out of range, nil dereference, failed
  type assertion, division by zero), \<open>Inr\<close> the result; where a loop can run for ever it is of type
  \<open>'a go option\<close>, and \<open>None\<close> is code that never returns. A goroutine that loops over a \<open>select\<close> is a step
  function over its record and a datatype of events, one constructor per channel or timer, one definition
  per branch; what it sends is a list of outputs. A goroutine that only delivers a value is a pending task
  that an event runs, so that every interleaving of deliveries is an event sequence. Where Go chooses
  (the order of a map iteration, a new channel, a clock, what a foreign peer answers), the choice is an
  argument of the definition and the theorems hold for all choices.

  \<^bold>\<open>The theories.\<close>
  \<^item> \<open>Prelude\<close>: the panics, checked indexing, slicing and division, the collections \<open>go_simps\<close> and
    \<open>lawful_intros\<close>, lemmas on words, lists and maps that the components share.
  \<^item> \<open>Looped_Queue\<close> (\<open>net/queue.go\<close>): the ring buffer on its \<open>uint32\<close> fields refines a bounded list.
  \<^item> \<open>Encoder\<close> (\<open>common/encoder.go\<close>): the reflective encoder over a universe of Go types and values:
    round trip, prefix freedom, total decoding.
  \<^item> \<open>Messages\<close>: the wire messages of \<open>net\<close> and \<open>fs\<close>, each with a lawful codec (locale
    \<open>message_codec\<close>) obtained from the encoder, and the packet size constants.
  \<^item> \<open>Sha1\<close> and \<open>Common_Defs\<close> (\<open>common/*.go\<close>): the hash, listener ids, task messages, big integers.
  \<^item> \<open>Kad_DHT\<close> (\<open>net/kad.go\<close>): distance and buckets; the table as a finite map (locale \<open>peer_table\<close>).
  \<^item> \<open>P2P_Handler\<close> and \<open>P2P_Server\<close> (\<open>net/p2p.go\<close>): the state machine of one association with
    its timers, the pool, and the server that opens associations and routes messages.
  \<^item> \<open>Multi_Pack\<close> (\<open>net/multipack.go\<close>): the transport that cuts data into fragments, sends them in a window
    and puts them together again; \<open>Pack_Transport\<close> holds the theorems about one end and
    \<open>Pack_End_To_End\<close> the composition of both ends. It rests on \<open>Float_Arith\<close> (the
    \<open>float32\<close> and \<open>float64\<close> operations that it uses, with their rounding), \<open>Go_Timer\<close>
    (\<open>common/timer.go\<close>) and \<open>Go_Loop\<close> (loops that need not end).
  \<^item> \<open>Appli_Net\<close> (\<open>net/application.go\<close> and the emulator of \<open>net/net.go\<close>): listeners, addressed delivery.
  \<^item> \<open>Calc_Contract\<close> (\<open>chain/*.go\<close>): the simulated chain and the calculation contract.
  \<^item> \<open>Task_Scheduler\<close> (\<open>master/task.go\<close>, \<open>master/scheduler.go\<close>): the graph of sub-tasks.
  \<^item> \<open>Master_Session\<close> (\<open>master/session.go\<close>) and \<open>Worker_Session\<close> (\<open>worker/*.go\<close>): the two ends of a
    task; \<open>Task_Protocol\<close> composes them over the contract and the messages.
  \<^item> \<open>File_Store\<close>, \<open>Share_Session\<close>, \<open>Purchase_Session\<close>, \<open>Tracker_Session\<close> and \<open>File_System\<close>
    (\<open>fs/*.go\<close>): the store, the sessions that move files, and the loop that runs the sessions.

  \<^bold>\<open>What the theorems show.\<close> For the task protocol: every decoded message is the one that was sent, a vote
  is counted once per worker, termination needs a strict and unique majority, an honest majority
  terminates; a confounded hash is recovered when it does not start with a zero byte and the sum with the
  key has no carry out of 20 bytes; a zero byte panics, and a carry corrupts the answer when the key is
  not larger than the hash. For files: offer, accept and pack compose to a copy of
  the files, nothing is stored that fails its hash, a result reaches only the request that it
  belongs to, a tracker answers with exactly the recorded holders. For the network: encoder and
  codecs are inverse, the table is a finite map under its operations, a routed message is passed on
  finitely often, two servers that do not know each other end with handlers that ping each other's
  address, the timers of a handler match its state. For the transport: fragments in order become the data
  that were sent, unless there is only one; a gap panics the receiver, a stray fragment hangs it, the
  ring buffer's use of sequence numbers as indices ends both ends after few packets, and the round trip
  times are multiples of 128 seconds. These theorems start from queues that are set up, although the
  constructor sets up none (\<open>unconfigured_handler_panics\<close>). Where the code panics or loses data the theorem
  says for which inputs, as an equivalence where there is one.

  \<^bold>\<open>Bounds.\<close> No definition uses fuel: a loop is a structural recursion, a recursion over a count that the
  code has, or \<open>go_loop\<close>, whose value is \<open>None\<close> when it never ends. Lengths of encoded slices are below
  \<open>2 ^ 32\<close> as in the code, ring buffers have fewer than \<open>2 ^ 31\<close> slots, which is what the sum in their
  index arithmetic needs.

  \<^bold>\<open>Not modelled.\<close> \<open>main.go\<close> (a demonstration), \<open>net/security.go\<close> and \<open>NaiveNetHandler\<close> (empty
  methods), \<open>GobNetEncoder\<close> (only calls \<open>encoding/gob\<close>), socket input and output and the question for
  the public address (the answers are arguments), fused floating point operations and the sign of
  zero, log lines, and data races on maps that goroutines share with the loops.
\<close>

end
